(* ===== verification/Prelude.thy ===== *)
theory Prelude
  imports Main "HOL-Library.Multiset"
begin

text \<open>
  Shared vocabulary of the development: the types that stand for the values the code passes
  around (identifiers, timestamps, JSON documents), the exceptions it throws, the verdict of an
  external call, and the generic facts on lists of rows that the table components share.

  \<^item> Strings are lists of characters with codes 0 to 255. Identifiers, URLs, queue and channel
    names are such strings.
  \<^item> Times are integers, in milliseconds since the epoch (what \<open>Date.now()\<close> returns).
  \<^item> A JSON number is \<open>JNum m e\<close>, standing for \<open>m * 2 ^ e\<close>: every finite double has this form.
    \<open>JDate t\<close> is a \<open>Date\<close> inside an object that has not been serialised yet.
\<close>

type_synonym uuid = string
type_synonym time = int

datatype json =
    JNull
  | JBool bool
  | JNum int int
  | JStr string
  | JDate time
  | JArr "json list"
  | JObj "(string \<times> json) list"

section \<open>Exceptions and the verdict of an external call\<close>

text \<open>
  \<open>sql_violation\<close> lists the integrity errors PostgreSQL reports for the constraints of the two
  tables, and the rejection of a malformed literal. \<open>InfraError\<close> is any failure of PostgreSQL, Redis or the queue that has nothing to do
  with the data (connection lost, timeout). \<open>HttpException\<close> is a NestJS exception with its
  status code.
\<close>

datatype sql_violation =
    NotNullViolation string
  | PrimaryKeyViolation string
  | UniqueViolation string
  | CheckViolation string
  | InvalidTextRepresentation string

datatype exn =
    HttpException nat string
  | SqlError sql_violation
  | InfraError
  | PlainError string
  | DispatchFailedError string int string "nat option"
  | NonRetryableError string nat

abbreviation BadRequestException :: "string \<Rightarrow> exn" where
  "BadRequestException \<equiv> HttpException 400"

abbreviation UnauthorizedException :: "string \<Rightarrow> exn" where
  "UnauthorizedException \<equiv> HttpException 401"

abbreviation NotFoundException :: "string \<Rightarrow> exn" where
  "NotFoundException \<equiv> HttpException 404"

abbreviation ConflictException :: "string \<Rightarrow> exn" where
  "ConflictException \<equiv> HttpException 409"

abbreviation InternalServerErrorException :: "string \<Rightarrow> exn" where
  "InternalServerErrorException \<equiv> HttpException 500"

text \<open>
  Every awaited call to PostgreSQL, Redis or the queue has a verdict chosen by the environment:
  it is carried out and answered (\<open>Done\<close>), it is rejected with no effect (\<open>Fail_Before\<close>), or it
  takes effect although the caller sees a rejection (\<open>Fail_After\<close>: the answer was lost).
\<close>

datatype io = Done | Fail_Before | Fail_After

definition io_call :: "io \<Rightarrow> ('s \<Rightarrow> (exn + 'a) \<times> 's) \<Rightarrow> 's \<Rightarrow> (exn + 'a) \<times> 's" where
  "io_call v f s =
     (case v of
        Done \<Rightarrow> f s
      | Fail_Before \<Rightarrow> (Inl InfraError, s)
      | Fail_After \<Rightarrow> (Inl InfraError, snd (f s)))"

lemma io_call_simps [simp]:
  "io_call Done f s = f s"
  "io_call Fail_Before f s = (Inl InfraError, s)"
  "io_call Fail_After f s = (Inl InfraError, snd (f s))"
  by (simp_all add: io_call_def)

text \<open>Whatever the verdict, the state a call leaves is the old one or the one the call makes.\<close>

lemma io_call_state_cases:
  obtains "snd (io_call v f s) = s" | "snd (io_call v f s) = snd (f s)"
  by (cases v) auto

lemma io_call_preserves:
  assumes "P s" and "P (snd (f s))"
  shows "P (snd (io_call v f s))"
  using assms by (cases v) auto

lemma io_call_Inr:
  "io_call v f s = (Inr x, s') \<longleftrightarrow> v = Done \<and> f s = (Inr x, s')"
  by (cases v) auto

text \<open>The JavaScript condition \<open>if (s)\<close> on an optional string.\<close>

definition truthy :: "string option \<Rightarrow> bool" where
  "truthy s \<longleftrightarrow> (case s of None \<Rightarrow> False | Some v \<Rightarrow> v \<noteq> [])"

lemma truthy_simps [simp]: "\<not> truthy None" "truthy (Some v) \<longleftrightarrow> v \<noteq> []"
  by (simp_all add: truthy_def)

text \<open>\<open>String(n)\<close> on an integer: its decimal digits.\<close>

fun show_nat :: "nat \<Rightarrow> string" where
  "show_nat n =
     (if n < 10 then [char_of (48 + n)] else show_nat (n div 10) @ [char_of (48 + n mod 10)])"

declare show_nat.simps [simp del]

definition show_int :: "int \<Rightarrow> string" where
  "show_int n = (if n < 0 then ''-'' @ show_nat (nat (- n)) else show_nat (nat n))"

section \<open>Statements over a list of rows\<close>

text \<open>A table is the list of its rows in the order a scan meets them.\<close>

definition update_where :: "('r \<Rightarrow> bool) \<Rightarrow> ('r \<Rightarrow> 'r) \<Rightarrow> 'r list \<Rightarrow> 'r list" where
  "update_where p f rows = map (\<lambda>r. if p r then f r else r) rows"

definition delete_where :: "('r \<Rightarrow> bool) \<Rightarrow> 'r list \<Rightarrow> 'r list" where
  "delete_where p rows = filter (\<lambda>r. \<not> p r) rows"

named_theorems row_simps \<open>facts on statements over a list of rows\<close>
named_theorems handler_defs \<open>definitions of the handlers, unfolded branch by branch\<close>
named_theorems inv_intros \<open>operations keep the invariants\<close>

lemma update_where_Nil [simp]: "update_where p f [] = []"
  by (simp add: update_where_def)

lemma update_where_Cons [simp]:
  "update_where p f (r # rs) = (if p r then f r else r) # update_where p f rs"
  by (simp add: update_where_def)

lemma length_update_where [simp]: "length (update_where p f rows) = length rows"
  by (simp add: update_where_def)

lemma set_update_where [row_simps]:
  "set (update_where p f rows) = {r \<in> set rows. \<not> p r} \<union> f ` {r \<in> set rows. p r}"
  by (auto simp: update_where_def)

lemma update_where_id: "(\<And>r. r \<in> set rows \<Longrightarrow> \<not> p r) \<Longrightarrow> update_where p f rows = rows"
  by (simp add: update_where_def map_idI)

lemma map_update_where:
  "(\<And>r. r \<in> set rows \<Longrightarrow> p r \<Longrightarrow> k (f r) = k r) \<Longrightarrow> map k (update_where p f rows) = map k rows"
  by (simp add: update_where_def)

lemma set_delete_where [simp]: "set (delete_where p rows) = {r \<in> set rows. \<not> p r}"
  by (auto simp: delete_where_def)

lemma distinct_map_delete_where:
  "distinct (map k rows) \<Longrightarrow> distinct (map k (delete_where p rows))"
  by (simp add: delete_where_def distinct_map_filter)

text \<open>Lookup of the row with a given key, as \<open>SELECT ... WHERE key = k LIMIT 1\<close>.\<close>

definition find_row :: "('r \<Rightarrow> 'k) \<Rightarrow> 'k \<Rightarrow> 'r list \<Rightarrow> 'r option" where
  "find_row key k rows = find (\<lambda>r. key r = k) rows"

lemma find_row_Some_iff:
  "distinct (map key rows) \<Longrightarrow> find_row key k rows = Some r \<longleftrightarrow> r \<in> set rows \<and> key r = k"
  by (induction rows) (auto simp: find_row_def)

lemma find_row_None_iff: "find_row key k rows = None \<longleftrightarrow> k \<notin> key ` set rows"
  by (auto simp: find_row_def find_None_iff)

lemma find_row_SomeD: "find_row key k rows = Some r \<Longrightarrow> r \<in> set rows \<and> key r = k"
  by (auto simp: find_row_def find_Some_iff)

lemma find_row_append:
  "find_row key k (rows @ rows') =
     (case find_row key k rows of None \<Rightarrow> find_row key k rows' | Some r \<Rightarrow> Some r)"
  by (induction rows) (auto simp: find_row_def)

lemma find_row_snoc:
  "key r \<notin> key ` set rows \<Longrightarrow>
   find_row key k (rows @ [r]) = (if k = key r then Some r else find_row key k rows)"
  by (induction rows) (auto simp: find_row_def)

lemma find_row_update_where:
  assumes "\<And>r. r \<in> set rows \<Longrightarrow> p r \<Longrightarrow> key (f r) = key r"
  shows "find_row key k (update_where p f rows) =
           map_option (\<lambda>r. if p r then f r else r) (find_row key k rows)"
  using assms by (induction rows) (auto simp: find_row_def)

lemma find_row_delete_where:
  "distinct (map key rows) \<Longrightarrow>
   find_row key k (delete_where p rows) =
     (case find_row key k rows of None \<Rightarrow> None | Some r \<Rightarrow> if p r then None else Some r)"
proof (induction rows)
  case Nil
  then show ?case by (simp add: find_row_def delete_where_def)
next
  case (Cons r rows)
  have "key r = k \<Longrightarrow> find_row key k (delete_where p rows) = None"
    using Cons.prems by (auto simp: find_row_None_iff)
  with Cons show ?case by (auto simp: find_row_def delete_where_def)
qed

section \<open>Maxima, stable sorting, ascending lists\<close>

lemma fold_max_Max: "fold max ss s = Max (set (s # ss))" for s :: "'a::linorder"
  by (rule Max.set_eq_fold [symmetric])

lemma case_fold_max:
  "(case xs of [] \<Rightarrow> d | s # ss \<Rightarrow> fold max ss s) = (if xs = [] then d else Max (set xs))"
  for d :: "'a::linorder"
  by (cases xs) (simp_all only: fold_max_Max list.case refl if_True if_False list.distinct)

text \<open>Appending a largest element commutes with sorting.\<close>

lemma sort_key_snoc_max:
  assumes "\<And>x. x \<in> set xs \<Longrightarrow> f x \<le> f y"
  shows "sort_key f (xs @ [y]) = sort_key f xs @ [y]"
proof (rule properties_for_sort_key)
  show "mset (sort_key f xs @ [y]) = mset (xs @ [y])" by simp
  show "sorted (map f (sort_key f xs @ [y]))"
    using assms by (auto simp: sorted_append)
  fix k
  show "filter (\<lambda>x. f k = f x) (sort_key f xs @ [y]) = filter (\<lambda>x. f k = f x) (xs @ [y])"
    using sort_key_stable [of f "f k" xs] by (simp add: eq_commute [of "f k"])
qed

text \<open>In a list with ascending keys, a threshold splits what lies above a smaller one.\<close>

lemma filter_above_split:
  fixes f :: "'a \<Rightarrow> 'b::linorder"
  assumes "sorted_wrt (<) (map f xs)" and "n \<le> m"
  shows "filter (\<lambda>x. n < f x) xs =
           filter (\<lambda>x. n < f x \<and> f x \<le> m) xs @ filter (\<lambda>x. m < f x) xs"
  using assms(1)
proof (induction xs)
  case Nil
  then show ?case by simp
next
  case (Cons x xs)
  have low: "filter (\<lambda>x. n < f x \<and> f x \<le> m) xs = []" if "m < f x"
    using Cons.prems that by (fastforce simp: filter_empty_conv)
  show ?case
    using Cons assms(2) by (cases "f x \<le> m") (auto simp: low not_le)
qed

end
