(* ===== verification/TaskTable.thy ===== *)
theory TaskTable
  imports Prelude
begin

text \<open>
  The \<open>tasks\<close> table of \<^verbatim>\<open>src/modules/tasks/schemas/tasks.sql.ts\<close>: the row type with the schema's
  columns, its constraints (not null, primary key, the partial unique index on the idempotency key, the
  \<open>tasks_valid_state_data\<close> check) and the two kinds of statement that write to it. A statement
  that would break a constraint is rejected as a whole, as PostgreSQL does.
\<close>

section \<open>Rows\<close>

datatype task_status = PENDING | PROCESSING | COMPLETED | FAILED | CANCELLED

instantiation task_status :: enum
begin

definition enum_task_status :: "task_status list" where
  "enum_task_status = [PENDING, PROCESSING, COMPLETED, FAILED, CANCELLED]"

definition enum_all_task_status :: "(task_status \<Rightarrow> bool) \<Rightarrow> bool" where
  "enum_all_task_status P \<longleftrightarrow>
     P PENDING \<and> P PROCESSING \<and> P COMPLETED \<and> P FAILED \<and> P CANCELLED"

definition enum_ex_task_status :: "(task_status \<Rightarrow> bool) \<Rightarrow> bool" where
  "enum_ex_task_status P \<longleftrightarrow>
     P PENDING \<or> P PROCESSING \<or> P COMPLETED \<or> P FAILED \<or> P CANCELLED"

instance
proof
  show univ: "(UNIV :: task_status set) = set enum_class.enum"
    using task_status.exhaust by (auto simp: enum_task_status_def)
  show "distinct (enum_class.enum :: task_status list)"
    by (simp add: enum_task_status_def)
  fix P :: "task_status \<Rightarrow> bool"
  show "enum_class.enum_all P \<longleftrightarrow> Ball UNIV P" and "enum_class.enum_ex P \<longleftrightarrow> Bex UNIV P"
    by (simp_all add: univ enum_task_status_def enum_all_task_status_def enum_ex_task_status_def)
qed

end

text \<open>The text of a status, as the enum column holds it.\<close>

definition status_name :: "task_status \<Rightarrow> string" where
  "status_name st =
     (case st of
        PENDING \<Rightarrow> ''PENDING'' | PROCESSING \<Rightarrow> ''PROCESSING'' | COMPLETED \<Rightarrow> ''COMPLETED''
      | FAILED \<Rightarrow> ''FAILED'' | CANCELLED \<Rightarrow> ''CANCELLED'')"

definition terminal :: "task_status \<Rightarrow> bool" where
  "terminal st \<longleftrightarrow> st \<in> {COMPLETED, FAILED, CANCELLED}"

definition active :: "task_status \<Rightarrow> bool" where
  "active st \<longleftrightarrow> st \<in> {PENDING, PROCESSING}"

lemma terminal_simps [simp]:
  "\<not> terminal PENDING" "\<not> terminal PROCESSING" "terminal COMPLETED" "terminal FAILED"
  "terminal CANCELLED"
  by (simp_all add: terminal_def)

lemma active_simps [simp]:
  "active PENDING" "active PROCESSING" "\<not> active COMPLETED" "\<not> active FAILED"
  "\<not> active CANCELLED"
  by (simp_all add: active_def)

lemma not_active_iff: "\<not> active st \<longleftrightarrow> terminal st"
  by (cases st) auto

record task_error =
  err_code :: string
  err_message :: string
  err_details :: "json option"

record task =
  task_id :: uuid
  idempotencyKey :: "string option"
  status :: task_status
  task_type :: string
  payload :: json
  executorUrl :: string
  callbackToken :: "string option"
  webhookUrl :: "string option"
  cancelUrl :: "string option"
  result :: "json option"
  error :: "task_error option"
  progress :: int
  timeoutSeconds :: int
  processingStartedAt :: "time option"
  expiresAt :: "time option"
  completedAt :: "time option"
  createdAt :: time
  updatedAt :: time

section \<open>Constraints\<close>

definition tasks_valid_state_data :: "task \<Rightarrow> bool" where
  "tasks_valid_state_data t \<longleftrightarrow>
     (status t = PENDING \<and> processingStartedAt t = None \<and> completedAt t = None)
   \<or> (status t = PROCESSING \<and> processingStartedAt t \<noteq> None \<and> completedAt t = None)
   \<or> (status t \<in> {COMPLETED, FAILED} \<and> processingStartedAt t \<noteq> None \<and> completedAt t \<noteq> None)
   \<or> (status t = CANCELLED \<and> completedAt t \<noteq> None)"

text \<open>The keys the partial index holds: those of the rows whose key is not null.\<close>

definition indexed_keys :: "task list \<Rightarrow> string list" where
  "indexed_keys rows = List.map_filter idempotencyKey rows"

definition tasks_idempotency_key_idx :: "task list \<Rightarrow> bool" where
  "tasks_idempotency_key_idx rows \<longleftrightarrow> distinct (indexed_keys rows)"

definition tasks_wf :: "task list \<Rightarrow> bool" where
  "tasks_wf rows \<longleftrightarrow>
     distinct (map task_id rows) \<and> tasks_idempotency_key_idx rows \<and>
     list_all tasks_valid_state_data rows"

section \<open>Statements\<close>

text \<open>
  Of the columns that are not null the type of rows leaves only one with a value that stands for null:
  the ORM hands a JSON \<open>null\<close> to the driver as SQL's null.
\<close>

definition tasks_insert_row :: "task \<Rightarrow> task list \<Rightarrow> exn + task list" where
  "tasks_insert_row t rows =
     (if payload t = JNull
      then Inl (SqlError (NotNullViolation ''payload''))
      else if \<not> tasks_valid_state_data t
      then Inl (SqlError (CheckViolation ''tasks_valid_state_data''))
      else if task_id t \<in> set (map task_id rows)
      then Inl (SqlError (PrimaryKeyViolation ''tasks_pkey''))
      else if \<not> tasks_idempotency_key_idx (rows @ [t])
      then Inl (SqlError (UniqueViolation ''tasks_idempotency_key_idx''))
      else Inr (rows @ [t]))"

text \<open>
  \<open>UPDATE tasks SET ... WHERE p RETURNING *\<close>: \<open>f\<close> is the assignment, the result is the new
  table and the updated rows. None of the code's assignments touches \<open>id\<close>,
  \<open>idempotency_key\<close> or \<open>payload\<close>, so the check is the only constraint an update can break.
\<close>

definition tasks_update_rows ::
  "(task \<Rightarrow> bool) \<Rightarrow> (task \<Rightarrow> task) \<Rightarrow> task list \<Rightarrow> exn + (task list \<times> task list)" where
  "tasks_update_rows p f rows =
     (if list_all tasks_valid_state_data (map f (filter p rows))
      then Inr (update_where p f rows, map f (filter p rows))
      else Inl (SqlError (CheckViolation ''tasks_valid_state_data'')))"

text \<open>An assignment that leaves the key columns alone.\<close>

definition keeps_keys :: "(task \<Rightarrow> task) \<Rightarrow> bool" where
  "keeps_keys f \<longleftrightarrow> (\<forall>t. task_id (f t) = task_id t \<and> idempotencyKey (f t) = idempotencyKey t)"

lemma indexed_keys_simps [simp]:
  "indexed_keys [] = []"
  "indexed_keys (t # rows) =
     (case idempotencyKey t of None \<Rightarrow> indexed_keys rows | Some k \<Rightarrow> k # indexed_keys rows)"
  by (simp_all add: indexed_keys_def List.map_filter_simps split: option.split)

lemma indexed_keys_append [simp]: "indexed_keys (rows @ rows') = indexed_keys rows @ indexed_keys rows'"
  by (induction rows) (auto split: option.split)

lemma set_indexed_keys: "k \<in> set (indexed_keys rows) \<longleftrightarrow> (\<exists>t \<in> set rows. idempotencyKey t = Some k)"
  by (induction rows) (auto split: option.split)

lemma indexed_keys_cong:
  "map idempotencyKey rows = map idempotencyKey rows' \<Longrightarrow> indexed_keys rows = indexed_keys rows'"
  by (induction rows rows' rule: list_induct2') (auto split: option.split)

lemma distinct_indexed_keys_delete_where:
  "distinct (indexed_keys rows) \<Longrightarrow> distinct (indexed_keys (delete_where p rows))"
  by (induction rows) (auto simp: delete_where_def set_indexed_keys split: option.splits)

lemma tasks_wf_Nil [simp]: "tasks_wf []"
  by (simp add: tasks_wf_def tasks_idempotency_key_idx_def)

lemma tasks_wf_distinct: "tasks_wf rows \<Longrightarrow> distinct (map task_id rows)"
  by (simp add: tasks_wf_def)

lemma tasks_wf_valid: "tasks_wf rows \<Longrightarrow> t \<in> set rows \<Longrightarrow> tasks_valid_state_data t"
  by (simp add: tasks_wf_def list_all_iff)

lemma tasks_insert_row_wf [inv_intros]:
  "tasks_insert_row t rows = Inr rows' \<Longrightarrow> tasks_wf rows \<Longrightarrow> tasks_wf rows'"
  by (auto simp: tasks_insert_row_def tasks_wf_def split: if_splits)

lemma tasks_update_rows_wf [inv_intros]:
  assumes upd: "tasks_update_rows p f rows = Inr (rows', ret)"
    and keys: "keeps_keys f" and wf: "tasks_wf rows"
  shows "tasks_wf rows'"
proof -
  from upd have rows': "rows' = update_where p f rows"
    and ok: "\<forall>r \<in> set rows. p r \<longrightarrow> tasks_valid_state_data (f r)"
    by (auto simp: tasks_update_rows_def list_all_iff split: if_splits)
  have "map task_id rows' = map task_id rows" and "map idempotencyKey rows' = map idempotencyKey rows"
    using keys by (simp_all add: rows' keeps_keys_def map_update_where)
  moreover have "list_all tasks_valid_state_data rows'"
    using wf ok by (auto simp: rows' tasks_wf_def list_all_iff row_simps)
  ultimately show ?thesis
    using wf indexed_keys_cong [of rows' rows]
    by (simp add: tasks_wf_def tasks_idempotency_key_idx_def)
qed

lemma tasks_wf_delete_where [inv_intros]: "tasks_wf rows \<Longrightarrow> tasks_wf (delete_where p rows)"
  by (auto simp: tasks_wf_def tasks_idempotency_key_idx_def distinct_map_delete_where
      distinct_indexed_keys_delete_where list_all_iff)

text \<open>With the key columns untouched, an update by primary key rewrites at most one row.\<close>

lemma filter_by_id:
  "distinct (map task_id rows) \<Longrightarrow>
   filter (\<lambda>t. task_id t = i \<and> q t) rows =
     (case find_row task_id i rows of None \<Rightarrow> [] | Some t \<Rightarrow> if q t then [t] else [])"
proof (induction rows)
  case Nil
  then show ?case by (simp add: find_row_def)
next
  case (Cons r rows)
  have "task_id r = i \<Longrightarrow> find_row task_id i rows = None"
    using Cons.prems by (auto simp: find_row_None_iff)
  with Cons show ?case by (auto simp: find_row_def)
qed

end
