(* ===== verification/EventLog.thy ===== *)
theory EventLog
  imports TaskTable
begin

text \<open>
  The append-only event log: the \<open>task_events\<close> table of
  \<^verbatim>\<open>src/modules/delivery/schemas/events.sql.ts\<close> and the repository over it,
  \<^verbatim>\<open>src/modules/delivery/events.repository.ts\<close>. The interface its clients rely on (the executor
  service, cancellation, the SSE replay) is the locale \<open>seq_log\<close>: a per-task log that grows at
  the end with a larger sequence number, and a query for what lies after a given number.
\<close>

section \<open>Rows and inputs\<close>

datatype task_event_type = EvProgress | EvCompleted | EvFailed | EvCancelled

definition terminal_event_type :: "task_event_type \<Rightarrow> bool" where
  "terminal_event_type ty \<longleftrightarrow> ty \<in> {EvCompleted, EvFailed, EvCancelled}"

lemma terminal_event_type_simps [simp]:
  "\<not> terminal_event_type EvProgress" "terminal_event_type EvCompleted"
  "terminal_event_type EvFailed" "terminal_event_type EvCancelled"
  by (simp_all add: terminal_event_type_def)

record task_event =
  ev_id :: uuid
  ev_taskId :: uuid
  seq :: int
  eventType :: task_event_type
  ev_payload :: json
  ev_createdAt :: time

datatype insert_event_input =
    ProgressEventInput uuid int
  | CompletedEventInput uuid json
  | FailedEventInput uuid task_error
  | CancelledEventInput uuid

text \<open>The rest pattern \<open>const { taskId, eventType, ...payloadFields } = input\<close>.\<close>

fun input_taskId :: "insert_event_input \<Rightarrow> uuid" where
  "input_taskId (ProgressEventInput i _) = i"
| "input_taskId (CompletedEventInput i _) = i"
| "input_taskId (FailedEventInput i _) = i"
| "input_taskId (CancelledEventInput i) = i"

fun input_eventType :: "insert_event_input \<Rightarrow> task_event_type" where
  "input_eventType (ProgressEventInput _ _) = EvProgress"
| "input_eventType (CompletedEventInput _ _) = EvCompleted"
| "input_eventType (FailedEventInput _ _) = EvFailed"
| "input_eventType (CancelledEventInput _) = EvCancelled"

definition task_error_json :: "task_error \<Rightarrow> json" where
  "task_error_json e =
     JObj ([(''code'', JStr (err_code e)), (''message'', JStr (err_message e))] @
           (case err_details e of None \<Rightarrow> [] | Some d \<Rightarrow> [(''details'', d)]))"

fun payloadFields :: "insert_event_input \<Rightarrow> json" where
  "payloadFields (ProgressEventInput _ n) = JObj [(''progress'', JNum n 0)]"
| "payloadFields (CompletedEventInput _ d) = JObj [(''data'', d)]"
| "payloadFields (FailedEventInput _ e) = JObj [(''error'', task_error_json e)]"
| "payloadFields (CancelledEventInput _) = JObj []"

section \<open>Constraints and statements\<close>

definition task_events_task_id_seq_unique_idx :: "task_event list \<Rightarrow> bool" where
  "task_events_task_id_seq_unique_idx evs \<longleftrightarrow> distinct (map (\<lambda>e. (ev_taskId e, seq e)) evs)"

definition events_wf :: "task_event list \<Rightarrow> bool" where
  "events_wf evs \<longleftrightarrow> distinct (map ev_id evs) \<and> task_events_task_id_seq_unique_idx evs"

definition events_insert_row :: "task_event \<Rightarrow> task_event list \<Rightarrow> exn + task_event list" where
  "events_insert_row e evs =
     (if ev_id e \<in> set (map ev_id evs)
      then Inl (SqlError (PrimaryKeyViolation ''task_events_pkey''))
      else if \<not> task_events_task_id_seq_unique_idx (evs @ [e])
      then Inl (SqlError (UniqueViolation ''task_events_task_id_seq_unique_idx''))
      else Inr (evs @ [e]))"

text \<open>\<open>COALESCE(MAX(seq), 0)\<close> over the rows of one task.\<close>

definition max_seq :: "uuid \<Rightarrow> task_event list \<Rightarrow> int" where
  "max_seq i evs =
     (case map seq (filter (\<lambda>e. ev_taskId e = i) evs) of
        [] \<Rightarrow> 0
      | s # ss \<Rightarrow> fold max ss s)"

text \<open>
  \<open>insertEventInTx\<close>: the advisory lock makes reading the maximum and inserting the row one
  step. \<open>eid\<close> is the identifier PostgreSQL generates, \<open>dbnow\<close> its clock.
\<close>

definition insertEventInTx ::
  "uuid \<Rightarrow> time \<Rightarrow> insert_event_input \<Rightarrow> task_event list \<Rightarrow> exn + (task_event \<times> task_event list)" where
  "insertEventInTx eid dbnow input evs =
     (let nextSeq = max_seq (input_taskId input) evs + 1;
          row = \<lparr> ev_id = eid, ev_taskId = input_taskId input, seq = nextSeq,
                  eventType = input_eventType input, ev_payload = payloadFields input,
                  ev_createdAt = dbnow \<rparr>
      in case events_insert_row row evs of
           Inl x \<Rightarrow> Inl x
         | Inr evs' \<Rightarrow> Inr (row, evs'))"

text \<open>\<open>findEventsSince\<close>: the rows of the task with a larger \<open>seq\<close>, ordered by it.\<close>

definition findEventsSince :: "uuid \<Rightarrow> int \<Rightarrow> task_event list \<Rightarrow> task_event list" where
  "findEventsSince i afterSeq evs =
     sort_key seq (filter (\<lambda>e. ev_taskId e = i \<and> seq e > afterSeq) evs)"

text \<open>The log of one task: its rows in the order of \<open>seq\<close>.\<close>

definition task_log :: "task_event list \<Rightarrow> uuid \<Rightarrow> task_event list" where
  "task_log evs i = sort_key seq (filter (\<lambda>e. ev_taskId e = i) evs)"

section \<open>The interface\<close>

locale seq_log =
  fixes log :: "'s \<Rightarrow> uuid \<Rightarrow> task_event list"
    and append :: "uuid \<Rightarrow> time \<Rightarrow> insert_event_input \<Rightarrow> 's \<Rightarrow> exn + (task_event \<times> 's)"
    and since :: "uuid \<Rightarrow> int \<Rightarrow> 's \<Rightarrow> task_event list"
    and invar :: "'s \<Rightarrow> bool"
  assumes log_ascending: "invar s \<Longrightarrow> sorted_wrt (<) (map seq (log s i))"
    and append_own: "invar s \<Longrightarrow> append eid t inp s = Inr (e, s') \<Longrightarrow>
          log s' (input_taskId inp) = log s (input_taskId inp) @ [e]"
    and append_other: "invar s \<Longrightarrow> append eid t inp s = Inr (e, s') \<Longrightarrow> i \<noteq> input_taskId inp \<Longrightarrow>
          log s' i = log s i"
    and append_invar: "invar s \<Longrightarrow> append eid t inp s = Inr (e, s') \<Longrightarrow> invar s'"
    and since_log: "invar s \<Longrightarrow> since i n s = filter (\<lambda>e. seq e > n) (log s i)"
begin

text \<open>Appending is visible to every reader that has not yet seen the new number.\<close>

lemma since_append:
  assumes "invar s" and "append eid t inp s = Inr (e, s')" and "n < seq e"
  shows "since (input_taskId inp) n s' = since (input_taskId inp) n s @ [e]"
  using assms by (simp add: since_log append_invar append_own)

lemma since_ascending:
  assumes "invar s"
  shows "sorted_wrt (<) (map seq (since i n s))"
  using log_ascending [OF assms, of i]
  by (simp add: since_log [OF assms] sorted_wrt_map sorted_wrt_filter)

text \<open>
  Resuming after \<open>m\<close> continues exactly where a reader who saw everything up to \<open>m\<close> stopped.
\<close>

lemma since_resume:
  assumes "invar s" and "n \<le> m"
  shows "since i n s = filter (\<lambda>e. seq e \<le> m) (since i n s) @ since i m s"
  unfolding since_log [OF assms(1)] filter_filter
  using filter_above_split [OF log_ascending [OF assms(1)] assms(2), of i] by (simp add: conj_commute)

end

section \<open>The repository provides it\<close>

lemma max_seq_Max:
  "max_seq i evs =
     (let xs = map seq (filter (\<lambda>e. ev_taskId e = i) evs) in if xs = [] then 0 else Max (set xs))"
  by (simp only: max_seq_def Let_def case_fold_max)

lemma max_seq_upper:
  assumes "e \<in> set evs" and "ev_taskId e = i"
  shows "seq e \<le> max_seq i evs"
  using assms by (auto simp: max_seq_Max Let_def filter_empty_conv)

lemma insertEventInTx_Inr:
  "insertEventInTx eid t inp evs = Inr (e, evs') \<longleftrightarrow>
     e = \<lparr> ev_id = eid, ev_taskId = input_taskId inp, seq = max_seq (input_taskId inp) evs + 1,
           eventType = input_eventType inp, ev_payload = payloadFields inp, ev_createdAt = t \<rparr>
     \<and> evs' = evs @ [e] \<and> eid \<notin> ev_id ` set evs \<and> task_events_task_id_seq_unique_idx (evs @ [e])"
  by (auto simp: insertEventInTx_def events_insert_row_def Let_def split: if_splits)

lemma max_seq_fresh: "(i, max_seq i evs + 1) \<notin> (\<lambda>e. (ev_taskId e, seq e)) ` set evs"
  using max_seq_upper [of _ evs i] by fastforce

text \<open>The sequence number never collides: only a repeated row identifier can stop an insert.\<close>

lemma insertEventInTx_total:
  assumes "task_events_task_id_seq_unique_idx evs" and "eid \<notin> ev_id ` set evs"
  shows "\<exists>e. insertEventInTx eid t inp evs = Inr (e, evs @ [e])"
  using assms max_seq_fresh [of "input_taskId inp" evs]
  by (simp add: insertEventInTx_Inr task_events_task_id_seq_unique_idx_def)

lemma task_log_append:
  assumes "insertEventInTx eid t inp evs = Inr (e, evs')"
  shows "task_log evs' i = (if i = input_taskId inp then task_log evs i @ [e] else task_log evs i)"
proof -
  from assms have e: "evs' = evs @ [e]" "ev_taskId e = input_taskId inp"
    "seq e = max_seq (input_taskId inp) evs + 1"
    by (auto simp: insertEventInTx_Inr)
  have "sort_key seq (filter (\<lambda>e. ev_taskId e = input_taskId inp) evs @ [e]) =
        sort_key seq (filter (\<lambda>e. ev_taskId e = input_taskId inp) evs) @ [e]"
    using max_seq_upper [of _ evs "input_taskId inp"]
    by (intro sort_key_snoc_max) (force simp: e(3))
  then show ?thesis
    by (simp add: task_log_def e(1,2))
qed

lemma task_log_ascending:
  assumes "events_wf evs"
  shows "sorted_wrt (<) (map seq (task_log evs i))"
proof -
  have "distinct (map seq (filter (\<lambda>e. ev_taskId e = i) evs))"
    using assms
    by (auto simp: events_wf_def task_events_task_id_seq_unique_idx_def distinct_map inj_on_def)
  then have "distinct (map seq (task_log evs i))"
    by (simp add: task_log_def distinct_map)
  then show ?thesis
    by (simp add: strict_sorted_iff task_log_def)
qed

lemma findEventsSince_log: "findEventsSince i n evs = filter (\<lambda>e. seq e > n) (task_log evs i)"
  by (simp add: findEventsSince_def task_log_def filter_sort filter_filter conj_commute)

lemma insertEventInTx_wf [inv_intros]:
  "events_wf evs \<Longrightarrow> insertEventInTx eid t inp evs = Inr (e, evs') \<Longrightarrow> events_wf evs'"
  by (auto simp: insertEventInTx_Inr events_wf_def)

interpretation evlog: seq_log task_log insertEventInTx findEventsSince events_wf
proof unfold_locales
  show "sorted_wrt (<) (map seq (task_log s i))" if "events_wf s" for s i
    using that by (rule task_log_ascending)
  show "task_log s' (input_taskId inp) = task_log s (input_taskId inp) @ [e]"
    if "insertEventInTx eid t inp s = Inr (e, s')" for s eid t inp e s'
    using task_log_append [OF that] by simp
  show "task_log s' i = task_log s i"
    if "insertEventInTx eid t inp s = Inr (e, s')" and "i \<noteq> input_taskId inp" for s eid t inp e s' i
    using task_log_append [OF that(1)] that(2) by simp
  show "events_wf s'" if "events_wf s" and "insertEventInTx eid t inp s = Inr (e, s')"
    for s eid t inp e s'
    using that by (rule insertEventInTx_wf)
  show "findEventsSince i n s = filter (\<lambda>e. n < seq e) (task_log s i)" for s i n
    by (rule findEventsSince_log)
qed

section \<open>Dense numbering\<close>

text \<open>
  Every task's events are numbered 1, 2, 3, \<dots> without gaps; the invariant is kept by every
  append and by deleting all events of a set of tasks (data retention).
\<close>

definition dense_seq :: "task_event list \<Rightarrow> bool" where
  "dense_seq evs \<longleftrightarrow> (\<forall>i. map seq (task_log evs i) = [1..int (length (task_log evs i))])"

lemma max_seq_eq_last:
  assumes "map seq (task_log evs i) = [1..int (length (task_log evs i))]"
  shows "max_seq i evs = int (length (task_log evs i))"
proof -
  let ?xs = "map seq (filter (\<lambda>e. ev_taskId e = i) evs)"
  have "set ?xs = set (map seq (task_log evs i))"
    by (simp add: task_log_def)
  also have "\<dots> = {1..int (length (task_log evs i))}"
    by (simp add: assms)
  finally have "set ?xs = {1..int (length ?xs)}" by (simp add: task_log_def)
  moreover have "Max {1..int n} = int n" if "n \<noteq> 0" for n
    using that by (intro Max_eqI) auto
  ultimately show ?thesis
    by (cases "?xs = []") (simp_all add: max_seq_Max task_log_def Let_def)
qed

lemma dense_seq_append [inv_intros]:
  assumes "dense_seq evs" and "insertEventInTx eid t inp evs = Inr (e, evs')"
  shows "dense_seq evs'"
proof -
  let ?i = "input_taskId inp"
  let ?n = "int (length (task_log evs ?i))"
  have "seq e = ?n + 1"
    using assms max_seq_eq_last [of evs ?i] by (simp add: dense_seq_def insertEventInTx_Inr)
  moreover have "[1..?n] @ [?n + 1] = [1..1 + ?n]"
    by (simp add: upto_rec2 [of 1 "1 + ?n"])
  ultimately show ?thesis
    using assms(1) by (auto simp: dense_seq_def task_log_append [OF assms(2)] add.commute)
qed

lemma task_log_delete_where:
  "task_log (delete_where (\<lambda>e. ev_taskId e \<in> I) evs) i = (if i \<in> I then [] else task_log evs i)"
proof -
  have "filter (\<lambda>e. ev_taskId e \<notin> I \<and> ev_taskId e = i) evs =
        (if i \<in> I then [] else filter (\<lambda>e. ev_taskId e = i) evs)"
    by (induction evs) auto
  then show ?thesis by (simp add: task_log_def delete_where_def)
qed

lemma dense_seq_delete_where [inv_intros]:
  "dense_seq evs \<Longrightarrow> dense_seq (delete_where (\<lambda>e. ev_taskId e \<in> I) evs)"
  by (simp add: dense_seq_def task_log_delete_where)

lemma events_wf_delete_where [inv_intros]: "events_wf evs \<Longrightarrow> events_wf (delete_where p evs)"
  by (simp add: events_wf_def task_events_task_id_seq_unique_idx_def distinct_map_delete_where)

end
