(* ===== verification/TasksRepository.thy ===== *)
theory TasksRepository
  imports EventLog
begin

text \<open>
  \<^verbatim>\<open>src/modules/tasks/tasks.repository.ts\<close>: the operations on the \<open>tasks\<close> table, each one
  transaction on the database record \<open>db\<close>. A result is \<open>Inl\<close> of the exception the awaited call
  rejects with, or \<open>Inr\<close> of its value; a rejected statement leaves the database unchanged.

  The conditional update is what every worker and handler relies on to own a transition. Its
  contract is the locale \<open>status_cas\<close>; from it follow that of any number of competitors for the
  same transition at most one wins, and that a terminal status is never left.
\<close>

record db =
  tasks :: "task list"
  task_events :: "task_event list"

definition db_inv :: "'a db_scheme \<Rightarrow> bool" where
  "db_inv s \<longleftrightarrow> tasks_wf (tasks s) \<and> events_wf (task_events s) \<and> dense_seq (task_events s)"

section \<open>Values of an insert and of a partial update\<close>

text \<open>\<open>TaskInsert\<close>: a column the caller leaves out is \<open>None\<close> and takes its default.\<close>

record task_insert =
  ins_id :: "uuid option"
  ins_idempotencyKey :: "string option"
  ins_status :: "task_status option"
  ins_type :: string
  ins_payload :: "json option"
  ins_executorUrl :: string
  ins_callbackToken :: "string option"
  ins_webhookUrl :: "string option"
  ins_cancelUrl :: "string option"
  ins_result :: "json option"
  ins_error :: "task_error option"
  ins_progress :: "int option"
  ins_timeoutSeconds :: "int option"
  ins_processingStartedAt :: "time option"
  ins_expiresAt :: "time option"
  ins_completedAt :: "time option"

definition or_default :: "'a option \<Rightarrow> 'a \<Rightarrow> 'a" where
  "or_default x d = (case x of None \<Rightarrow> d | Some v \<Rightarrow> v)"

lemma or_default_simps [simp]: "or_default None d = d" "or_default (Some v) d = v"
  by (simp_all add: or_default_def)

definition row_of_insert :: "uuid \<Rightarrow> time \<Rightarrow> task_insert \<Rightarrow> task" where
  "row_of_insert gen dbnow dto =
     \<lparr> task_id = or_default (ins_id dto) gen,
       idempotencyKey = ins_idempotencyKey dto,
       status = or_default (ins_status dto) PENDING,
       task_type = ins_type dto,
       payload = or_default (ins_payload dto) (JObj []),
       executorUrl = ins_executorUrl dto,
       callbackToken = ins_callbackToken dto,
       webhookUrl = ins_webhookUrl dto,
       cancelUrl = ins_cancelUrl dto,
       result = ins_result dto,
       error = ins_error dto,
       progress = or_default (ins_progress dto) 0,
       timeoutSeconds = or_default (ins_timeoutSeconds dto) 300,
       processingStartedAt = ins_processingStartedAt dto,
       expiresAt = ins_expiresAt dto,
       completedAt = ins_completedAt dto,
       createdAt = dbnow,
       updatedAt = dbnow \<rparr>"

text \<open>
  \<open>Partial<TaskInsert>\<close> as the callers of \<open>updateStatus\<close> use it: \<open>None\<close> leaves a column alone,
  \<open>Some None\<close> sets it to null.
\<close>

record task_patch =
  set_result :: "json option option"
  set_error :: "task_error option option"
  set_processingStartedAt :: "time option option"
  set_expiresAt :: "time option option"
  set_completedAt :: "time option option"

definition no_patch :: task_patch where
  "no_patch = \<lparr> set_result = None, set_error = None, set_processingStartedAt = None,
                set_expiresAt = None, set_completedAt = None \<rparr>"

definition apply_patch :: "task_patch \<Rightarrow> task \<Rightarrow> task" where
  "apply_patch x t =
     t\<lparr> result := or_default (set_result x) (result t),
        error := or_default (set_error x) (error t),
        processingStartedAt := or_default (set_processingStartedAt x) (processingStartedAt t),
        expiresAt := or_default (set_expiresAt x) (expiresAt t),
        completedAt := or_default (set_completedAt x) (completedAt t) \<rparr>"

text \<open>\<open>.set({ status: to, ...extra })\<close>; the ORM adds \<open>updatedAt\<close> (\<open>$onUpdate\<close>).\<close>

definition set_status :: "time \<Rightarrow> task_status \<Rightarrow> task_patch \<Rightarrow> task \<Rightarrow> task" where
  "set_status upd to extra t = (apply_patch extra t)\<lparr>status := to, updatedAt := upd\<rparr>"

lemma keeps_keys_set_status [simp]: "keeps_keys (set_status upd to extra)"
  by (simp add: keeps_keys_def set_status_def apply_patch_def)

lemma set_status_status [simp]: "status (set_status upd to extra t) = to"
  by (simp add: set_status_def)

lemma set_status_frame [simp]:
  "task_id (set_status upd to extra t) = task_id t"
  "idempotencyKey (set_status upd to extra t) = idempotencyKey t"
  "cancelUrl (set_status upd to extra t) = cancelUrl t"
  "webhookUrl (set_status upd to extra t) = webhookUrl t"
  "callbackToken (set_status upd to extra t) = callbackToken t"
  "executorUrl (set_status upd to extra t) = executorUrl t"
  "payload (set_status upd to extra t) = payload t"
  "progress (set_status upd to extra t) = progress t"
  by (simp_all add: set_status_def apply_patch_def)

section \<open>Operations\<close>

definition tasks_insert ::
  "uuid \<Rightarrow> time \<Rightarrow> task_insert \<Rightarrow> 'a db_scheme \<Rightarrow> (exn + task) \<times> 'a db_scheme" where
  "tasks_insert gen dbnow dto s =
     (let t = row_of_insert gen dbnow dto
      in case tasks_insert_row t (tasks s) of
           Inl e \<Rightarrow> (Inl e, s)
         | Inr rows \<Rightarrow> (Inr t, s\<lparr>tasks := rows\<rparr>))"

definition findById :: "uuid \<Rightarrow> 'a db_scheme \<Rightarrow> task option" where
  "findById i s = find_row task_id i (tasks s)"

definition deleteById :: "uuid \<Rightarrow> 'a db_scheme \<Rightarrow> (exn + unit) \<times> 'a db_scheme" where
  "deleteById i s = (Inr (), s\<lparr>tasks := delete_where (\<lambda>t. task_id t = i) (tasks s)\<rparr>)"

definition updateProgress :: "time \<Rightarrow> uuid \<Rightarrow> int \<Rightarrow> 'a db_scheme \<Rightarrow> (exn + unit) \<times> 'a db_scheme" where
  "updateProgress upd i p s =
     (case tasks_update_rows (\<lambda>t. task_id t = i) (\<lambda>t. t\<lparr>progress := p, updatedAt := upd\<rparr>) (tasks s) of
        Inl e \<Rightarrow> (Inl e, s)
      | Inr (rows, _) \<Rightarrow> (Inr (), s\<lparr>tasks := rows\<rparr>))"

definition updateStatus ::
  "time \<Rightarrow> uuid \<Rightarrow> task_status list \<Rightarrow> task_status \<Rightarrow> task_patch \<Rightarrow> 'a db_scheme
     \<Rightarrow> (exn + task option) \<times> 'a db_scheme" where
  "updateStatus upd i frm to extra s =
     (case tasks_update_rows (\<lambda>t. task_id t = i \<and> status t \<in> set frm)
             (set_status upd to extra) (tasks s) of
        Inl e \<Rightarrow> (Inl e, s)
      | Inr (rows, ret) \<Rightarrow>
          (Inr (case ret of [] \<Rightarrow> None | t # _ \<Rightarrow> Some t), s\<lparr>tasks := rows\<rparr>))"

text \<open>
  \<open>cancelTask\<close>: the status update and the event in one transaction, so a rejected event insert
  also undoes the update.
\<close>

definition cancelTask ::
  "time \<Rightarrow> time \<Rightarrow> uuid \<Rightarrow> time \<Rightarrow> uuid \<Rightarrow> 'a db_scheme
     \<Rightarrow> (exn + (task \<times> task_event) option) \<times> 'a db_scheme" where
  "cancelTask now upd eid dbnow i s =
     (case tasks_update_rows (\<lambda>t. task_id t = i \<and> active (status t))
             (set_status upd CANCELLED (no_patch\<lparr>set_completedAt := Some (Some now)\<rparr>)) (tasks s) of
        Inl e \<Rightarrow> (Inl e, s)
      | Inr (rows, ret) \<Rightarrow>
          (case ret of
             [] \<Rightarrow> (Inr None, s)
           | t # _ \<Rightarrow>
               (case insertEventInTx eid dbnow (CancelledEventInput i) (task_events s) of
                  Inl e \<Rightarrow> (Inl e, s)
                | Inr (ev, evs) \<Rightarrow> (Inr (Some (t, ev)), s\<lparr>tasks := rows, task_events := evs\<rparr>))))"

lemmas repo_defs [handler_defs] =
  tasks_insert_def findById_def deleteById_def updateProgress_def updateStatus_def cancelTask_def

section \<open>What the operations compute\<close>

lemma db_invD:
  assumes "db_inv s"
  shows "tasks_wf (tasks s)" "events_wf (task_events s)" "dense_seq (task_events s)"
    "distinct (map task_id (tasks s))"
  using assms by (simp_all add: db_inv_def tasks_wf_distinct)

lemma findById_valid: "db_inv s \<Longrightarrow> findById i s = Some t \<Longrightarrow> tasks_valid_state_data t \<and> task_id t = i"
  by (auto simp: findById_def dest!: find_row_SomeD db_invD(1) intro: tasks_wf_valid)

text \<open>An update by primary key, in terms of the one row it can meet.\<close>

lemma tasks_update_by_id:
  assumes "distinct (map task_id rows)"
  shows "tasks_update_rows (\<lambda>t. task_id t = i \<and> q t) f rows =
    (case find_row task_id i rows of
       None \<Rightarrow> Inr (rows, [])
     | Some t \<Rightarrow>
         if \<not> q t then Inr (rows, [])
         else if tasks_valid_state_data (f t)
         then Inr (update_where (\<lambda>t. task_id t = i \<and> q t) f rows, [f t])
         else Inl (SqlError (CheckViolation ''tasks_valid_state_data'')))"
proof -
  have same: "update_where (\<lambda>t. task_id t = i \<and> q t) f rows = rows"
    if "filter (\<lambda>t. task_id t = i \<and> q t) rows = []"
    using that by (auto simp: filter_empty_conv intro: update_where_id)
  show ?thesis
    using same by (auto simp: tasks_update_rows_def filter_by_id [OF assms] split: option.split)
qed

lemma updateStatus_eq:
  assumes "db_inv s"
  shows "updateStatus upd i frm to extra s =
    (case findById i s of
       None \<Rightarrow> (Inr None, s)
     | Some t \<Rightarrow>
         if status t \<notin> set frm then (Inr None, s)
         else if tasks_valid_state_data (set_status upd to extra t)
         then (Inr (Some (set_status upd to extra t)),
               s\<lparr>tasks := update_where (\<lambda>t. task_id t = i \<and> status t \<in> set frm)
                           (set_status upd to extra) (tasks s)\<rparr>)
         else (Inl (SqlError (CheckViolation ''tasks_valid_state_data'')), s))"
  using db_invD(4) [OF assms]
  by (simp add: updateStatus_def findById_def tasks_update_by_id split: option.split)

lemma cancelTask_eq:
  assumes "db_inv s"
  shows "cancelTask now upd eid dbnow i s =
    (case findById i s of
       None \<Rightarrow> (Inr None, s)
     | Some t \<Rightarrow>
         if \<not> active (status t) then (Inr None, s)
         else case insertEventInTx eid dbnow (CancelledEventInput i) (task_events s) of
                Inl e \<Rightarrow> (Inl e, s)
              | Inr (ev, evs) \<Rightarrow>
                  (let f = set_status upd CANCELLED (no_patch\<lparr>set_completedAt := Some (Some now)\<rparr>)
                   in (Inr (Some (f t, ev)),
                       s\<lparr>tasks := update_where (\<lambda>t. task_id t = i \<and> active (status t)) f (tasks s),
                         task_events := evs\<rparr>)))"
proof -
  have "tasks_valid_state_data
      (set_status upd CANCELLED (no_patch\<lparr>set_completedAt := Some (Some now)\<rparr>) t)" for t
    by (simp add: tasks_valid_state_data_def set_status_def apply_patch_def no_patch_def)
  then show ?thesis
    using db_invD(4) [OF assms]
    by (auto simp: cancelTask_def findById_def tasks_update_by_id Let_def
        split: option.split sum.split)
qed

lemma findById_update_where:
  assumes "keeps_keys f"
  shows "findById i (s\<lparr>tasks := update_where p f (tasks s)\<rparr>) =
           map_option (\<lambda>t. if p t then f t else t) (findById i s)"
  using assms by (simp add: findById_def find_row_update_where keeps_keys_def)

text \<open>An update that meets the row of task \<open>i\<close>, as every later lookup sees it.\<close>

lemma findById_hit:
  assumes "db_inv s" and "findById i s = Some t" and "q t" and "keeps_keys f"
  shows "findById j (s\<lparr>tasks := update_where (\<lambda>t. task_id t = i \<and> q t) f (tasks s)\<rparr>) =
           (if j = i then Some (f t) else findById j s)"
  using assms findById_valid [OF assms(1), of j]
  by (cases "findById j s") (auto simp: findById_update_where)

lemma updateStatus_miss:
  assumes "db_inv s" and "\<And>t. findById i s = Some t \<Longrightarrow> status t \<notin> set frm"
  shows "updateStatus upd i frm to x s = (Inr None, s)"
  using assms by (auto simp: updateStatus_eq split: option.split)

lemma findById_events [simp]: "findById i (s\<lparr>task_events := evs\<rparr>) = findById i s"
  by (simp add: findById_def)

lemma findById_insert:
  assumes "db_inv s" and "tasks_insert gen dbnow dto s = (Inr t, s')"
  shows "findById i s' = (if i = task_id t then Some t else findById i s)"
  using assms
  by (auto simp: tasks_insert_def findById_def tasks_insert_row_def find_row_snoc Let_def
      split: if_splits)

section \<open>Every operation keeps the database invariant\<close>

lemma db_inv_tasks:
  "db_inv s \<Longrightarrow> tasks_wf rows \<Longrightarrow> db_inv (s\<lparr>tasks := rows\<rparr>)"
  by (simp add: db_inv_def)

lemma tasks_insert_inv [inv_intros]: "db_inv s \<Longrightarrow> db_inv (snd (tasks_insert gen dbnow dto s))"
  by (auto simp: tasks_insert_def Let_def db_inv_tasks db_invD tasks_insert_row_wf split: sum.split)

lemma deleteById_inv [inv_intros]: "db_inv s \<Longrightarrow> db_inv (snd (deleteById i s))"
  by (simp add: deleteById_def db_inv_tasks db_invD tasks_wf_delete_where)

lemma updateProgress_inv [inv_intros]: "db_inv s \<Longrightarrow> db_inv (snd (updateProgress upd i p s))"
  by (auto simp: updateProgress_def keeps_keys_def split: sum.split
      intro!: db_inv_tasks elim!: tasks_update_rows_wf dest: db_invD)

lemma updateStatus_inv [inv_intros]: "db_inv s \<Longrightarrow> db_inv (snd (updateStatus upd i frm to extra s))"
  by (auto simp: updateStatus_def split: sum.split
      intro!: db_inv_tasks elim!: tasks_update_rows_wf dest: db_invD)

lemma updateStatus_hit:
  assumes "db_inv s" and "findById i s = Some t" and "status t \<in> set frm"
    and "tasks_valid_state_data (set_status upd to x t)"
  obtains s' where "updateStatus upd i frm to x s = (Inr (Some (set_status upd to x t)), s')"
    and "s' = s\<lparr>tasks := tasks s'\<rparr>"
    and "\<And>j. findById j s' = (if j = i then Some (set_status upd to x t) else findById j s)"
    and "db_inv s'"
proof -
  let ?s = "s\<lparr>tasks := update_where (\<lambda>t. task_id t = i \<and> status t \<in> set frm) (set_status upd to x) (tasks s)\<rparr>"
  have u: "updateStatus upd i frm to x s = (Inr (Some (set_status upd to x t)), ?s)"
    using assms by (simp add: updateStatus_eq)
  moreover have "db_inv ?s" using updateStatus_inv [OF assms(1), of upd i frm to x] by (simp add: u)
  moreover have "findById j ?s = (if j = i then Some (set_status upd to x t) else findById j s)" for j
    using findById_hit [OF assms(1,2), of "\<lambda>t. status t \<in> set frm"] assms(3) by simp
  ultimately show ?thesis by (intro that [of ?s]) simp_all
qed

lemma cancelTask_inv [inv_intros]:
  assumes "db_inv s"
  shows "db_inv (snd (cancelTask now upd eid dbnow i s))"
  using assms
  by (auto simp: cancelTask_def db_inv_def split: sum.split list.split
      elim: tasks_update_rows_wf insertEventInTx_wf dense_seq_append)

section \<open>The conditional update as an interface\<close>

text \<open>
  A competition: one after another, each request tries the transition from \<open>frm\<close> to its own
  target with its own data. The winners are the requests that got the row back.
\<close>

fun winners ::
  "(time \<Rightarrow> uuid \<Rightarrow> task_status list \<Rightarrow> task_status \<Rightarrow> task_patch \<Rightarrow> 's
      \<Rightarrow> (exn + task option) \<times> 's)
   \<Rightarrow> uuid \<Rightarrow> task_status list \<Rightarrow> (time \<times> task_status \<times> task_patch) list \<Rightarrow> 's \<Rightarrow> nat" where
  "winners cas i frm [] s = 0"
| "winners cas i frm ((upd, to, x) # rs) s =
     (case cas upd i frm to x s of
        (Inr (Some _), s') \<Rightarrow> Suc (winners cas i frm rs s')
      | (_, s') \<Rightarrow> winners cas i frm rs s')"

locale status_cas =
  fixes status_of :: "uuid \<Rightarrow> 's \<Rightarrow> task_status option"
    and cas :: "time \<Rightarrow> uuid \<Rightarrow> task_status list \<Rightarrow> task_status \<Rightarrow> task_patch \<Rightarrow> 's
                  \<Rightarrow> (exn + task option) \<times> 's"
    and invar :: "'s \<Rightarrow> bool"
  assumes cas_hit: "invar s \<Longrightarrow> cas upd i frm to x s = (Inr (Some t), s') \<Longrightarrow>
            (\<exists>st \<in> set frm. status_of i s = Some st) \<and> status_of i s' = Some to"
    and cas_frame: "invar s \<Longrightarrow> cas upd i frm to x s = (r, s') \<Longrightarrow> j \<noteq> i \<Longrightarrow>
            status_of j s' = status_of j s"
    and cas_noop: "invar s \<Longrightarrow> cas upd i frm to x s = (r, s') \<Longrightarrow> (\<And>t. r \<noteq> Inr (Some t)) \<Longrightarrow> s' = s"
    and cas_invar: "invar s \<Longrightarrow> invar (snd (cas upd i frm to x s))"
begin

text \<open>A status that no update starts from is never left.\<close>

lemma absorbing:
  assumes "invar s" and "status_of i s = Some st" and "st \<notin> set frm"
  shows "snd (cas upd i frm to x s) = s" and "fst (cas upd i frm to x s) \<noteq> Inr (Some t)"
proof -
  obtain r s' where c: "cas upd i frm to x s = (r, s')" by fastforce
  have miss: "r \<noteq> Inr (Some t)" for t
    using cas_hit [OF assms(1), of upd i frm to x t s'] c assms(2,3) by auto
  from miss show "fst (cas upd i frm to x s) \<noteq> Inr (Some t)" by (simp add: c)
  from cas_noop [OF assms(1) c] miss show "snd (cas upd i frm to x s) = s" by (simp add: c)
qed

lemma no_winner_after:
  assumes "invar s" and "status_of i s = Some st" and "st \<notin> set frm"
  shows "winners cas i frm rs s = 0"
proof (induction rs)
  case Nil
  then show ?case by simp
next
  case (Cons r rs)
  obtain upd to x where r: "r = (upd, to, x)" by (cases r) auto
  obtain res s' where c: "cas upd i frm to x s = (res, s')" by fastforce
  from absorbing [OF assms, of upd to x] have "s' = s" and "\<And>t. res \<noteq> Inr (Some t)"
    by (simp_all add: c)
  with Cons show ?case by (auto simp: r c split: sum.split option.split)
qed

lemma at_most_one_winner:
  assumes "invar s" and "\<And>upd to x. (upd, to, x) \<in> set rs \<Longrightarrow> to \<notin> set frm"
  shows "winners cas i frm rs s \<le> 1"
  using assms
proof (induction rs arbitrary: s)
  case Nil
  then show ?case by simp
next
  case (Cons r rs)
  obtain upd to x where r: "r = (upd, to, x)" by (cases r) auto
  obtain res s' where c: "cas upd i frm to x s = (res, s')" by fastforce
  have inv': "invar s'" using cas_invar [OF Cons.prems(1), of upd i frm to x] by (simp add: c)
  show ?case
  proof (cases "\<exists>t. res = Inr (Some t)")
    case True
    then have "status_of i s' = Some to" using cas_hit [OF Cons.prems(1)] c by auto
    moreover have "to \<notin> set frm" using Cons.prems(2) r by auto
    ultimately have "winners cas i frm rs s' = 0" by (intro no_winner_after [OF inv'])
    with True show ?thesis by (auto simp: r c)
  next
    case False
    have "winners cas i frm rs s' \<le> 1" by (rule Cons.IH [OF inv']) (use Cons.prems(2) in auto)
    with False show ?thesis by (auto simp: r c split: sum.split option.split)
  qed
qed

end

definition status_of :: "uuid \<Rightarrow> 'a db_scheme \<Rightarrow> task_status option" where
  "status_of i s = map_option status (findById i s)"

lemma status_of_update_where:
  "keeps_keys f \<Longrightarrow> status_of i (s\<lparr>tasks := update_where p f (tasks s)\<rparr>) =
     map_option (\<lambda>t. status (if p t then f t else t)) (findById i s)"
  by (simp add: status_of_def findById_update_where option.map_comp comp_def)

interpretation repo: status_cas status_of updateStatus db_inv
proof unfold_locales
  fix s s' :: "'a db_scheme" and upd i frm to x and t :: task and r j
  assume inv: "db_inv s"
  show "(\<exists>st\<in>set frm. status_of i s = Some st) \<and> status_of i s' = Some to"
    if "updateStatus upd i frm to x s = (Inr (Some t), s')"
    using that findById_valid [OF inv, of i]
    by (auto simp: updateStatus_eq [OF inv] findById_update_where status_of_def
        split: option.splits if_splits)
  show "status_of j s' = status_of j s"
    if "updateStatus upd i frm to x s = (r, s')" and "j \<noteq> i"
  proof -
    have "\<not> (task_id u = i \<and> status u \<in> set frm)" if "findById j s = Some u" for u
      using findById_valid [OF inv that] \<open>j \<noteq> i\<close> by simp
    with that(1) show ?thesis
      by (cases "findById j s")
        (auto simp: updateStatus_eq [OF inv] findById_update_where status_of_def
          split: option.splits if_splits)
  qed
  show "s' = s" if "updateStatus upd i frm to x s = (r, s')" and "\<And>t. r \<noteq> Inr (Some t)"
    using that by (auto simp: updateStatus_eq [OF inv] split: option.splits if_splits)
  show "db_inv (snd (updateStatus upd i frm to x s))"
    using inv by (rule updateStatus_inv)
qed

text \<open>
  Of any number of workers and handlers that compete, one after another, to move a task out of
  the same set of statuses to statuses outside it, at most one gets the row back; none does when the
  task is not in one of these statuses to begin with.
\<close>

theorem transition_has_one_winner:
  assumes "db_inv s" and "\<And>upd to x. (upd, to, x) \<in> set rs \<Longrightarrow> to \<notin> set frm"
  shows "winners updateStatus i frm rs s \<le> 1
    \<and> (\<forall>st. status_of i s = Some st \<and> st \<notin> set frm \<longrightarrow> winners updateStatus i frm rs s = 0)"
proof (intro conjI allI impI)
  show "winners updateStatus i frm rs s \<le> 1"
    by (rule repo.at_most_one_winner [OF assms(1)]) (rule assms(2))
  show "winners updateStatus i frm rs s = 0" if "status_of i s = Some x \<and> x \<notin> set frm" for x
    using that repo.no_winner_after [OF assms(1)] by blast
qed

theorem transition_has_one_winner_witness:
  "winners updateStatus ''t'' [PENDING, PROCESSING] [(1, FAILED, no_patch), (2, COMPLETED, no_patch)]
     \<lparr>tasks = [], task_events = []\<rparr> \<le> 1"
proof -
  have "db_inv \<lparr>tasks = [], task_events = []\<rparr>"
    by (simp add: db_inv_def events_wf_def task_events_task_id_seq_unique_idx_def dense_seq_def task_log_def)
  then show ?thesis
    using transition_has_one_winner [of "\<lparr>tasks = [], task_events = []\<rparr>"
        "[(1, FAILED, no_patch), (2, COMPLETED, no_patch)]" "[PENDING, PROCESSING]" "''t''"] by auto
qed

end
