(* ===== verification/Idempotency.thy ===== *)
theory Idempotency
  imports Prelude
begin

text \<open>
  \<^verbatim>\<open>libs/idempotency/idempotency.service.ts\<close>: the two-phase lock in Redis. The store maps a key to
  its value and expiry; Redis treats an expired key as absent. The Lua script is one atomic step.

  The contract the task service relies on is the locale \<open>slot_store\<close>: a slot is free, held by a
  creation in flight, or committed to a task identifier, with a lease that ends at its expiry.
  Within the locale: as long as the lease runs and nobody releases the slot, nobody else acquires
  it, and after a commit everyone gets the committed identifier.
\<close>

section \<open>Redis keys with expiry\<close>

record slot =
  slot_value :: string
  slot_expiry :: "time option"

type_synonym redis_keys = "string \<rightharpoonup> slot"

definition redis_live :: "time \<Rightarrow> redis_keys \<Rightarrow> string \<Rightarrow> slot option" where
  "redis_live now m k =
     (case m k of
        None \<Rightarrow> None
      | Some v \<Rightarrow>
          (case slot_expiry v of
             None \<Rightarrow> Some v
           | Some e \<Rightarrow> if now < e then Some v else None))"

text \<open>\<open>SET key value NX EX ttl\<close>, \<open>SET key value KEEPTTL\<close> and \<open>DEL key\<close>.\<close>

definition redis_set_nx_ex :: "time \<Rightarrow> string \<Rightarrow> string \<Rightarrow> int \<Rightarrow> redis_keys \<Rightarrow> bool \<times> redis_keys" where
  "redis_set_nx_ex now k v ttl m =
     (case redis_live now m k of
        None \<Rightarrow> (True, m(k \<mapsto> \<lparr>slot_value = v, slot_expiry = Some (now + ttl * 1000)\<rparr>))
      | Some _ \<Rightarrow> (False, m))"

definition redis_set_keepttl :: "time \<Rightarrow> string \<Rightarrow> string \<Rightarrow> redis_keys \<Rightarrow> redis_keys" where
  "redis_set_keepttl now k v m =
     m(k \<mapsto> \<lparr>slot_value = v,
             slot_expiry = (case redis_live now m k of None \<Rightarrow> None | Some w \<Rightarrow> slot_expiry w)\<rparr>)"

definition redis_del :: "string \<Rightarrow> redis_keys \<Rightarrow> redis_keys" where
  "redis_del k m = m(k := None)"

section \<open>The service\<close>

definition KEY_PREFIX :: string where
  "KEY_PREFIX = ''idempotency''"

definition PENDING_SENTINEL :: string where
  "PENDING_SENTINEL = ''__PENDING__''"

definition redisKey :: "string \<Rightarrow> string" where
  "redisKey k = KEY_PREFIX @ '':'' @ k"

datatype occupy_result = Acquired | Pending | Duplicate uuid

text \<open>The script returns \<open>{1, false}\<close> or \<open>{0, GET key}\<close>.\<close>

definition OCCUPY_SCRIPT ::
  "time \<Rightarrow> string \<Rightarrow> string \<Rightarrow> int \<Rightarrow> redis_keys \<Rightarrow> (nat \<times> string option) \<times> redis_keys" where
  "OCCUPY_SCRIPT now key arg1 arg2 m =
     (case redis_set_nx_ex now key arg1 arg2 m of
        (True, m') \<Rightarrow> ((1, None), m')
      | (False, m') \<Rightarrow> ((0, map_option slot_value (redis_live now m' key)), m'))"

definition occupySlot :: "time \<Rightarrow> string \<Rightarrow> int \<Rightarrow> redis_keys \<Rightarrow> occupy_result \<times> redis_keys" where
  "occupySlot now k ttl m =
     (case OCCUPY_SCRIPT now (redisKey k) PENDING_SENTINEL ttl m of
        ((acquired, existing), m') \<Rightarrow>
          (if acquired = 1 then (Acquired, m')
           else case existing of
                  None \<Rightarrow> (Pending, m')
                | Some v \<Rightarrow>
                    if v = [] \<or> v = PENDING_SENTINEL then (Pending, m') else (Duplicate v, m')))"

definition commitResult :: "time \<Rightarrow> string \<Rightarrow> uuid \<Rightarrow> redis_keys \<Rightarrow> redis_keys" where
  "commitResult now k i m = redis_set_keepttl now (redisKey k) i m"

definition releaseSlot :: "string \<Rightarrow> redis_keys \<Rightarrow> redis_keys" where
  "releaseSlot k m = redis_del (redisKey k) m"

section \<open>The contract\<close>

datatype slot_state = Free | Held | Committed uuid

text \<open>A lease is a state with the time it ends, if it ever does.\<close>

definition state_at :: "time \<Rightarrow> slot_state \<times> time option \<Rightarrow> slot_state" where
  "state_at now l = (case snd l of None \<Rightarrow> fst l | Some e \<Rightarrow> if now < e then fst l else Free)"

definition storable_id :: "uuid \<Rightarrow> bool" where
  "storable_id i \<longleftrightarrow> i \<noteq> [] \<and> i \<noteq> PENDING_SENTINEL"

text \<open>Requests against a slot store at given times, and the answers to the occupy requests.\<close>

datatype slot_req = ReqOccupy string int | ReqCommit string uuid | ReqRelease string

fun slot_run ::
  "(time \<Rightarrow> string \<Rightarrow> int \<Rightarrow> 's \<Rightarrow> occupy_result \<times> 's) \<Rightarrow> (time \<Rightarrow> string \<Rightarrow> uuid \<Rightarrow> 's \<Rightarrow> 's)
   \<Rightarrow> (string \<Rightarrow> 's \<Rightarrow> 's) \<Rightarrow> (time \<times> slot_req) list \<Rightarrow> 's
   \<Rightarrow> (string \<times> occupy_result) list \<times> 's" where
  "slot_run occ com rel [] s = ([], s)"
| "slot_run occ com rel ((t, ReqOccupy k ttl) # rs) s =
     (case occ t k ttl s of (r, s') \<Rightarrow>
        (case slot_run occ com rel rs s' of (out, s'') \<Rightarrow> ((k, r) # out, s'')))"
| "slot_run occ com rel ((t, ReqCommit k i) # rs) s = slot_run occ com rel rs (com t k i s)"
| "slot_run occ com rel ((t, ReqRelease k) # rs) s = slot_run occ com rel rs (rel k s)"

definition within_lease :: "string \<Rightarrow> time \<Rightarrow> time \<times> slot_req \<Rightarrow> bool" where
  "within_lease k e r \<longleftrightarrow> fst r < e \<and> snd r \<noteq> ReqRelease k \<and>
     (case snd r of ReqCommit j i \<Rightarrow> j = k \<longrightarrow> storable_id i | _ \<Rightarrow> True)"

locale slot_store =
  fixes lease :: "string \<Rightarrow> 's \<Rightarrow> slot_state \<times> time option"
    and occ :: "time \<Rightarrow> string \<Rightarrow> int \<Rightarrow> 's \<Rightarrow> occupy_result \<times> 's"
    and com :: "time \<Rightarrow> string \<Rightarrow> uuid \<Rightarrow> 's \<Rightarrow> 's"
    and rel :: "string \<Rightarrow> 's \<Rightarrow> 's"
  assumes occ_free: "state_at t (lease k s) = Free \<Longrightarrow>
            fst (occ t k ttl s) = Acquired \<and>
            lease k (snd (occ t k ttl s)) = (Held, Some (t + ttl * 1000))"
    and occ_held: "state_at t (lease k s) = Held \<Longrightarrow> occ t k ttl s = (Pending, s)"
    and occ_committed: "state_at t (lease k s) = Committed i \<Longrightarrow> occ t k ttl s = (Duplicate i, s)"
    and com_lease: "storable_id i \<Longrightarrow> lease k (com t k i s) =
            (Committed i, if state_at t (lease k s) = Free then None else snd (lease k s))"
    and rel_lease: "lease k (rel k s) = (Free, None)"
    and frames: "j \<noteq> k \<Longrightarrow> lease j (snd (occ t k ttl s)) = lease j s"
            "j \<noteq> k \<Longrightarrow> lease j (com t k i s) = lease j s"
            "j \<noteq> k \<Longrightarrow> lease j (rel k s) = lease j s"
begin

lemma occ_taken:
  assumes "lease k s = (st, Some e)" and "st \<noteq> Free" and "t < e"
  shows "snd (occ t k ttl s) = s" and "fst (occ t k ttl s) \<noteq> Acquired"
  using assms occ_held [of t k s ttl] occ_committed [of t k s _ ttl]
  by (cases st; simp add: state_at_def)+

lemma lease_kept:
  assumes "lease k s = (st, Some e)" and "st \<noteq> Free" and "list_all (within_lease k e) rs"
    and "slot_run occ com rel rs s = (out, s')"
  shows "\<exists>st'. st' \<noteq> Free \<and> lease k s' = (st', Some e) \<and> (k, Acquired) \<notin> set out"
  using assms
proof (induction rs arbitrary: s st out s')
  case Nil
  then show ?case by simp
next
  case (Cons r rs)
  obtain t q where r: "r = (t, q)" by (cases r)
  have rest: "list_all (within_lease k e) rs" and now: "within_lease k e r"
    using Cons.prems(3) by simp_all
  then have t: "t < e" by (simp add: r within_lease_def)
  show ?case
  proof (cases q)
    case (ReqOccupy j ttl)
    obtain a s1 where o: "occ t j ttl s = (a, s1)" by fastforce
    obtain out1 s2 where run: "slot_run occ com rel rs s1 = (out1, s2)" by fastforce
    have "lease k s1 = (st, Some e) \<and> (j = k \<longrightarrow> a \<noteq> Acquired)"
      using frames(1) [of k j t ttl s] occ_taken [OF Cons.prems(1,2) t, of ttl] Cons.prems(1) o
      by (cases "j = k") auto
    then show ?thesis
      using Cons.IH [OF _ Cons.prems(2) rest run] Cons.prems(4) by (auto simp: r ReqOccupy o run)
  next
    case (ReqCommit j i)
    have "\<exists>st'. st' \<noteq> Free \<and> lease k (com t j i s) = (st', Some e)"
    proof (cases "j = k")
      case True
      then have "storable_id i" using now by (simp add: r ReqCommit within_lease_def)
      then show ?thesis using com_lease [of i k t s] True Cons.prems(1,2) t by (simp add: state_at_def)
    next
      case False
      then show ?thesis using frames(2) [of k j t i s] Cons.prems(1,2) by auto
    qed
    then show ?thesis
      using Cons.IH [OF _ _ rest] Cons.prems(4) by (fastforce simp: r ReqCommit)
  next
    case (ReqRelease j)
    then have "j \<noteq> k" using now by (simp add: r within_lease_def)
    then have "lease k (rel j s) = (st, Some e)" using frames(3) [of k j s] Cons.prems(1) by simp
    then show ?thesis using Cons.IH [OF _ Cons.prems(2) rest] Cons.prems(4) by (simp add: r ReqRelease)
  qed
qed

text \<open>From acquisition to the end of the lease the acquirer is alone.\<close>

lemma exclusive:
  assumes "occ t k ttl s = (Acquired, s1)" and "list_all (within_lease k (t + ttl * 1000)) rs"
    and "slot_run occ com rel rs s1 = (out, s2)"
  shows "(k, Acquired) \<notin> set out"
proof -
  have "state_at t (lease k s) = Free"
    using occ_held [of t k s ttl] occ_committed [of t k s _ ttl] assms(1)
    by (cases "state_at t (lease k s)") auto
  then have "lease k s1 = (Held, Some (t + ttl * 1000))"
    using occ_free [of t k s ttl] assms(1) by simp
  then show ?thesis using lease_kept [OF _ _ assms(2,3)] by auto
qed

text \<open>After a commit within the lease, every later request within it gets the identifier.\<close>

lemma committed_answer:
  assumes "storable_id i" and "lease k s = (st, Some e)" and "st \<noteq> Free" and "t < e" and "t' < e"
  shows "occ t' k ttl (com t k i s) = (Duplicate i, com t k i s)"
  using com_lease [OF assms(1), of k t s] assms by (intro occ_committed) (simp add: state_at_def)

end

section \<open>The Redis implementation meets the contract\<close>

definition slot_lease :: "string \<Rightarrow> redis_keys \<Rightarrow> slot_state \<times> time option" where
  "slot_lease k m =
     (case m (redisKey k) of
        None \<Rightarrow> (Free, None)
      | Some v \<Rightarrow>
          (if slot_value v = [] \<or> slot_value v = PENDING_SENTINEL then Held
           else Committed (slot_value v), slot_expiry v))"

lemma redisKey_inj [simp]: "redisKey j = redisKey k \<longleftrightarrow> j = k"
  by (simp add: redisKey_def)

lemmas redis_defs =
  occupySlot_def OCCUPY_SCRIPT_def redis_set_nx_ex_def commitResult_def redis_set_keepttl_def
  releaseSlot_def redis_del_def redis_live_def slot_lease_def state_at_def

interpretation slots: slot_store slot_lease occupySlot commitResult releaseSlot
  by unfold_locales
    (auto simp: redis_defs storable_id_def PENDING_SENTINEL_def split: option.splits if_splits)

text \<open>
  \<open>KEEPTTL\<close> on a key that has expired: a commit that comes after the lease leaves a key that
  never expires.
\<close>

lemma commit_after_expiry_never_expires:
  assumes "storable_id i" and "state_at t (slot_lease k m) = Free"
  shows "state_at t' (slot_lease k (commitResult t k i m)) = Committed i"
  using slots.com_lease [OF assms(1), of k t m] assms(2) by (simp add: state_at_def)

text \<open>
  C14: Mutual exclusion of creation. Once a request has acquired the slot of a key, no other request
  acquires it while the lease of \<open>ttl\<close> seconds runs, whatever sequence of occupy and commit requests
  for any keys, and of releases for other keys, is served in between.
\<close>

theorem slot_mutual_exclusion:
  assumes "occupySlot t k ttl m = (Acquired, m1)" and "list_all (within_lease k (t + ttl * 1000)) rs"
    and "slot_run occupySlot commitResult releaseSlot rs m1 = (out, m2)"
  shows "(k, Acquired) \<notin> set out"
  by (rule slots.exclusive [OF assms])

theorem slot_mutual_exclusion_witness:
  "(''k'', Acquired) \<notin> set (fst (slot_run occupySlot commitResult releaseSlot
     [(5, ReqOccupy ''k'' 1), (6, ReqCommit ''k'' ''id''), (7, ReqRelease ''j''), (8, ReqOccupy ''k'' 1)]
     (snd (occupySlot 0 ''k'' 1 Map.empty))))"
  by (rule slot_mutual_exclusion [of 0 "''k''" 1 Map.empty, OF _ _ prod.collapse [symmetric]])
    (simp_all add: occupySlot_def OCCUPY_SCRIPT_def redis_set_nx_ex_def redis_live_def within_lease_def
      storable_id_def PENDING_SENTINEL_def)

end
