(* ===== verification/JobQueue.thy ===== *)
theory JobQueue
  imports Prelude
begin

text \<open>
  \<^verbatim>\<open>libs/queue\<close>: the queue adapter of \<^verbatim>\<open>bullmq.adapter.ts\<close> behind the interface of
  \<^verbatim>\<open>queue-adapter.interface.ts\<close>. The state holds the pool of cached queue instances and the jobs
  BullMQ stores per queue, in the order they were added. The interface is the locale
  \<open>queue_adapter\<close>.
\<close>

datatype job_data =
    DispatchJobData uuid int
  | TaskJobData uuid

text \<open>The field \<open>taskId\<close> that the data of every job has.\<close>

fun job_taskId :: "job_data \<Rightarrow> uuid" where
  "job_taskId (DispatchJobData i _) = i"
| "job_taskId (TaskJobData i) = i"

record queue_job =
  job_name :: string
  job_data :: job_data

record job_options =
  opt_priority :: "int option"
  opt_delay :: "int option"
  opt_attempts :: "int option"
  opt_backoff :: "int option"

definition no_options :: job_options where
  "no_options = \<lparr>opt_priority = None, opt_delay = None, opt_attempts = None, opt_backoff = None\<rparr>"

text \<open>What \<open>queue.add(name, data, opts)\<close> stores. A backoff is always of the fixed kind.\<close>

record bull_job =
  bj_name :: string
  bj_data :: job_data
  bj_priority :: "int option"
  bj_delay :: "int option"
  bj_attempts :: int
  bj_backoff :: "int option"

record queue_state =
  queue_pool :: "string list"
  queue_jobs :: "string \<Rightarrow> bull_job list"

definition empty_queues :: queue_state where
  "empty_queues = \<lparr>queue_pool = [], queue_jobs = (\<lambda>_. [])\<rparr>"

definition getQueue :: "string \<Rightarrow> queue_state \<Rightarrow> queue_state" where
  "getQueue name q =
     (if name \<in> set (queue_pool q) then q else q\<lparr>queue_pool := queue_pool q @ [name]\<rparr>)"

definition bull_add :: "string \<Rightarrow> bull_job \<Rightarrow> queue_state \<Rightarrow> (exn + unit) \<times> queue_state" where
  "bull_add name j q = (Inr (), q\<lparr>queue_jobs := (queue_jobs q)(name := queue_jobs q name @ [j])\<rparr>)"

definition stored_job :: "queue_job \<Rightarrow> job_options \<Rightarrow> bull_job" where
  "stored_job j opts =
     \<lparr> bj_name = job_name j, bj_data = job_data j, bj_priority = opt_priority opts,
       bj_delay = opt_delay opts,
       bj_attempts = (case opt_attempts opts of None \<Rightarrow> 3 | Some n \<Rightarrow> n),
       bj_backoff = opt_backoff opts \<rparr>"

text \<open>
  \<open>enqueue\<close>: the queue instance is created on first use, before the job is added; a rejected
  \<open>queue.add\<close> is logged and rethrown.
\<close>

definition enqueue ::
  "io \<Rightarrow> string \<Rightarrow> queue_job \<Rightarrow> job_options \<Rightarrow> queue_state \<Rightarrow> (exn + unit) \<times> queue_state" where
  "enqueue v queueName j opts q =
     io_call v (bull_add queueName (stored_job j opts)) (getQueue queueName q)"

locale queue_adapter =
  fixes enq :: "io \<Rightarrow> string \<Rightarrow> queue_job \<Rightarrow> job_options \<Rightarrow> 'q \<Rightarrow> (exn + unit) \<times> 'q"
    and contents :: "string \<Rightarrow> 'q \<Rightarrow> bull_job list"
  assumes enq_Done: "fst (enq Done n j opts q) = Inr ()"
    and enq_fails: "v \<noteq> Done \<Longrightarrow> fst (enq v n j opts q) = Inl InfraError"
    and enq_own: "contents n (snd (enq v n j opts q)) =
           (if v = Fail_Before then contents n q else contents n q @ [stored_job j opts])"
    and enq_other: "m \<noteq> n \<Longrightarrow> contents m (snd (enq v n j opts q)) = contents m q"
begin

lemma enq_accepted_iff: "fst (enq v n j opts q) = Inr () \<longleftrightarrow> v = Done"
  using enq_Done enq_fails by fastforce

text \<open>An accepted job is stored exactly once, with the attempts asked for, three by default.\<close>

lemma accepted_stored_once:
  assumes "enq v n j opts q = (Inr (), q')"
  shows "contents n q' = contents n q @ [stored_job j opts]"
  using assms enq_accepted_iff [of v n j opts q] enq_own [of n v j opts q] by simp

lemma no_job_lost: "\<exists>js. contents m (snd (enq v n j opts q)) = contents m q @ js"
  using enq_own [of n v j opts q] enq_other [of m n v j opts q] by (cases "m = n") auto

end

lemma queue_jobs_getQueue [simp]: "queue_jobs (getQueue n q) = queue_jobs q"
  by (simp add: getQueue_def)

interpretation bull: queue_adapter enqueue "\<lambda>n q. queue_jobs q n"
proof unfold_locales
  fix v n j opts q
  show "fst (enqueue Done n j opts q) = Inr ()"
    by (simp add: enqueue_def bull_add_def)
  show "fst (enqueue v n j opts q) = Inl InfraError" if "v \<noteq> Done"
    using that by (cases v) (simp_all add: enqueue_def)
  show "queue_jobs (snd (enqueue v n j opts q)) n =
      (if v = Fail_Before then queue_jobs q n else queue_jobs q n @ [stored_job j opts])"
    by (cases v) (simp_all add: enqueue_def bull_add_def)
  show "queue_jobs (snd (enqueue v n j opts q)) m = queue_jobs q m" if "m \<noteq> n" for m
    using that by (cases v) (simp_all add: enqueue_def bull_add_def)
qed

text \<open>The pool never holds two instances for one name.\<close>

lemma getQueue_distinct: "distinct (queue_pool q) \<Longrightarrow> distinct (queue_pool (getQueue n q))"
  by (simp add: getQueue_def)

lemma enqueue_pool_distinct [inv_intros]:
  "distinct (queue_pool q) \<Longrightarrow> distinct (queue_pool (snd (enqueue v n j opts q)))"
  by (cases v) (simp_all add: enqueue_def bull_add_def getQueue_distinct)

end
