(* ===== verification/JsText.thy ===== *)
theory JsText
  imports Prelude Complex_Main
begin

text \<open>
  The string and number functions of the JavaScript library that the code calls: \<open>trim\<close>, \<open>split\<close>
  and \<open>join\<close>, \<open>parseInt(s, 10)\<close>, and the conversion \<open>Number(s)\<close> with its grammar of literals and
  its rounding to a double. Strings are Latin-1, so white space is what Latin-1 has of it.
\<close>

section \<open>White space and case\<close>

text \<open>White space of \<open>trim()\<close> and of \<open>\s\<close>, within Latin-1.\<close>

definition js_space :: "char \<Rightarrow> bool" where
  "js_space c \<longleftrightarrow> (of_char c :: nat) \<in> {9, 10, 11, 12, 13, 32, 160}"

definition js_trim :: "string \<Rightarrow> string" where
  "js_trim s = rev (dropWhile js_space (rev (dropWhile js_space s)))"

definition startsWith :: "string \<Rightarrow> string \<Rightarrow> bool" where
  "startsWith p s \<longleftrightarrow> take (length p) s = p"

definition lower_ascii :: "char \<Rightarrow> char" where
  "lower_ascii c = (let n = of_char c :: nat in if 65 \<le> n \<and> n \<le> 90 then char_of (n + 32) else c)"

section \<open>Splitting and joining\<close>

text \<open>\<open>s.split(c)\<close> for a separator of one character: \<open>''.split(',')\<close> has one piece.\<close>

fun split_on :: "char \<Rightarrow> string \<Rightarrow> string list" where
  "split_on c [] = [[]]"
| "split_on c (x # xs) =
     (if x = c then [] # split_on c xs
      else case split_on c xs of [] \<Rightarrow> [[x]] | p # ps \<Rightarrow> (x # p) # ps)"

fun join_with :: "string \<Rightarrow> string list \<Rightarrow> string" where
  "join_with sep [] = []"
| "join_with sep [p] = p"
| "join_with sep (p # ps) = p @ sep @ join_with sep ps"

lemma split_on_not_Nil [simp]: "split_on c s \<noteq> []"
  by (cases s) (auto split: list.split)

lemma split_on_no_sep: "c \<notin> set s \<Longrightarrow> split_on c s = [s]"
  by (induction s) auto

lemma split_on_append: "c \<notin> set p \<Longrightarrow> split_on c (p @ c # s) = p # split_on c s"
  by (induction p) auto

lemma split_on_join:
  assumes "ps \<noteq> []" and "\<forall>p \<in> set ps. c \<notin> set p"
  shows "split_on c (join_with [c] ps) = ps"
  using assms by (induction "[c]" ps rule: join_with.induct) (auto simp: split_on_no_sep split_on_append)

lemma join_with_Cons: "ps \<noteq> [] \<Longrightarrow> join_with sep (p # ps) = p @ sep @ join_with sep ps"
  by (cases ps) auto

lemma join_split_on: "join_with [c] (split_on c s) = s"
proof (induction s)
  case (Cons x xs)
  then obtain p ps where ps: "split_on c xs = p # ps" "join_with [c] (p # ps) = xs"
    by (cases "split_on c xs") auto
  then have "join_with [c] ((x # p) # ps) = x # xs" by (cases ps) auto
  with ps show ?case by (simp add: join_with_Cons)
qed simp

section \<open>Digits\<close>

definition is_digit :: "char \<Rightarrow> bool" where
  "is_digit c \<longleftrightarrow> (let n = of_char c :: nat in 48 \<le> n \<and> n \<le> 57)"

definition digit_value :: "char \<Rightarrow> nat" where
  "digit_value c = of_char c - 48"

definition digits_value :: "string \<Rightarrow> nat" where
  "digits_value s = foldl (\<lambda>a c. 10 * a + digit_value c) 0 s"

lemma digits_value_snoc: "digits_value (s @ [c]) = 10 * digits_value s + digit_value c"
  by (simp add: digits_value_def)

lemma digit_char [simp]:
  fixes k :: nat
  assumes "k < 10"
  shows "is_digit (char_of (48 + k))" "digit_value (char_of (48 + k)) = k"
  using assms by (simp_all add: is_digit_def digit_value_def)

lemma show_nat_digits: "list_all is_digit (show_nat n) \<and> digits_value (show_nat n) = n \<and> show_nat n \<noteq> []"
proof (induction n rule: show_nat.induct)
  case (1 n)
  show ?case
  proof (cases "n < 10")
    case True
    then show ?thesis by (subst (1 2 3) show_nat.simps) (simp add: digits_value_def)
  next
    case False
    then show ?thesis using 1 by (subst (1 2 3) show_nat.simps) (simp add: digits_value_snoc)
  qed
qed

lemma show_nat_inj: "show_nat m = show_nat n \<longleftrightarrow> m = n"
  using show_nat_digits by metis

lemma js_space_not_digit: "is_digit c \<Longrightarrow> \<not> js_space c"
  by (auto simp: is_digit_def js_space_def Let_def)

lemma takeWhile_digits [simp]:
  "list_all is_digit ds \<Longrightarrow> takeWhile is_digit ds = ds" "list_all is_digit ds \<Longrightarrow> dropWhile is_digit ds = []"
  by (induction ds) auto

text \<open>Text without white space at its ends is not changed by trimming.\<close>

lemma js_trim_id:
  assumes "s = [] \<or> (\<not> js_space (hd s) \<and> \<not> js_space (last s))"
  shows "js_trim s = s"
proof (cases "s = []")
  case False
  then have "dropWhile js_space (rev s) = rev s" "dropWhile js_space s = s"
    using assms by (simp_all add: hd_rev dropWhile_eq_self_iff)
  then show ?thesis by (simp add: js_trim_def)
qed (simp add: js_trim_def)

lemma js_trim_digits: "list_all is_digit s \<Longrightarrow> js_trim s = s"
  by (rule js_trim_id) (cases s; auto simp: list_all_iff js_space_not_digit)

section \<open>The function parseInt\<close>

text \<open>
  \<open>parseInt(s, 10)\<close>: white space, an optional sign, the longest run of digits; \<open>None\<close> is \<open>NaN\<close>.
\<close>

definition parse_sign :: "string \<Rightarrow> int \<times> string" where
  "parse_sign s =
     (case s of
        [] \<Rightarrow> (1, s)
      | c # r \<Rightarrow> if c = CHR ''-'' then (- 1, r) else if c = CHR ''+'' then (1, r) else (1, s))"

definition parseInt :: "string \<Rightarrow> int option" where
  "parseInt s =
     (case parse_sign (dropWhile js_space s) of
        (sg, r) \<Rightarrow>
          (let ds = takeWhile is_digit r
           in if ds = [] then None else Some (sg * int (digits_value ds))))"

lemma parse_sign_digits: "list_all is_digit s \<Longrightarrow> parse_sign s = (1, s)"
  by (cases s) (auto simp: parse_sign_def is_digit_def)

lemma parseInt_show_nat: "parseInt (show_nat n) = Some (int n)"
proof -
  have ds: "list_all is_digit (show_nat n)" "digits_value (show_nat n) = n" "show_nat n \<noteq> []"
    using show_nat_digits by blast+
  then have "dropWhile js_space (show_nat n) = show_nat n"
    by (auto simp: dropWhile_eq_self_iff list_all_iff js_space_not_digit)
  with ds show ?thesis by (simp add: parseInt_def parse_sign_digits)
qed

section \<open>The conversion Number\<close>

text \<open>
  A JavaScript number, with a finite double as the rational it stands for (the sign of a zero plays
  no role in the code).
\<close>

datatype js_number = NaN | Infinity bool | Finite rat

text \<open>
  Rounding to the nearest double, ties to even: \<open>bits n\<close> is the length of the binary numeral of
  \<open>n\<close>, and the last place of a number in \<open>[2 ^ e, 2 ^ (e + 1))\<close> is \<open>2 ^ (e - 52)\<close>, at least
  \<open>2 ^ (- 1074)\<close>.
\<close>

fun bits :: "nat \<Rightarrow> nat" where
  "bits n = (if n = 0 then 0 else Suc (bits (n div 2)))"

declare bits.simps [simp del]

definition scale :: "rat \<Rightarrow> int \<Rightarrow> rat" where
  "scale b e = (if e \<ge> 0 then b ^ nat e else 1 / b ^ nat (- e))"

lemma scale_neg [simp]: "scale b (- int k) = 1 / b ^ k"
  by (cases "k = 0") (simp_all add: scale_def)

definition binary_exponent :: "rat \<Rightarrow> int" where
  "binary_exponent q =
     (case quotient_of q of
        (a, b) \<Rightarrow>
          (let e = int (bits (nat a)) - int (bits (nat b))
           in if scale 2 e \<le> q then e else e - 1))"

definition round_half_even :: "rat \<Rightarrow> int" where
  "round_half_even x =
     (let f = \<lfloor>x\<rfloor>; d = x - of_int f
      in if d < 1 / 2 then f else if d > 1 / 2 then f + 1 else if even f then f else f + 1)"

definition to_double :: "rat \<Rightarrow> js_number" where
  "to_double q =
     (if q = 0 then Finite 0
      else (let ulp = scale 2 (max (binary_exponent \<bar>q\<bar> - 52) (- 1074));
                v = of_int (round_half_even (\<bar>q\<bar> / ulp)) * ulp
            in if v \<ge> 2 ^ 1024 then Infinity (q > 0) else Finite (if q > 0 then v else - v)))"

text \<open>The literals of \<open>Number(s)\<close>: decimal with fraction and exponent, or \<open>0x\<close>, \<open>0o\<close>, \<open>0b\<close>.\<close>

definition parse_exponent :: "string \<Rightarrow> int option" where
  "parse_exponent s =
     (case s of
        [] \<Rightarrow> Some 0
      | c # r \<Rightarrow>
          if c = CHR ''e'' \<or> c = CHR ''E''
          then (case parse_sign r of
                  (sg, ds) \<Rightarrow> if ds \<noteq> [] \<and> list_all is_digit ds then Some (sg * int (digits_value ds)) else None)
          else None)"

definition decimal_value :: "string \<Rightarrow> string \<Rightarrow> string \<Rightarrow> rat option" where
  "decimal_value ip fp r =
     (if ip = [] \<and> fp = [] then None
      else case parse_exponent r of
             None \<Rightarrow> None
           | Some e \<Rightarrow> Some (of_nat (digits_value (ip @ fp)) * scale 10 (e - int (length fp))))"

definition parse_decimal :: "string \<Rightarrow> rat option" where
  "parse_decimal s =
     (let ip = takeWhile is_digit s; r = dropWhile is_digit s
      in case r of
           [] \<Rightarrow> decimal_value ip [] []
         | c # r' \<Rightarrow>
             if c = CHR ''.'' then decimal_value ip (takeWhile is_digit r') (dropWhile is_digit r')
             else decimal_value ip [] r)"

definition radix_digit :: "char \<Rightarrow> nat option" where
  "radix_digit c =
     (let n = of_char (lower_ascii c) :: nat
      in if is_digit c then Some (n - 48) else if 97 \<le> n \<and> n \<le> 122 then Some (n - 87) else None)"

fun radix_value :: "nat \<Rightarrow> nat \<Rightarrow> string \<Rightarrow> nat option" where
  "radix_value b a [] = Some a"
| "radix_value b a (c # cs) =
     (case radix_digit c of
        None \<Rightarrow> None
      | Some d \<Rightarrow> if d < b then radix_value b (b * a + d) cs else None)"

definition radix_of :: "char \<Rightarrow> nat option" where
  "radix_of c =
     (if lower_ascii c = CHR ''x'' then Some 16 else if lower_ascii c = CHR ''o'' then Some 8
      else if lower_ascii c = CHR ''b'' then Some 2 else None)"

definition parse_radix :: "string \<Rightarrow> nat option" where
  "parse_radix s =
     (case s of
        z # x # r \<Rightarrow>
          (case radix_of x of
             Some b \<Rightarrow> if z = CHR ''0'' \<and> r \<noteq> [] then radix_value b 0 r else None
           | None \<Rightarrow> None)
      | _ \<Rightarrow> None)"

definition js_Number :: "string \<Rightarrow> js_number" where
  "js_Number raw =
     (let s = js_trim raw
      in if s = [] then Finite 0
         else case parse_radix s of
                Some n \<Rightarrow> to_double (of_nat n)
              | None \<Rightarrow>
                  (case parse_sign s of
                     (sg, r) \<Rightarrow>
                       if r = ''Infinity'' then Infinity (sg = 1)
                       else case parse_decimal r of
                              None \<Rightarrow> NaN
                            | Some q \<Rightarrow> to_double (of_int sg * q)))"

section \<open>Integers below 2^53 are read exactly\<close>

lemma bits_le: "n < 2 ^ k \<Longrightarrow> bits n \<le> k"
proof (induction k arbitrary: n)
  case 0
  then show ?case by (simp add: bits.simps)
next
  case (Suc k)
  then have "n div 2 < 2 ^ k" by auto
  from Suc.IH [OF this] show ?case by (subst bits.simps) simp
qed

lemma round_half_even_int [simp]: "round_half_even (of_int k) = k"
  by (simp add: round_half_even_def)

lemma to_double_nat:
  assumes "n < 2 ^ 53"
  shows "to_double (of_nat n) = Finite (of_nat n)"
proof (cases "n = 0")
  case False
  let ?q = "of_nat n :: rat"
  have "quotient_of ?q = (int n, 1)" using quotient_of_int [of "int n"] by (simp add: of_int_of_nat_eq)
  then have "binary_exponent ?q \<le> int (bits n) - int (bits 1)"
    by (simp add: binary_exponent_def Let_def)
  then have "binary_exponent ?q \<le> 52"
    using bits_le [OF assms] by (simp add: bits.simps [of "Suc 0"] bits.simps [of 0])
  then have "max (binary_exponent ?q - 52) (- 1074) = - int (nat (- max (binary_exponent ?q - 52) (- 1074)))"
    by simp
  then obtain k where k: "max (binary_exponent ?q - 52) (- 1074) = - int k" by blast
  have "?q / scale 2 (- int k) = of_int (int n * 2 ^ k)"
    by simp
  moreover have "of_int (int n * 2 ^ k) * scale 2 (- int k) = ?q"
    by simp
  moreover have "?q < 2 ^ 1024"
  proof -
    have "?q < of_nat (2 ^ 53)" using assms by (simp only: of_nat_less_iff)
    also have "\<dots> \<le> 2 ^ 1024" by simp
    finally show ?thesis .
  qed
  ultimately show ?thesis
    using False by (simp add: to_double_def Let_def k del: of_int_mult)
qed (simp add: to_double_def)

lemma parse_radix_digits: "list_all is_digit s \<Longrightarrow> parse_radix s = None"
  by (cases s; cases "tl s")
    (auto simp: parse_radix_def radix_of_def is_digit_def lower_ascii_def Let_def split: list.split)

lemma js_Number_show_nat:
  assumes "n < 2 ^ 53"
  shows "js_Number (show_nat n) = Finite (of_nat n)"
proof -
  have ds: "list_all is_digit (show_nat n)" "digits_value (show_nat n) = n" "show_nat n \<noteq> []"
    using show_nat_digits by blast+
  then have "parse_decimal (show_nat n) = Some (of_nat n)"
    by (simp add: parse_decimal_def decimal_value_def parse_exponent_def scale_def Let_def)
  moreover have "show_nat n \<noteq> ''Infinity''"
    using ds(1) by (auto simp: is_digit_def)
  ultimately show ?thesis
    using ds to_double_nat [OF assms]
    by (simp add: js_Number_def js_trim_digits parse_radix_digits parse_sign_digits Let_def)
qed

end
