(* ===== verification/World.thy ===== *)
theory World
  imports TasksRepository Idempotency JobQueue JsText
begin

text \<open>
  The shared stores of the two processes: PostgreSQL (\<open>tasks\<close>, \<open>task_events\<close>), the idempotency
  keys in Redis, the BullMQ queues, and the messages published on the per-task Pub/Sub channels.
  The operations of the previous theories are lifted to it. An event is published as the row the
  insert returned, serialised and parsed back by the subscriber.
\<close>

record world = db +
  redis :: redis_keys
  bull :: queue_state
  published :: "(string \<times> task_event) list"

definition empty_world :: world where
  "empty_world = \<lparr>tasks = [], task_events = [], redis = Map.empty, bull = empty_queues, published = []\<rparr>"

abbreviation jobs :: "string \<Rightarrow> world \<Rightarrow> bull_job list" where
  "jobs n w \<equiv> queue_jobs (bull w) n"

definition task_channel :: "uuid \<Rightarrow> string" where
  "task_channel i = ''task:'' @ i"

text \<open>
  An identifier from a URL reaches a statement as the client wrote it; Nest's pipe has tested that it
  has the form of a UUID, in either case. PostgreSQL compares values of type \<open>uuid\<close> and prints them in
  lower case.
\<close>

definition db_uuid :: "string \<Rightarrow> uuid" where
  "db_uuid s = map lower_ascii s"

lemma lower_ascii_idem [simp]: "lower_ascii (lower_ascii c) = lower_ascii c"
  by (auto simp: lower_ascii_def Let_def)

lemma db_uuid_idem [simp]: "db_uuid (db_uuid s) = db_uuid s"
  by (simp add: db_uuid_def comp_def)

section \<open>Lifted operations\<close>

definition publish_event :: "uuid \<Rightarrow> task_event \<Rightarrow> world \<Rightarrow> (exn + unit) \<times> world" where
  "publish_event i ev w = (Inr (), w\<lparr>published := published w @ [(task_channel i, ev)]\<rparr>)"

definition insert_event ::
  "uuid \<Rightarrow> time \<Rightarrow> insert_event_input \<Rightarrow> world \<Rightarrow> (exn + task_event) \<times> world" where
  "insert_event eid dbnow input w =
     (case insertEventInTx eid dbnow input (task_events w) of
        Inl e \<Rightarrow> (Inl e, w)
      | Inr (ev, evs) \<Rightarrow> (Inr ev, w\<lparr>task_events := evs\<rparr>))"

definition occupy_slot :: "time \<Rightarrow> string \<Rightarrow> int \<Rightarrow> world \<Rightarrow> (exn + occupy_result) \<times> world" where
  "occupy_slot now k ttl w =
     (case occupySlot now k ttl (redis w) of (r, m) \<Rightarrow> (Inr r, w\<lparr>redis := m\<rparr>))"

definition commit_slot :: "time \<Rightarrow> string \<Rightarrow> uuid \<Rightarrow> world \<Rightarrow> (exn + unit) \<times> world" where
  "commit_slot now k i w = (Inr (), w\<lparr>redis := commitResult now k i (redis w)\<rparr>)"

definition release_slot :: "string \<Rightarrow> world \<Rightarrow> (exn + unit) \<times> world" where
  "release_slot k w = (Inr (), w\<lparr>redis := releaseSlot k (redis w)\<rparr>)"

definition enqueue_job ::
  "io \<Rightarrow> string \<Rightarrow> queue_job \<Rightarrow> job_options \<Rightarrow> world \<Rightarrow> (exn + unit) \<times> world" where
  "enqueue_job v n j opts w = (case enqueue v n j opts (bull w) of (r, q) \<Rightarrow> (r, w\<lparr>bull := q\<rparr>))"

definition find_task :: "uuid \<Rightarrow> world \<Rightarrow> (exn + task option) \<times> world" where
  "find_task i w = (Inr (findById i w), w)"

lemmas world_defs [handler_defs] =
  publish_event_def insert_event_def occupy_slot_def commit_slot_def release_slot_def
  enqueue_job_def find_task_def

section \<open>What each operation leaves alone\<close>

lemma db_inv_other_stores [simp]:
  "db_inv (w\<lparr>redis := m\<rparr>) = db_inv w"
  "db_inv (w\<lparr>bull := q\<rparr>) = db_inv w"
  "db_inv (w\<lparr>published := ms\<rparr>) = db_inv w"
  by (simp_all add: db_inv_def)

lemma findById_other_stores [simp]:
  "findById i (w\<lparr>redis := m\<rparr>) = findById i w"
  "findById i (w\<lparr>bull := q\<rparr>) = findById i w"
  "findById i (w\<lparr>published := ms\<rparr>) = findById i w"
  by (simp_all add: findById_def)

lemma status_of_other_stores [simp]:
  "status_of i (w\<lparr>redis := m\<rparr>) = status_of i w"
  "status_of i (w\<lparr>bull := q\<rparr>) = status_of i w"
  "status_of i (w\<lparr>published := ms\<rparr>) = status_of i w"
  "status_of i (w\<lparr>task_events := evs\<rparr>) = status_of i w"
  by (simp_all add: status_of_def findById_def)

lemma enqueue_job_frame [simp]:
  "tasks (snd (enqueue_job v n j opts w)) = tasks w"
  "task_events (snd (enqueue_job v n j opts w)) = task_events w"
  "redis (snd (enqueue_job v n j opts w)) = redis w"
  "published (snd (enqueue_job v n j opts w)) = published w"
  "findById i (snd (enqueue_job v n j opts w)) = findById i w"
  "db_inv (snd (enqueue_job v n j opts w)) = db_inv w"
  by (simp_all add: enqueue_job_def split: prod.split)

lemma enqueue_job_Done:
  "enqueue_job Done n j opts w =
     (Inr (), w\<lparr>bull := snd (enqueue Done n j opts (bull w))\<rparr>)"
  using bull.enq_Done [of n j opts "bull w"] by (auto simp: enqueue_job_def split: prod.split)

lemma enqueue_job_fails: "v \<noteq> Done \<Longrightarrow> fst (enqueue_job v n j opts w) = Inl InfraError"
  using bull.enq_fails [of v n j opts "bull w"] by (auto simp: enqueue_job_def split: prod.split)

lemma repo_frames [simp]:
  fixes w :: world
  shows "redis (snd (tasks_insert gen t dto w)) = redis w" "bull (snd (tasks_insert gen t dto w)) = bull w"
    "published (snd (tasks_insert gen t dto w)) = published w"
    "task_events (snd (tasks_insert gen t dto w)) = task_events w"
    "redis (snd (deleteById i w)) = redis w" "bull (snd (deleteById i w)) = bull w"
    "published (snd (deleteById i w)) = published w"
    "task_events (snd (deleteById i w)) = task_events w"
    "redis (snd (updateStatus u i frm to x w)) = redis w" "bull (snd (updateStatus u i frm to x w)) = bull w"
    "published (snd (updateStatus u i frm to x w)) = published w"
    "task_events (snd (updateStatus u i frm to x w)) = task_events w"
    "redis (snd (updateProgress u i p w)) = redis w" "bull (snd (updateProgress u i p w)) = bull w"
    "published (snd (updateProgress u i p w)) = published w"
    "task_events (snd (updateProgress u i p w)) = task_events w"
  by (simp_all add: repo_defs Let_def split: sum.split)

lemma db_inv_lifted [inv_intros]:
  assumes "db_inv w"
  shows "db_inv (snd (publish_event i ev w))" "db_inv (snd (insert_event eid t inp w))"
    "db_inv (snd (occupy_slot now k ttl w))" "db_inv (snd (commit_slot now k i w))"
    "db_inv (snd (release_slot k w))" "db_inv (snd (enqueue_job v n j opts w))"
    "db_inv (snd (find_task i w))"
  using assms
  by (auto simp: world_defs db_inv_def split: sum.split prod.split
      elim: insertEventInTx_wf dense_seq_append)

lemma db_inv_io_call [inv_intros]: "db_inv w \<Longrightarrow> db_inv (snd (f w)) \<Longrightarrow> db_inv (snd (io_call v f w))"
  by (rule io_call_preserves)

lemma db_inv_empty_world [simp]: "db_inv empty_world"
  by (simp add: db_inv_def empty_world_def events_wf_def task_events_task_id_seq_unique_idx_def
      dense_seq_def task_log_def)

end
