(* ===== verification/Samples.thy ===== *)
theory Samples
  imports World
begin

text \<open>
  A task row in each status, an event, and worlds that hold them: the concrete inputs at which the
  properties of the other theories are applied.
\<close>

definition sample_row :: "uuid \<Rightarrow> task_status \<Rightarrow> task" where
  "sample_row i x =
     \<lparr> task_id = i, idempotencyKey = None, status = x, task_type = ''echo'', payload = JObj [],
       executorUrl = ''http://e'', callbackToken = Some ''tok'', webhookUrl = Some ''http://h'',
       cancelUrl = Some ''http://c'', result = None, error = None, progress = 0, timeoutSeconds = 300,
       processingStartedAt = (if x = PENDING then None else Some 1), expiresAt = Some 300000,
       completedAt = (if terminal x then Some 2 else None), createdAt = 0, updatedAt = 0 \<rparr>"

definition sample_event :: "uuid \<Rightarrow> int \<Rightarrow> task_event_type \<Rightarrow> task_event" where
  "sample_event i n ty =
     \<lparr> ev_id = i @ show_int n, ev_taskId = i, seq = n, eventType = ty, ev_payload = JObj [],
       ev_createdAt = n \<rparr>"

definition sample_world :: "task list \<Rightarrow> world" where
  "sample_world rows = empty_world\<lparr>tasks := rows\<rparr>"

lemma sample_row_simps [simp]:
  "task_id (sample_row i x) = i" "status (sample_row i x) = x" "idempotencyKey (sample_row i x) = None"
  "executorUrl (sample_row i x) = ''http://e''" "webhookUrl (sample_row i x) = Some ''http://h''"
  "cancelUrl (sample_row i x) = Some ''http://c''" "callbackToken (sample_row i x) = Some ''tok''"
  "result (sample_row i x) = None" "error (sample_row i x) = None"
  "expiresAt (sample_row i x) = Some 300000" "createdAt (sample_row i x) = 0"
  by (simp_all add: sample_row_def)

lemma sample_row_valid [simp]: "tasks_valid_state_data (sample_row i x)"
  by (cases x) (simp_all add: tasks_valid_state_data_def sample_row_def)

lemma sample_event_simps [simp]:
  "ev_taskId (sample_event i n ty) = i" "seq (sample_event i n ty) = n" "eventType (sample_event i n ty) = ty"
  by (simp_all add: sample_event_def)

lemma sample_world_simps [simp]:
  "tasks (sample_world rows) = rows" "task_events (sample_world rows) = []"
  "redis (sample_world rows) = Map.empty" "published (sample_world rows) = []"
  "bull (sample_world rows) = empty_queues"
  by (simp_all add: sample_world_def empty_world_def)

lemma db_inv_sample: "tasks_wf rows \<Longrightarrow> db_inv (sample_world rows)"
  by (simp add: db_inv_def events_wf_def task_events_task_id_seq_unique_idx_def dense_seq_def task_log_def)

lemma db_inv_sample_row [simp]: "db_inv (sample_world [sample_row i x])" "db_inv (sample_world [])"
  by (simp_all add: db_inv_sample tasks_wf_def tasks_idempotency_key_idx_def)

lemma find_sample_row [simp]:
  "findById i (sample_world [sample_row i x]) = Some (sample_row i x)"
  "i \<noteq> j \<Longrightarrow> findById j (sample_world [sample_row i x]) = None"
  by (simp_all add: findById_def find_row_def)

lemma sample_log:
  "task_log [sample_event i 1 a] i = [sample_event i 1 a]"
  "task_log [sample_event i 1 a, sample_event i 2 b] i = [sample_event i 1 a, sample_event i 2 b]"
  by (simp_all add: task_log_def)

lemma sample_events_wf:
  "events_wf [sample_event i 1 a]" "events_wf [sample_event i 1 a, sample_event i 2 b]"
  by (simp_all add: events_wf_def task_events_task_id_seq_unique_idx_def sample_event_def show_int_def
      show_nat.simps)

end
