(* ===== verification/TasksService.thy ===== *)
theory TasksService
  imports Samples
begin

text \<open>
  \<^verbatim>\<open>src/modules/tasks/tasks.service.ts\<close> and \<^verbatim>\<open>tasks.controller.ts\<close>: creating, reading and
  cancelling a task. \<open>create\<close> runs the four steps of the source (occupy the slot, insert the row,
  enqueue the dispatch job, commit the slot) with its clean-up on every failure. The verdict of
  each external call is a field of \<open>create_io\<close> or \<open>cancel_io\<close>; the clock readings and generated
  identifiers are fields of \<open>create_env\<close> and \<open>cancel_env\<close>.
\<close>

section \<open>Requests and responses\<close>

record create_task_dto =
  dto_type :: string
  dto_payload :: "json option"
  dto_executorUrl :: string
  dto_cancelUrl :: "string option"
  dto_webhookUrl :: "string option"
  dto_timeoutSeconds :: int
  dto_idempotencyKey :: "string option"

record task_created =
  taskId :: uuid
  statusUrl :: string
  streamUrl :: string

text \<open>What is known of a request that has passed its schema (\<open>Schemas.create_body_ok\<close>).\<close>

definition create_ok :: "create_task_dto \<Rightarrow> bool" where
  "create_ok dto \<longleftrightarrow> 1 \<le> dto_timeoutSeconds dto \<and> dto_timeoutSeconds dto \<le> 86400 \<and> dto_executorUrl dto \<noteq> []
     \<and> dto_cancelUrl dto \<noteq> Some [] \<and> dto_webhookUrl dto \<noteq> Some []"

definition buildResponse :: "uuid \<Rightarrow> string \<Rightarrow> task_created" where
  "buildResponse i baseUrl =
     \<lparr> taskId = i, statusUrl = baseUrl @ ''/tasks/'' @ i,
       streamUrl = baseUrl @ ''/tasks/'' @ i @ ''/stream'' \<rparr>"

definition IDEMPOTENCY_TTL_SECONDS :: int where
  "IDEMPOTENCY_TTL_SECONDS = 86400"

definition DISPATCH_QUEUE :: string where
  "DISPATCH_QUEUE = ''dispatch''"

record create_env =
  ce_now :: time            \<comment> \<open>\<open>Date.now()\<close> for the initial deadline\<close>
  ce_dbnow :: time          \<comment> \<open>\<open>now()\<close> of PostgreSQL\<close>
  ce_occupy :: time         \<comment> \<open>the time Redis runs the occupy script\<close>
  ce_commit :: time         \<comment> \<open>the time Redis runs the commit\<close>
  ce_id :: uuid             \<comment> \<open>\<open>gen_random_uuid()\<close>\<close>
  ce_token :: string        \<comment> \<open>\<open>randomUUID()\<close>\<close>

record create_io =
  io_occupy :: io
  io_insert :: io
  io_enqueue :: io
  io_delete :: io
  io_release :: io
  io_commit :: io

definition all_done :: create_io where
  "all_done = \<lparr>io_occupy = Done, io_insert = Done, io_enqueue = Done, io_delete = Done,
               io_release = Done, io_commit = Done\<rparr>"

lemma all_done_simps [simp]:
  "io_occupy all_done = Done" "io_insert all_done = Done" "io_enqueue all_done = Done"
  "io_delete all_done = Done" "io_release all_done = Done" "io_commit all_done = Done"
  by (simp_all add: all_done_def)

section \<open>Creating a task\<close>

definition create_values :: "create_env \<Rightarrow> create_task_dto \<Rightarrow> task_insert" where
  "create_values env dto =
     \<lparr> ins_id = None, ins_idempotencyKey = dto_idempotencyKey dto, ins_status = None,
       ins_type = dto_type dto, ins_payload = dto_payload dto,
       ins_executorUrl = dto_executorUrl dto, ins_callbackToken = Some (ce_token env),
       ins_webhookUrl = dto_webhookUrl dto, ins_cancelUrl = dto_cancelUrl dto,
       ins_result = None, ins_error = None, ins_progress = None,
       ins_timeoutSeconds = Some (dto_timeoutSeconds dto), ins_processingStartedAt = None,
       ins_expiresAt = Some (ce_now env + dto_timeoutSeconds dto * 1000),
       ins_completedAt = None \<rparr>"

definition dispatch_job :: "task \<Rightarrow> queue_job" where
  "dispatch_job t =
     \<lparr>job_name = ''dispatch'', job_data = DispatchJobData (task_id t) (timeoutSeconds t)\<rparr>"

text \<open>\<open>releaseSlot(...).catch(log)\<close>, guarded by the key: a failure is logged and dropped.\<close>

definition release_if_keyed :: "io \<Rightarrow> string option \<Rightarrow> world \<Rightarrow> world" where
  "release_if_keyed v key w =
     (case key of
        Some k \<Rightarrow> if k \<noteq> [] then snd (io_call v (release_slot k) w) else w
      | None \<Rightarrow> w)"

definition commit_if_keyed :: "io \<Rightarrow> time \<Rightarrow> string option \<Rightarrow> uuid \<Rightarrow> world \<Rightarrow> world" where
  "commit_if_keyed v now key i w =
     (case key of
        Some k \<Rightarrow> if k \<noteq> [] then snd (io_call v (commit_slot now k i) w) else w
      | None \<Rightarrow> w)"

text \<open>Steps 2 to 4, after the slot has been acquired (or without a key).\<close>

definition create_steps ::
  "create_env \<Rightarrow> create_io \<Rightarrow> create_task_dto \<Rightarrow> string \<Rightarrow> world \<Rightarrow> (exn + task_created) \<times> world" where
  "create_steps env io dto baseUrl w =
     (case io_call (io_insert io) (tasks_insert (ce_id env) (ce_dbnow env) (create_values env dto)) w of
        (Inl e, w1) \<Rightarrow> (Inl e, release_if_keyed (io_release io) (dto_idempotencyKey dto) w1)
      | (Inr t, w1) \<Rightarrow>
          (case enqueue_job (io_enqueue io) DISPATCH_QUEUE (dispatch_job t)
                  (no_options\<lparr>opt_attempts := Some 1\<rparr>) w1 of
             (Inl e, w2) \<Rightarrow>
               (Inl e, release_if_keyed (io_release io) (dto_idempotencyKey dto)
                         (snd (io_call (io_delete io) (deleteById (task_id t)) w2)))
           | (Inr _, w2) \<Rightarrow>
               (Inr (buildResponse (task_id t) baseUrl),
                commit_if_keyed (io_commit io) (ce_commit env) (dto_idempotencyKey dto)
                  (task_id t) w2)))"

definition create ::
  "create_env \<Rightarrow> create_io \<Rightarrow> create_task_dto \<Rightarrow> string \<Rightarrow> world \<Rightarrow> (exn + task_created) \<times> world" where
  "create env io dto baseUrl w =
     (case dto_idempotencyKey dto of
        None \<Rightarrow> create_steps env io dto baseUrl w
      | Some k \<Rightarrow>
          if k = [] then create_steps env io dto baseUrl w
          else
            (case io_call (io_occupy io) (occupy_slot (ce_occupy env) k IDEMPOTENCY_TTL_SECONDS) w of
               (Inl e, w1) \<Rightarrow> (Inl e, w1)
             | (Inr Pending, w1) \<Rightarrow>
                 (Inl (ConflictException
                    ''A task with this idempotency key is currently being created. Retry in a moment.''), w1)
             | (Inr (Duplicate i), w1) \<Rightarrow> (Inr (buildResponse i baseUrl), w1)
             | (Inr Acquired, w1) \<Rightarrow> create_steps env io dto baseUrl w1))"

section \<open>Reading and cancelling\<close>

definition getStatus :: "io \<Rightarrow> uuid \<Rightarrow> world \<Rightarrow> exn + task" where
  "getStatus v i w =
     (case fst (io_call v (find_task (db_uuid i)) w) of
        Inl e \<Rightarrow> Inl e
      | Inr None \<Rightarrow> Inl (NotFoundException (''Task '' @ i @ '' not found''))
      | Inr (Some t) \<Rightarrow> Inr t)"

record cancel_env =
  cn_now :: time
  cn_upd :: time
  cn_dbnow :: time
  cn_eid :: uuid

record cancel_io =
  io_cancel :: io
  io_find :: io
  io_publish :: io
  io_cancel_enqueue :: io

text \<open>The statements read the identifier as a UUID; the channel and the job carry it as it was sent.\<close>

definition cancel :: "cancel_env \<Rightarrow> cancel_io \<Rightarrow> string \<Rightarrow> world \<Rightarrow> (exn + unit) \<times> world" where
  "cancel env io i w =
     (case io_call (io_cancel io) (cancelTask (cn_now env) (cn_upd env) (cn_eid env) (cn_dbnow env) (db_uuid i)) w of
        (Inl e, w1) \<Rightarrow> (Inl e, w1)
      | (Inr None, w1) \<Rightarrow>
          (case io_call (io_find io) (find_task (db_uuid i)) w1 of
             (Inl e, w2) \<Rightarrow> (Inl e, w2)
           | (Inr None, w2) \<Rightarrow> (Inl (NotFoundException (''Task '' @ i @ '' not found'')), w2)
           | (Inr (Some t), w2) \<Rightarrow>
               (Inl (ConflictException (''Task '' @ i @ '' cannot be cancelled in its current state ('' @
                      status_name (status t) @ '').'')), w2))
      | (Inr (Some (t, ev)), w1) \<Rightarrow>
          (case io_call (io_publish io) (publish_event i ev) w1 of
             (Inl e, w2) \<Rightarrow> (Inl e, w2)
           | (Inr _, w2) \<Rightarrow>
               if truthy (cancelUrl t)
               then enqueue_job (io_cancel_enqueue io) ''cancel''
                      \<lparr>job_name = ''cancel'', job_data = TaskJobData i\<rparr> no_options w2
               else (Inr (), w2)))"

section \<open>The controller\<close>

definition create_handler ::
  "create_env \<Rightarrow> create_io \<Rightarrow> string \<Rightarrow> string option \<Rightarrow> create_task_dto \<Rightarrow> world
     \<Rightarrow> (exn + task_created) \<times> world" where
  "create_handler env io protocol host dto w =
     (if \<not> truthy host
      then (Inl (InternalServerErrorException ''Host header is missing - check reverse proxy config''), w)
      else create env io dto (protocol @ ''://'' @ the host) w)"

text \<open>A row as the object Drizzle returns, and the rest pattern that drops the token.\<close>

definition json_opt :: "('a \<Rightarrow> json) \<Rightarrow> 'a option \<Rightarrow> json" where
  "json_opt f x = (case x of None \<Rightarrow> JNull | Some v \<Rightarrow> f v)"

definition task_fields :: "task \<Rightarrow> (string \<times> json) list" where
  "task_fields t =
     [(''id'', JStr (task_id t)),
      (''idempotencyKey'', json_opt JStr (idempotencyKey t)),
      (''status'', JStr (status_name (status t))),
      (''type'', JStr (task_type t)),
      (''payload'', payload t),
      (''executorUrl'', JStr (executorUrl t)),
      (''callbackToken'', json_opt JStr (callbackToken t)),
      (''webhookUrl'', json_opt JStr (webhookUrl t)),
      (''cancelUrl'', json_opt JStr (cancelUrl t)),
      (''result'', json_opt (\<lambda>x. x) (result t)),
      (''error'', json_opt task_error_json (error t)),
      (''progress'', JNum (progress t) 0),
      (''timeoutSeconds'', JNum (timeoutSeconds t) 0),
      (''processingStartedAt'', json_opt JDate (processingStartedAt t)),
      (''expiresAt'', json_opt JDate (expiresAt t)),
      (''completedAt'', json_opt JDate (completedAt t)),
      (''createdAt'', JDate (createdAt t)),
      (''updatedAt'', JDate (updatedAt t))]"

definition getStatus_handler :: "io \<Rightarrow> uuid \<Rightarrow> world \<Rightarrow> exn + (string \<times> json) list" where
  "getStatus_handler v i w =
     (case getStatus v i w of
        Inl e \<Rightarrow> Inl e
      | Inr t \<Rightarrow> Inr (filter (\<lambda>(k, _). k \<noteq> ''callbackToken'') (task_fields t)))"

lemmas service_defs [handler_defs] =
  create_def create_steps_def release_if_keyed_def commit_if_keyed_def getStatus_def cancel_def

section \<open>What the steps leave alone\<close>

lemma release_if_keyed_frame [simp]:
  "tasks (release_if_keyed v key w) = tasks w"
  "task_events (release_if_keyed v key w) = task_events w"
  "bull (release_if_keyed v key w) = bull w"
  "published (release_if_keyed v key w) = published w"
  "findById i (release_if_keyed v key w) = findById i w"
  "db_inv (release_if_keyed v key w) = db_inv w"
  by (cases v; simp add: release_if_keyed_def release_slot_def split: option.split)+

lemma commit_if_keyed_frame [simp]:
  "tasks (commit_if_keyed v now key i w) = tasks w"
  "task_events (commit_if_keyed v now key i w) = task_events w"
  "bull (commit_if_keyed v now key i w) = bull w"
  "published (commit_if_keyed v now key i w) = published w"
  "findById j (commit_if_keyed v now key i w) = findById j w"
  "db_inv (commit_if_keyed v now key i w) = db_inv w"
  by (cases v; simp add: commit_if_keyed_def commit_slot_def split: option.split)+

lemma occupy_slot_frame [simp]:
  "tasks (snd (occupy_slot t k ttl w)) = tasks w"
  "bull (snd (occupy_slot t k ttl w)) = bull w"
  "findById i (snd (occupy_slot t k ttl w)) = findById i w"
  "db_inv (snd (occupy_slot t k ttl w)) = db_inv w"
  by (simp_all add: occupy_slot_def split: prod.split)

lemma occupy_slot_Free:
  assumes "state_at t (slot_lease k (redis w)) = Free"
  shows "\<exists>m. occupy_slot t k ttl w = (Inr Acquired, w\<lparr>redis := m\<rparr>)
           \<and> slot_lease k m = (Held, Some (t + ttl * 1000))"
  using slots.occ_free [OF assms, of ttl] by (auto simp: occupy_slot_def split: prod.split)

section \<open>Every request keeps the database invariant\<close>

lemma create_steps_inv [inv_intros]:
  assumes "db_inv w"
  shows "db_inv (snd (create_steps env io dto b w))"
proof -
  obtain r w1 where ins:
    "io_call (io_insert io) (tasks_insert (ce_id env) (ce_dbnow env) (create_values env dto)) w = (r, w1)"
    by fastforce
  have "db_inv (snd (io_call (io_insert io)
      (tasks_insert (ce_id env) (ce_dbnow env) (create_values env dto)) w))"
    using assms by (intro inv_intros)
  then have w1: "db_inv w1" by (simp add: ins)
  have del: "db_inv (snd (io_call v (deleteById i) w2))" if "db_inv w2" for v i and w2 :: world
    using that by (intro inv_intros)
  show ?thesis
    using w1 del by (auto simp: create_steps_def ins split: sum.split prod.split)
      (metis enqueue_job_frame(6) snd_conv)+
qed

lemma create_inv [inv_intros]: "db_inv w \<Longrightarrow> db_inv (snd (create env io dto b w))"
proof -
  assume inv: "db_inv w"
  have "db_inv (snd (io_call v (occupy_slot t k ttl) w))" for v t k ttl
    using inv by (intro inv_intros)
  then show ?thesis
    using inv create_steps_inv
    by (auto simp: create_def split: option.split prod.split sum.split occupy_result.split)
      (metis snd_conv)+
qed

section \<open>Creation: success, clean-up, retries\<close>

text \<open>A request to apply the properties to.\<close>

definition sample_env :: create_env where
  "sample_env = \<lparr>ce_now = 10, ce_dbnow = 11, ce_occupy = 5, ce_commit = 12, ce_id = ''new'', ce_token = ''secret''\<rparr>"

definition sample_dto :: create_task_dto where
  "sample_dto =
     \<lparr>dto_type = ''echo'', dto_payload = None, dto_executorUrl = ''http://e'', dto_cancelUrl = None,
      dto_webhookUrl = None, dto_timeoutSeconds = 60, dto_idempotencyKey = Some ''k''\<rparr>"

lemmas sample_request_defs = sample_env_def sample_dto_def

definition created_row :: "create_env \<Rightarrow> create_task_dto \<Rightarrow> task" where
  "created_row env dto = row_of_insert (ce_id env) (ce_dbnow env) (create_values env dto)"

lemma created_row_simps [simp]:
  "task_id (created_row env dto) = ce_id env"
  "idempotencyKey (created_row env dto) = dto_idempotencyKey dto"
  "status (created_row env dto) = PENDING"
  "timeoutSeconds (created_row env dto) = dto_timeoutSeconds dto"
  "expiresAt (created_row env dto) = Some (ce_now env + dto_timeoutSeconds dto * 1000)"
  "callbackToken (created_row env dto) = Some (ce_token env)"
  "processingStartedAt (created_row env dto) = None"
  "completedAt (created_row env dto) = None"
  "webhookUrl (created_row env dto) = dto_webhookUrl dto"
  "cancelUrl (created_row env dto) = dto_cancelUrl dto"
  "payload (created_row env dto) = or_default (dto_payload dto) (JObj [])"
  by (simp_all add: created_row_def row_of_insert_def create_values_def)

lemma created_row_full:
  "created_row env dto =
     \<lparr> task_id = ce_id env, idempotencyKey = dto_idempotencyKey dto, status = PENDING,
       task_type = dto_type dto, payload = or_default (dto_payload dto) (JObj []),
       executorUrl = dto_executorUrl dto, callbackToken = Some (ce_token env),
       webhookUrl = dto_webhookUrl dto, cancelUrl = dto_cancelUrl dto, result = None, error = None,
       progress = 0, timeoutSeconds = dto_timeoutSeconds dto, processingStartedAt = None,
       expiresAt = Some (ce_now env + dto_timeoutSeconds dto * 1000), completedAt = None,
       createdAt = ce_dbnow env, updatedAt = ce_dbnow env \<rparr>"
  by (simp add: created_row_def row_of_insert_def create_values_def)

text \<open>The insert of a creation fails only on a null payload, a taken identifier or a taken key.\<close>

lemma or_default_null [simp]: "or_default x (JObj kvs) = JNull \<longleftrightarrow> x = Some JNull"
  by (cases x) (simp_all add: or_default_def)

definition key_taken :: "string option \<Rightarrow> task list \<Rightarrow> bool" where
  "key_taken key rows \<longleftrightarrow> (case key of None \<Rightarrow> False | Some k \<Rightarrow> k \<in> set (indexed_keys rows))"

lemma insert_created:
  assumes "db_inv w"
  shows "tasks_insert (ce_id env) (ce_dbnow env) (create_values env dto) w =
    (if dto_payload dto = Some JNull
     then (Inl (SqlError (NotNullViolation ''payload'')), w)
     else if ce_id env \<in> task_id ` set (tasks w)
     then (Inl (SqlError (PrimaryKeyViolation ''tasks_pkey'')), w)
     else if key_taken (dto_idempotencyKey dto) (tasks w)
     then (Inl (SqlError (UniqueViolation ''tasks_idempotency_key_idx'')), w)
     else (Inr (created_row env dto), w\<lparr>tasks := tasks w @ [created_row env dto]\<rparr>))"
proof -
  have "tasks_valid_state_data (created_row env dto)" by (simp add: tasks_valid_state_data_def)
  moreover have "tasks_idempotency_key_idx (tasks w @ [created_row env dto]) \<longleftrightarrow>
      \<not> key_taken (dto_idempotencyKey dto) (tasks w)"
    using db_invD(1) [OF assms]
    by (auto simp: tasks_wf_def tasks_idempotency_key_idx_def key_taken_def split: option.split)
  ultimately show ?thesis
    by (simp add: tasks_insert_def tasks_insert_row_def created_row_def [symmetric] Let_def)
qed

lemma delete_created:
  assumes "ce_id env \<notin> task_id ` set rows"
  shows "delete_where (\<lambda>t. task_id t = ce_id env) (rows @ [created_row env dto]) = rows"
  using assms by (fastforce simp: delete_where_def filter_id_conv image_iff)

lemma create_steps_done:
  assumes "db_inv w" and "ce_id env \<notin> task_id ` set (tasks w)"
    and "\<not> key_taken (dto_idempotencyKey dto) (tasks w)" and "dto_payload dto \<noteq> Some JNull"
  shows "create_steps env all_done dto b w =
    (Inr (buildResponse (ce_id env) b),
     commit_if_keyed Done (ce_commit env) (dto_idempotencyKey dto) (ce_id env)
       (w\<lparr>tasks := tasks w @ [created_row env dto],
          bull := snd (enqueue Done DISPATCH_QUEUE (dispatch_job (created_row env dto))
                     (no_options\<lparr>opt_attempts := Some 1\<rparr>) (bull w))\<rparr>))"
  using assms by (simp add: create_steps_def insert_created enqueue_job_Done)

text \<open>The slot requirement of a creation: nothing without a key, a free slot with one.\<close>

definition slot_ready :: "time \<Rightarrow> string option \<Rightarrow> redis_keys \<Rightarrow> bool" where
  "slot_ready t key m \<longleftrightarrow>
     (case key of None \<Rightarrow> True | Some k \<Rightarrow> k \<noteq> [] \<longrightarrow> state_at t (slot_lease k m) = Free)"

text \<open>With the slot ready, creation is its steps 2 to 4 in a world whose slot is held.\<close>

lemma create_ready:
  assumes "slot_ready (ce_occupy env) (dto_idempotencyKey dto) (redis w)" and "io_occupy io = Done"
  shows "\<exists>m. create env io dto b w = create_steps env io dto b (w\<lparr>redis := m\<rparr>) \<and>
    (\<forall>k. dto_idempotencyKey dto = Some k \<longrightarrow> k \<noteq> [] \<longrightarrow>
       slot_lease k m = (Held, Some (ce_occupy env + IDEMPOTENCY_TTL_SECONDS * 1000)))"
proof (cases "\<exists>k. dto_idempotencyKey dto = Some k \<and> k \<noteq> []")
  case True
  then obtain k where k: "dto_idempotencyKey dto = Some k" "k \<noteq> []" by auto
  with assms(1) have "state_at (ce_occupy env) (slot_lease k (redis w)) = Free"
    by (simp add: slot_ready_def)
  from occupy_slot_Free [OF this, of IDEMPOTENCY_TTL_SECONDS] k show ?thesis
    by (fastforce simp: create_def assms(2))
next
  case False
  then have "create env io dto b w = create_steps env io dto b (w\<lparr>redis := redis w\<rparr>)"
    by (auto simp: create_def split: option.split)
  with False show ?thesis by blast
qed

lemma commit_if_keyed_lease:
  assumes "k \<noteq> []" and "storable_id i" and "slot_lease k (redis w) = (Held, Some e)" and "t < e"
  shows "slot_lease k (redis (commit_if_keyed Done t (Some k) i w)) = (Committed i, Some e)"
  using slots.com_lease [OF assms(2), of k t "redis w"] assms
  by (simp add: commit_if_keyed_def commit_slot_def state_at_def)

text \<open>
  C19: When every external call succeeds, the generated identifier and the key are unused, the
  idempotency slot is free (or no key is given) and the payload is not the JSON \<open>null\<close>, \<open>create\<close> answers with the new task's URLs, stores
  exactly the requested row as \<open>PENDING\<close> with its initial deadline, leaves every other task as it
  was, and puts exactly one dispatch job, with a single attempt, on the dispatch queue.
\<close>

theorem create_accepts:
  assumes "db_inv w" and "slot_ready (ce_occupy env) (dto_idempotencyKey dto) (redis w)"
    and "ce_id env \<notin> task_id ` set (tasks w)" and "\<not> key_taken (dto_idempotencyKey dto) (tasks w)"
    and "dto_payload dto \<noteq> Some JNull"
  shows "\<exists>w'. create env all_done dto b w =
        (Inr \<lparr>taskId = ce_id env, statusUrl = b @ ''/tasks/'' @ ce_id env,
              streamUrl = b @ ''/tasks/'' @ ce_id env @ ''/stream''\<rparr>, w')
    \<and> findById (ce_id env) w' = Some
        \<lparr> task_id = ce_id env, idempotencyKey = dto_idempotencyKey dto, status = PENDING,
          task_type = dto_type dto, payload = or_default (dto_payload dto) (JObj []),
          executorUrl = dto_executorUrl dto, callbackToken = Some (ce_token env),
          webhookUrl = dto_webhookUrl dto, cancelUrl = dto_cancelUrl dto, result = None, error = None,
          progress = 0, timeoutSeconds = dto_timeoutSeconds dto, processingStartedAt = None,
          expiresAt = Some (ce_now env + dto_timeoutSeconds dto * 1000), completedAt = None,
          createdAt = ce_dbnow env, updatedAt = ce_dbnow env \<rparr>
    \<and> (\<forall>j. j \<noteq> ce_id env \<longrightarrow> findById j w' = findById j w)
    \<and> jobs ''dispatch'' w' = jobs ''dispatch'' w @
        [\<lparr>bj_name = ''dispatch'', bj_data = DispatchJobData (ce_id env) (dto_timeoutSeconds dto),
          bj_priority = None, bj_delay = None, bj_attempts = 1, bj_backoff = None\<rparr>]
    \<and> task_events w' = task_events w"
proof -
  obtain m where c: "create env all_done dto b w = create_steps env all_done dto b (w\<lparr>redis := m\<rparr>)"
    using create_ready [OF assms(2), of all_done b] by auto
  show ?thesis
    unfolding created_row_full [symmetric] buildResponse_def [symmetric]
    using assms(1,3-5)
    by (auto simp: c create_steps_done findById_def find_row_snoc bull.enq_own
        DISPATCH_QUEUE_def dispatch_job_def stored_job_def no_options_def)
qed

theorem create_accepts_witness:
  "\<exists>w'. create sample_env all_done sample_dto ''http://p'' (sample_world []) =
     (Inr \<lparr>taskId = ''new'', statusUrl = ''http://p/tasks/new'', streamUrl = ''http://p/tasks/new/stream''\<rparr>, w')"
  using create_accepts [of "sample_world []" sample_env sample_dto "''http://p''"]
  by (auto simp: sample_request_defs slot_ready_def slot_lease_def state_at_def key_taken_def)

text \<open>
  A payload that is the JSON \<open>null\<close>, should the schema derived from the table let it through, is no value of the
  column: the insert is rejected, whatever the key, and nothing is stored or enqueued.
\<close>

lemma create_null_payload:
  assumes "db_inv w" and "slot_ready (ce_occupy env) (dto_idempotencyKey dto) (redis w)" and "dto_payload dto = Some JNull"
  shows "\<exists>w'. create env all_done dto b w = (Inl (SqlError (NotNullViolation ''payload'')), w')
    \<and> tasks w' = tasks w \<and> bull w' = bull w"
proof -
  obtain m where "create env all_done dto b w = create_steps env all_done dto b (w\<lparr>redis := m\<rparr>)"
    using create_ready [OF assms(2), of all_done b] by auto
  then show ?thesis
    using assms(1,3)
    by (auto simp: create_steps_def insert_created release_if_keyed_def release_slot_def split: option.split)
qed

text \<open>
  C20: When creation fails although the slot was free, and the calls that clean up succeed and the
  insert's answer was not lost, nothing of the attempt remains: the table holds exactly the old
  rows and the idempotency slot is free at every later time, so that a retry starts clean. This
  covers a rejected insert and a rejected enqueue, also one whose job was stored nevertheless.
\<close>

theorem create_failure_cleans_up:
  assumes "db_inv w" and "create env io dto b w = (Inl e, w')"
    and "slot_ready (ce_occupy env) (dto_idempotencyKey dto) (redis w)"
    and "io_occupy io = Done" and "io_insert io \<noteq> Fail_After"
    and "io_delete io = Done" and "io_release io = Done"
  shows "tasks w' = tasks w \<and> task_events w' = task_events w \<and>
    (\<forall>k t. dto_idempotencyKey dto = Some k \<and> k \<noteq> [] \<longrightarrow> state_at t (slot_lease k (redis w')) = Free)"
proof -
  obtain m where c: "create_steps env io dto b (w\<lparr>redis := m\<rparr>) = (Inl e, w')"
    using create_ready [OF assms(3,4), of b] assms(2) by auto
  have freed: "state_at t (slot_lease k (redis (release_if_keyed Done (dto_idempotencyKey dto) v))) = Free"
    if "dto_idempotencyKey dto = Some k \<and> k \<noteq> []" for k t v
    using that slots.rel_lease [of k "redis v"]
    by (auto simp: release_if_keyed_def release_slot_def state_at_def)
  show ?thesis
  proof (cases "fst (io_call (io_insert io)
      (tasks_insert (ce_id env) (ce_dbnow env) (create_values env dto)) (w\<lparr>redis := m\<rparr>))")
    case (Inl e1)
    then have "w' = release_if_keyed Done (dto_idempotencyKey dto) (w\<lparr>redis := m\<rparr>)"
      using c assms(1,5,7)
      by (cases "io_insert io") (auto simp: create_steps_def insert_created split: if_splits)
    then show ?thesis using freed by simp
  next
    case (Inr t1)
    let ?w1 = "w\<lparr>redis := m, tasks := tasks w @ [created_row env dto]\<rparr>"
    from Inr have ins: "io_insert io = Done" "ce_id env \<notin> task_id ` set (tasks w)"
      "\<not> key_taken (dto_idempotencyKey dto) (tasks w)" "dto_payload dto \<noteq> Some JNull"
      using assms(1) by (cases "io_insert io"; auto simp: insert_created split: if_splits)+
    obtain x w2 where q: "enqueue_job (io_enqueue io) DISPATCH_QUEUE (dispatch_job (created_row env dto))
        (no_options\<lparr>opt_attempts := Some 1\<rparr>) ?w1 = (x, w2)" by fastforce
    have w2: "tasks w2 = tasks ?w1" "task_events w2 = task_events w"
      using enqueue_job_frame(1,2) [of "io_enqueue io" DISPATCH_QUEUE "dispatch_job (created_row env dto)"
          "no_options\<lparr>opt_attempts := Some 1\<rparr>" ?w1] by (simp_all add: q)
    have "w' = release_if_keyed Done (dto_idempotencyKey dto) (snd (deleteById (ce_id env) w2))"
      using c ins assms(1,6,7) q by (cases x) (auto simp: create_steps_def insert_created)
    then show ?thesis
      using freed w2 delete_created [OF ins(2)] by (simp add: deleteById_def)
  qed
qed

theorem create_failure_cleans_up_witness:
  "tasks (snd (create sample_env (all_done\<lparr>io_enqueue := Fail_After\<rparr>) sample_dto ''http://p'' (sample_world []))) = []"
proof -
  let ?io = "all_done\<lparr>io_enqueue := Fail_After\<rparr>"
  have ready: "slot_ready (ce_occupy sample_env) (dto_idempotencyKey sample_dto) (redis (sample_world []))"
    by (simp add: sample_request_defs slot_ready_def slot_lease_def state_at_def)
  obtain m where "create sample_env ?io sample_dto ''http://p'' (sample_world []) =
      create_steps sample_env ?io sample_dto ''http://p'' ((sample_world [])\<lparr>redis := m\<rparr>)"
    using create_ready [OF ready, of ?io "''http://p''"] by auto
  moreover have "\<exists>e. fst (create_steps sample_env ?io sample_dto ''http://p'' w) = Inl e" for w
  proof -
    have "fst (enqueue_job Fail_After q j opts v) = Inl InfraError" for q j opts v
      by (rule enqueue_job_fails) simp
    then show ?thesis
      by (auto simp: create_steps_def split: sum.split prod.split) (metis fst_conv sum.distinct(1))+
  qed
  ultimately obtain e w' where c: "create sample_env ?io sample_dto ''http://p'' (sample_world []) = (Inl e, w')"
    by (metis prod.collapse)
  show ?thesis using create_failure_cleans_up [OF db_inv_sample_row(2) c ready] by (simp add: c)
qed

text \<open>
  C12: Exactly-once creation under retries. After a successful creation with a key, committed
  within the lease, every later request with the same key, while the 24 hours run, answers with
  the identifier of that task and changes nothing: no second row, no second dispatch job.
\<close>

theorem create_retry_same_task:
  assumes "db_inv w" and "dto_idempotencyKey dto = Some k" and "k \<noteq> []" and "storable_id (ce_id env)"
    and "slot_ready (ce_occupy env) (Some k) (redis w)"
    and "ce_id env \<notin> task_id ` set (tasks w)" and "\<not> key_taken (Some k) (tasks w)"
    and "create env all_done dto b w = (Inr r, w1)"
    and "ce_commit env < ce_occupy env + IDEMPOTENCY_TTL_SECONDS * 1000"
    and "ce_occupy env2 < ce_occupy env + IDEMPOTENCY_TTL_SECONDS * 1000"
    and "dto_idempotencyKey dto2 = Some k" and "io_occupy io2 = Done"
  shows "taskId r = ce_id env \<and> create env2 io2 dto2 b2 w1 = (Inr (buildResponse (ce_id env) b2), w1)"
proof -
  let ?e = "ce_occupy env + IDEMPOTENCY_TTL_SECONDS * 1000"
  obtain m where m: "create env all_done dto b w = create_steps env all_done dto b (w\<lparr>redis := m\<rparr>)"
    "slot_lease k m = (Held, Some ?e)"
    using create_ready [of env dto w all_done b] assms(2,3,5) by auto
  have "dto_payload dto \<noteq> Some JNull"
    using assms(1,8) m(1) by (auto simp: create_steps_def insert_created)
  then have r: "r = buildResponse (ce_id env) b" and
    lease: "slot_lease k (redis w1) = (Committed (ce_id env), Some ?e)"
    using assms(1-4,6-9) m by (auto simp: create_steps_done commit_if_keyed_lease)
  have "occupySlot (ce_occupy env2) k IDEMPOTENCY_TTL_SECONDS (redis w1) =
      (Duplicate (ce_id env), redis w1)"
    using lease assms(10) by (intro slots.occ_committed) (simp add: state_at_def)
  then show ?thesis
    using assms(3,11,12) by (simp add: r create_def buildResponse_def occupy_slot_def)
qed

theorem create_retry_same_task_witness:
  "\<exists>w1. create (sample_env\<lparr>ce_occupy := 1000, ce_id := ''other''\<rparr>) all_done sample_dto ''http://q'' w1 =
     (Inr (buildResponse ''new'' ''http://q''), w1)"
proof -
  let ?w = "sample_world []"
  have ready: "slot_ready (ce_occupy sample_env) (Some ''k'') (redis ?w)"
    by (simp add: sample_request_defs slot_ready_def slot_lease_def state_at_def)
  obtain m where "create sample_env all_done sample_dto ''http://p'' ?w = create_steps sample_env all_done sample_dto ''http://p'' (?w\<lparr>redis := m\<rparr>)"
    using create_ready [of sample_env sample_dto ?w all_done "''http://p''"] ready by (auto simp: sample_dto_def)
  then obtain r w1 where c: "create sample_env all_done sample_dto ''http://p'' ?w = (Inr r, w1)"
    by (simp add: create_steps_done sample_request_defs key_taken_def)
  show ?thesis
    using create_retry_same_task [OF db_inv_sample_row(2) _ _ _ ready _ _ c,
        of "sample_env\<lparr>ce_occupy := 1000, ce_id := ''other''\<rparr>" sample_dto all_done "''http://q''"]
    by (auto simp: sample_request_defs storable_id_def PENDING_SENTINEL_def key_taken_def IDEMPOTENCY_TTL_SECONDS_def)
qed

text \<open>
  While a creation with the same key is in flight (the slot is held and its lease runs), a
  request with that key is answered 409 and changes nothing.
\<close>

lemma create_conflict_while_in_flight:
  assumes "dto_idempotencyKey dto = Some k" and "k \<noteq> []" and "io_occupy io = Done"
    and "state_at (ce_occupy env) (slot_lease k (redis w)) = Held"
  shows "create env io dto b w =
    (Inl (ConflictException
       ''A task with this idempotency key is currently being created. Retry in a moment.''), w)"
  using assms slots.occ_held [OF assms(4), of IDEMPOTENCY_TTL_SECONDS]
  by (simp add: create_def occupy_slot_def)

text \<open>
  A key that is still stored in the \<open>tasks\<close> table cannot be used again, whatever the state of
  the idempotency slot: with a free slot (in particular after its 24 hours) and with the empty key,
  which no slot protects, creation fails with the unique violation and adds no row. The slot's
  lifetime, not the key's, is what the documentation promises.
\<close>

theorem create_stored_key_rejected:
  assumes "db_inv w" and "dto_idempotencyKey dto = Some k" and "k \<in> set (indexed_keys (tasks w))"
    and "slot_ready (ce_occupy env) (Some k) (redis w)" and "ce_id env \<notin> task_id ` set (tasks w)"
    and "dto_payload dto \<noteq> Some JNull"
  shows "\<exists>w'. create env all_done dto b w =
      (Inl (SqlError (UniqueViolation ''tasks_idempotency_key_idx'')), w') \<and> tasks w' = tasks w"
proof -
  obtain m where "create env all_done dto b w = create_steps env all_done dto b (w\<lparr>redis := m\<rparr>)"
    using create_ready [of env dto w all_done b] assms(2,4) by auto
  then show ?thesis
    using assms(1,2,3,5,6) by (simp add: create_steps_def insert_created key_taken_def)
qed

theorem create_stored_key_rejected_witness:
  "\<exists>w'. create sample_env all_done sample_dto ''http://p'' (sample_world [(sample_row ''old'' COMPLETED)\<lparr>idempotencyKey := Some ''k''\<rparr>]) =
     (Inl (SqlError (UniqueViolation ''tasks_idempotency_key_idx'')), w')"
proof -
  let ?row = "(sample_row ''old'' COMPLETED)\<lparr>idempotencyKey := Some ''k''\<rparr>"
  have "tasks_valid_state_data ?row" by (simp add: tasks_valid_state_data_def sample_row_def)
  then have "db_inv (sample_world [?row])"
    by (simp add: db_inv_sample tasks_wf_def tasks_idempotency_key_idx_def)
  then show ?thesis
    using create_stored_key_rejected [of "sample_world [?row]" sample_dto "''k''" sample_env "''http://p''"]
    by (auto simp: sample_request_defs slot_ready_def slot_lease_def state_at_def)
qed

section \<open>Cancellation\<close>

lemma cancel_inv [inv_intros]: "db_inv w \<Longrightarrow> db_inv (snd (cancel env io i w))"
proof -
  assume inv: "db_inv w"
  obtain r w1 where c: "io_call (io_cancel io)
      (cancelTask (cn_now env) (cn_upd env) (cn_eid env) (cn_dbnow env) (db_uuid i)) w = (r, w1)" by fastforce
  have "db_inv (snd (io_call (io_cancel io)
      (cancelTask (cn_now env) (cn_upd env) (cn_eid env) (cn_dbnow env) (db_uuid i)) w))"
    using inv by (intro inv_intros)
  then have w1: "db_inv w1" by (simp add: c)
  have "db_inv (snd (io_call v (find_task (db_uuid i)) w1))" for v using w1 by (intro inv_intros)
  moreover have "db_inv (snd (io_call v (publish_event i ev) w1))" for v ev using w1 by (intro inv_intros)
  ultimately show ?thesis
    using w1 by (auto simp: cancel_def c split: sum.split prod.split option.split) (metis snd_conv)+
qed

definition cancel_ok :: cancel_io where
  "cancel_ok = \<lparr>io_cancel = Done, io_find = Done, io_publish = Done, io_cancel_enqueue = Done\<rparr>"

lemma cancel_ok_simps [simp]:
  "io_cancel cancel_ok = Done" "io_find cancel_ok = Done" "io_publish cancel_ok = Done"
  "io_cancel_enqueue cancel_ok = Done"
  by (simp_all add: cancel_ok_def)

definition cancelled_row :: "cancel_env \<Rightarrow> task \<Rightarrow> task" where
  "cancelled_row env t =
     t\<lparr>status := CANCELLED, completedAt := Some (cn_now env), updatedAt := cn_upd env\<rparr>"

lemma cancel_set_status:
  "set_status (cn_upd env) CANCELLED (no_patch\<lparr>set_completedAt := Some (Some (cn_now env))\<rparr>) t =
     cancelled_row env t"
  by (simp add: set_status_def apply_patch_def no_patch_def cancelled_row_def)

lemma cancelTask_active:
  assumes "db_inv w" and "findById i w = Some t" and "active (status t)"
    and "insertEventInTx (cn_eid env) (cn_dbnow env) (CancelledEventInput i) (task_events w) = Inr (ev, evs)"
  shows "cancelTask (cn_now env) (cn_upd env) (cn_eid env) (cn_dbnow env) i w =
    (Inr (Some (cancelled_row env t, ev)),
     w\<lparr>tasks := update_where (\<lambda>t. task_id t = i \<and> active (status t)) (cancelled_row env) (tasks w),
       task_events := evs\<rparr>)"
proof -
  have "set_status (cn_upd env) CANCELLED (no_patch\<lparr>set_completedAt := Some (Some (cn_now env))\<rparr>) =
      cancelled_row env" by (rule ext) (rule cancel_set_status)
  with assms show ?thesis by (simp add: cancelTask_eq Let_def)
qed

lemma cancel_hit:
  assumes "db_inv w" and "findById (db_uuid s) w = Some t" and "active (status t)"
    and "cn_eid env \<notin> ev_id ` set (task_events w)"
  shows "\<exists>w' ev. cancel env cancel_ok s w = (Inr (), w')
    \<and> findById (db_uuid s) w' = Some (cancelled_row env t)
    \<and> (\<forall>j. j \<noteq> db_uuid s \<longrightarrow> findById j w' = findById j w)
    \<and> eventType ev = EvCancelled \<and> ev_taskId ev = db_uuid s
    \<and> task_log (task_events w') (db_uuid s) = task_log (task_events w) (db_uuid s) @ [ev]
    \<and> published w' = published w @ [(''task:'' @ s, ev)]
    \<and> jobs ''cancel'' w' = jobs ''cancel'' w @
        (if truthy (cancelUrl t)
         then [stored_job \<lparr>job_name = ''cancel'', job_data = TaskJobData s\<rparr> no_options] else [])"
proof -
  let ?i = "db_uuid s"
  obtain ev where ins: "insertEventInTx (cn_eid env) (cn_dbnow env) (CancelledEventInput ?i) (task_events w)
      = Inr (ev, task_events w @ [ev])"
    using insertEventInTx_total assms(1,4) by (metis db_invD(2) events_wf_def)
  let ?rows = "update_where (\<lambda>t. task_id t = ?i \<and> active (status t)) (cancelled_row env) (tasks w)"
  have ev: "eventType ev = EvCancelled" "ev_taskId ev = ?i" using ins by (auto simp: insertEventInTx_Inr)
  have log: "task_log (task_events w @ [ev]) ?i = task_log (task_events w) ?i @ [ev]"
    using task_log_append [OF ins, of ?i] by simp
  have keys: "keeps_keys (cancelled_row env)" by (simp add: keeps_keys_def cancelled_row_def)
  have row: "findById j (w\<lparr>tasks := ?rows\<rparr>) = (if j = ?i then Some (cancelled_row env t) else findById j w)"
    for j
    using assms(2,3) findById_valid [OF assms(1), of j] keys
    by (cases "findById j w") (auto simp: findById_update_where)
  have find: "findById j (w\<lparr>tasks := ?rows, task_events := es, published := ms\<rparr>) = findById j (w\<lparr>tasks := ?rows\<rparr>)"
    "findById j (w\<lparr>tasks := ?rows, task_events := es, published := ms, bull := q\<rparr>) = findById j (w\<lparr>tasks := ?rows\<rparr>)"
    for j es ms q by (simp_all add: findById_def)
  have url: "cancelUrl (cancelled_row env t) = cancelUrl t" by (simp add: cancelled_row_def)
  show ?thesis
    using ev log
    by (cases "truthy (cancelUrl t)")
      (auto simp: cancel_def cancelTask_active [OF assms(1-3) ins] publish_event_def url
        enqueue_job_Done task_channel_def find row bull.enq_own)
qed

text \<open>
  C31: Cancelling a \<open>PENDING\<close> or \<open>PROCESSING\<close> task, when the external calls succeed: the row becomes
  \<open>CANCELLED\<close> with its completion time and nothing else of it changes, every other task is
  untouched, one \<open>cancelled\<close> event is appended to the task's log and published on the channel of the
  identifier as it was sent, and a cancel job is enqueued exactly when the task has a cancel URL.
\<close>

theorem cancel_active_task:
  assumes "db_inv w" and "findById (db_uuid s) w = Some t" and "active (status t)"
    and "cn_eid env \<notin> ev_id ` set (task_events w)"
  shows "\<exists>w' ev. cancel env cancel_ok s w = (Inr (), w')
    \<and> findById (db_uuid s) w' = Some (cancelled_row env t)
    \<and> (\<forall>j. j \<noteq> db_uuid s \<longrightarrow> findById j w' = findById j w)
    \<and> eventType ev = EvCancelled \<and> ev_taskId ev = db_uuid s
    \<and> task_log (task_events w') (db_uuid s) = task_log (task_events w) (db_uuid s) @ [ev]
    \<and> published w' = published w @ [(''task:'' @ s, ev)]
    \<and> jobs ''cancel'' w' = jobs ''cancel'' w @
        (if truthy (cancelUrl t)
         then [stored_job \<lparr>job_name = ''cancel'', job_data = TaskJobData s\<rparr> no_options] else [])"
  using assms by (rule cancel_hit)

theorem cancel_active_task_witness:
  "\<exists>w'. cancel \<lparr>cn_now = 7, cn_upd = 8, cn_dbnow = 9, cn_eid = ''e''\<rparr> cancel_ok ''t'' (sample_world [sample_row ''t'' PROCESSING]) =
     (Inr (), w')"
  using cancel_active_task [of "sample_world [sample_row ''t'' PROCESSING]" "''t''" "sample_row ''t'' PROCESSING"
      "\<lparr>cn_now = 7, cn_upd = 8, cn_dbnow = 9, cn_eid = ''e''\<rparr>"]
  by (auto simp: db_uuid_def lower_ascii_def)

text \<open>
  A cancellation that cannot be done is answered with the right error and changes nothing:
  404 when there is no such task, 409 naming the current status when it is already terminal.
\<close>

theorem cancel_rejected:
  assumes "db_inv w" and "\<not> (\<exists>t. findById (db_uuid i) w = Some t \<and> active (status t))"
  shows "cancel env cancel_ok i w =
    (Inl (case findById (db_uuid i) w of
            None \<Rightarrow> NotFoundException (''Task '' @ i @ '' not found'')
          | Some t \<Rightarrow> ConflictException (''Task '' @ i @ '' cannot be cancelled in its current state ('' @
                        status_name (status t) @ '').'')), w)"
  using assms by (auto simp: cancel_def cancelTask_eq find_task_def split: option.split)

theorem cancel_rejected_witness:
  "cancel \<lparr>cn_now = 7, cn_upd = 8, cn_dbnow = 9, cn_eid = ''e''\<rparr> cancel_ok ''t'' (sample_world [sample_row ''t'' FAILED]) =
     (Inl (ConflictException ''Task t cannot be cancelled in its current state (FAILED).''),
      sample_world [sample_row ''t'' FAILED])"
  using cancel_rejected [of "sample_world [sample_row ''t'' FAILED]" "''t''" "\<lparr>cn_now = 7, cn_upd = 8, cn_dbnow = 9, cn_eid = ''e''\<rparr>"]
  by (simp add: status_name_def db_uuid_def lower_ascii_def)

section \<open>What the status endpoint shows\<close>

lemma findById_retoken:
  "findById i (w\<lparr>tasks := map (\<lambda>t. t\<lparr>callbackToken := tok (task_id t)\<rparr>) (tasks w)\<rparr>) =
     map_option (\<lambda>t. t\<lparr>callbackToken := tok (task_id t)\<rparr>) (findById i w)"
proof -
  have "find_row task_id i (map (\<lambda>t. t\<lparr>callbackToken := tok (task_id t)\<rparr>) rows) =
      map_option (\<lambda>t. t\<lparr>callbackToken := tok (task_id t)\<rparr>) (find_row task_id i rows)" for rows
    by (induction rows) (auto simp: find_row_def)
  then show ?thesis by (simp add: findById_def)
qed

text \<open>
  The status endpoint does not depend on the callback token: two databases that differ only in
  the token of the task give the same answer, and the answer has no such field, while every other
  column of the row is in it.
\<close>

theorem getStatus_hides_token:
  "getStatus_handler v i (w\<lparr>tasks := map (\<lambda>t. t\<lparr>callbackToken := tok (task_id t)\<rparr>) (tasks w)\<rparr>) =
     getStatus_handler v i w
   \<and> (getStatus_handler v i w = Inr flds \<longrightarrow>
        ''callbackToken'' \<notin> fst ` set flds \<and>
        (\<exists>t. findById (db_uuid i) w = Some t \<and> set (task_fields t) - set flds =
               {(''callbackToken'', json_opt JStr (callbackToken t))}))"
proof
  show "getStatus_handler v i (w\<lparr>tasks := map (\<lambda>t. t\<lparr>callbackToken := tok (task_id t)\<rparr>) (tasks w)\<rparr>) =
      getStatus_handler v i w"
    by (cases v; cases "findById (db_uuid i) w")
      (simp_all add: getStatus_handler_def getStatus_def find_task_def findById_retoken task_fields_def)
  show "getStatus_handler v i w = Inr flds \<longrightarrow>
        ''callbackToken'' \<notin> fst ` set flds \<and>
        (\<exists>t. findById (db_uuid i) w = Some t \<and> set (task_fields t) - set flds =
               {(''callbackToken'', json_opt JStr (callbackToken t))})"
  proof
    assume a: "getStatus_handler v i w = Inr flds"
    then obtain t where t: "findById (db_uuid i) w = Some t"
      and flds: "flds = filter (\<lambda>(k, _). k \<noteq> ''callbackToken'') (task_fields t)"
      by (cases v) (auto simp: getStatus_handler_def getStatus_def find_task_def split: option.splits)
    show "''callbackToken'' \<notin> fst ` set flds \<and>
        (\<exists>t. findById (db_uuid i) w = Some t \<and> set (task_fields t) - set flds =
               {(''callbackToken'', json_opt JStr (callbackToken t))})"
      using t by (auto simp: flds) (auto simp: task_fields_def)
  qed
qed

theorem getStatus_hides_token_witness:
  "\<exists>flds. getStatus_handler Done ''t'' (sample_world [sample_row ''t'' PROCESSING]) = Inr flds
     \<and> ''callbackToken'' \<notin> fst ` set flds"
  using getStatus_hides_token [where v = Done and i = "''t''" and w = "sample_world [sample_row ''t'' PROCESSING]"]
  by (auto simp: getStatus_handler_def getStatus_def find_task_def db_uuid_def lower_ascii_def)

end
