(* ===== verification/Auth.thy ===== *)
theory Auth
  imports Samples JsText "HOL-Library.Word"
begin

text \<open>
  The two guards: \<^verbatim>\<open>src/modules/executor/guards/callback-auth.guard.ts\<close> (the executor's bearer
  token) and \<^verbatim>\<open>src/common/guards/api-key.guard.ts\<close> (the client's API key). Both compare UTF-8
  bytes with \<open>timingSafeEqual\<close>, which throws on buffers of different lengths; one pads both sides,
  the other tests the lengths first. The interface \<open>byte_compare\<close> is what both comparisons promise:
  they never throw and decide equality.
\<close>

section \<open>Buffers\<close>

text \<open>
  \<open>Buffer.from(s)\<close>: the UTF-8 bytes of a string. Header values reach the code as Latin-1 text, so
  characters have codes below 256 and take one or two bytes.
\<close>

definition utf8_char :: "char \<Rightarrow> 8 word list" where
  "utf8_char c =
     (let n = of_char c :: nat
      in if n < 128 then [word_of_nat n]
         else [word_of_nat (192 + n div 64), word_of_nat (128 + n mod 64)])"

definition Buffer_from :: "string \<Rightarrow> 8 word list" where
  "Buffer_from s = concat (map utf8_char s)"

definition Buffer_alloc :: "nat \<Rightarrow> 8 word list" where
  "Buffer_alloc n = replicate n 0"

text \<open>\<open>src.copy(dst)\<close>: as many bytes as fit, at the start of the target.\<close>

definition Buffer_copy :: "8 word list \<Rightarrow> 8 word list \<Rightarrow> 8 word list" where
  "Buffer_copy src dst = take (length dst) src @ drop (length src) dst"

definition timingSafeEqual :: "8 word list \<Rightarrow> 8 word list \<Rightarrow> exn + bool" where
  "timingSafeEqual a b =
     (if length a \<noteq> length b then Inl (PlainError ''ERR_CRYPTO_TIMING_SAFE_EQUAL_LENGTH'')
      else Inr (a = b))"

section \<open>Header text\<close>

text \<open>\<open>s.replace(/^Bearer\s+/i, '')\<close>.\<close>

definition strip_bearer :: "string \<Rightarrow> string" where
  "strip_bearer s =
     (if map lower_ascii (take 6 s) = ''bearer'' \<and> takeWhile js_space (drop 6 s) \<noteq> []
      then dropWhile js_space (drop 6 s) else s)"

record http_request =
  hdr_xApiKey :: "string option"
  hdr_authorization :: "string option"
  param_id :: "string option"

section \<open>Callback token guard\<close>

definition extractBearerToken :: "http_request \<Rightarrow> string option" where
  "extractBearerToken req =
     (case hdr_authorization req of
        None \<Rightarrow> None
      | Some auth \<Rightarrow>
          if \<not> startsWith ''Bearer '' auth then None
          else let token = js_trim (drop 7 auth) in if length token > 0 then Some token else None)"

definition padded_equal :: "8 word list \<Rightarrow> 8 word list \<Rightarrow> exn + bool" where
  "padded_equal providedBuf storedBuf =
     (let maxLen = max (length providedBuf) (length storedBuf);
          a = Buffer_copy providedBuf (Buffer_alloc maxLen);
          b = Buffer_copy storedBuf (Buffer_alloc maxLen)
      in case timingSafeEqual a b of
           Inl e \<Rightarrow> Inl e
         | Inr eq \<Rightarrow> Inr (eq \<and> length providedBuf = length storedBuf))"

definition validateToken :: "string \<Rightarrow> string option \<Rightarrow> string \<Rightarrow> exn + unit" where
  "validateToken provided stored tid =
     (case stored of
        None \<Rightarrow> Inl (UnauthorizedException (''Task '' @ tid @ '' has no callback token configured''))
      | Some s \<Rightarrow>
          if s = [] then Inl (UnauthorizedException (''Task '' @ tid @ '' has no callback token configured''))
          else (case padded_equal (Buffer_from provided) (Buffer_from s) of
                  Inl e \<Rightarrow> Inl e
                | Inr match \<Rightarrow>
                    if match then Inr () else Inl (UnauthorizedException ''Invalid callback token'')))"

text \<open>
  Guards run before pipes, so the path parameter is not yet known to be a UUID here: \<open>uuid_in\<close> is
  PostgreSQL's reading of a UUID literal (its canonical text, or nothing for a malformed one, which
  the database rejects). The result is the task attached to the request.
\<close>

definition callback_canActivate ::
  "(string \<Rightarrow> uuid option) \<Rightarrow> io \<Rightarrow> http_request \<Rightarrow> 'a db_scheme \<Rightarrow> exn + task" where
  "callback_canActivate uuid_in v req w =
     (case extractBearerToken req of
        None \<Rightarrow> Inl (UnauthorizedException ''Bearer token is required'')
      | Some token \<Rightarrow>
          (case param_id req of
             None \<Rightarrow> Inl (NotFoundException ''Task not found'')
           | Some tid \<Rightarrow>
               if tid = [] then Inl (NotFoundException ''Task not found'')
               else if v \<noteq> Done then Inl InfraError
               else (case uuid_in tid of
                  None \<Rightarrow> Inl (SqlError (InvalidTextRepresentation ''uuid''))
                | Some i \<Rightarrow>
                    (case findById i w of
                       None \<Rightarrow> Inl (NotFoundException ''Task not found'')
                     | Some t \<Rightarrow>
                         (case validateToken token (callbackToken t) tid of
                            Inl e \<Rightarrow> Inl e
                          | Inr _ \<Rightarrow>
                              if status t \<noteq> PROCESSING
                              then Inl (ConflictException (''Task '' @ tid @
                                     '' is not in PROCESSING state (current: '' @ status_name (status t) @ '')''))
                              else Inr t)))))"

section \<open>API key guard\<close>

definition guarded_equal :: "8 word list \<Rightarrow> 8 word list \<Rightarrow> exn + bool" where
  "guarded_equal expectedBuf providedBuf =
     (if length expectedBuf \<noteq> length providedBuf then Inr False
      else timingSafeEqual expectedBuf providedBuf)"

definition expectedKeyBuffer :: "string option \<Rightarrow> 8 word list option" where
  "expectedKeyBuffer key =
     (case key of None \<Rightarrow> None | Some k \<Rightarrow> if k = [] then None else Some (Buffer_from k))"

definition providedKey :: "http_request \<Rightarrow> string option" where
  "providedKey req =
     (case hdr_xApiKey req of
        Some k \<Rightarrow> if k \<noteq> [] then Some k else map_option strip_bearer (hdr_authorization req)
      | None \<Rightarrow> map_option strip_bearer (hdr_authorization req))"

definition apiKey_canActivate :: "string option \<Rightarrow> http_request \<Rightarrow> exn + bool" where
  "apiKey_canActivate proxyApiKey req =
     (case expectedKeyBuffer proxyApiKey of
        None \<Rightarrow> Inr True
      | Some expected \<Rightarrow>
          (case providedKey req of
             None \<Rightarrow> Inl (UnauthorizedException ''API key is missing'')
           | Some k \<Rightarrow>
               if k = [] then Inl (UnauthorizedException ''API key is missing'')
               else (case guarded_equal expected (Buffer_from k) of
                       Inl e \<Rightarrow> Inl e
                     | Inr same \<Rightarrow>
                         if \<not> same then Inl (UnauthorizedException ''Invalid API key'')
                         else Inr True)))"

section \<open>UTF-8 is injective\<close>

lemma word8_eq_iff: "m < 256 \<Longrightarrow> n < 256 \<Longrightarrow> (word_of_nat m :: 8 word) = word_of_nat n \<longleftrightarrow> m = n"
  by (auto simp: word_of_nat_eq_iff take_bit_nat_eq_self_iff take_bit_nat_eq_self)

lemma of_char_less_256: "(of_char c :: nat) < 256"
  using of_char_mod_256 [of c] by (metis mod_less_divisor zero_less_numeral)

text \<open>The first byte tells the length of the sequence, and the sequence the character.\<close>

lemma utf8_char_prefix:
  assumes "utf8_char c @ xs = utf8_char d @ ys"
  shows "c = d \<and> xs = ys"
proof -
  let ?m = "of_char c :: nat" and ?n = "of_char d :: nat"
  have b: "?m < 256" "?n < 256" by (rule of_char_less_256)+
  have "?m div 64 < 4" "?n div 64 < 4" using b by (simp_all only: less_mult_imp_div_less)
  moreover have "?m mod 64 < 64" "?n mod 64 < 64" by simp_all
  moreover have "?m = ?n" if "?m div 64 = ?n div 64" "?m mod 64 = ?n mod 64"
    using that by (metis div_mult_mod_eq)
  ultimately have "?m = ?n"
    using assms b
    by (auto simp: utf8_char_def Let_def word8_eq_iff simp del: of_nat_add split: if_splits)
  then have "c = d" by simp
  with assms show ?thesis by simp
qed

lemma utf8_char_nonempty: "utf8_char c \<noteq> []"
  by (simp add: utf8_char_def Let_def)

lemma Buffer_from_inject: "Buffer_from s = Buffer_from t \<longleftrightarrow> s = t"
proof
  assume "Buffer_from s = Buffer_from t"
  then show "s = t"
  proof (induction s arbitrary: t)
    case Nil
    then show ?case by (cases t) (simp_all add: Buffer_from_def utf8_char_nonempty)
  next
    case (Cons c s)
    then obtain d t' where t: "t = d # t'"
      by (cases t) (auto simp: Buffer_from_def utf8_char_nonempty)
    with Cons.prems have "utf8_char c @ Buffer_from s = utf8_char d @ Buffer_from t'"
      by (simp add: Buffer_from_def)
    from utf8_char_prefix [OF this] Cons.IH show ?case by (simp add: t)
  qed
qed simp

section \<open>What both comparisons promise\<close>

locale byte_compare =
  fixes compare :: "8 word list \<Rightarrow> 8 word list \<Rightarrow> exn + bool"
  assumes compare_decides: "compare a b = Inr (a = b)"
begin

lemma no_throw: "compare a b \<noteq> Inl e"
  by (simp add: compare_decides)

lemma text_equal: "compare (Buffer_from s) (Buffer_from t) = Inr (s = t)"
  by (simp add: compare_decides Buffer_from_inject)

end

interpretation padded: byte_compare padded_equal
proof
  fix a b :: "8 word list"
  have copy: "Buffer_copy x (Buffer_alloc n) = x @ replicate (n - length x) 0" if "length x \<le> n" for x n
    using that by (simp add: Buffer_copy_def Buffer_alloc_def)
  show "padded_equal a b = Inr (a = b)"
    by (auto simp: padded_equal_def copy timingSafeEqual_def Let_def)
qed

interpretation guarded: byte_compare guarded_equal
  by unfold_locales (auto simp: guarded_equal_def timingSafeEqual_def)

section \<open>Who passes\<close>

lemma validateToken_eq:
  "p \<noteq> [] \<Longrightarrow> validateToken p stored tid =
     (if stored = Some p then Inr ()
      else Inl (UnauthorizedException
             (if stored \<in> {None, Some []} then ''Task '' @ tid @ '' has no callback token configured''
              else ''Invalid callback token'')))"
  by (auto simp: validateToken_def padded.text_equal split: option.split)

lemma extractBearerToken_nonempty: "extractBearerToken req = Some tok \<Longrightarrow> tok \<noteq> []"
  by (auto simp: extractBearerToken_def Let_def split: option.splits if_splits)

text \<open>What a request has shown that the guard lets pass, and what one can be told that it does not.\<close>

lemma callback_shown:
  "callback_canActivate uuid_in v req w = Inr t \<Longrightarrow>
   \<exists>tid i. param_id req = Some tid \<and> uuid_in tid = Some i \<and> findById i w = Some t \<and> status t = PROCESSING
     \<and> callbackToken t \<noteq> None \<and> extractBearerToken req = callbackToken t"
  using extractBearerToken_nonempty [of req]
  by (auto simp: callback_canActivate_def validateToken_eq split: option.splits if_splits)

lemma callback_refusal_codes:
  "callback_canActivate uuid_in v req w = Inl (HttpException n m) \<Longrightarrow> n \<in> {401, 404, 409}"
  using extractBearerToken_nonempty [of req]
  by (auto simp: callback_canActivate_def validateToken_eq split: option.splits if_splits)

text \<open>
  C30: The callback guard admits exactly the holder of the task's own token: a request passes with
  task \<open>t\<close> if and only if the path names \<open>t\<close>, the Authorization header carries, after
  \<open>Bearer\<close>, exactly the stored token, and the task is \<open>PROCESSING\<close>. A task without a token
  admits nobody, and a token never works for another task's row.
\<close>

theorem callback_guard_admits_iff:
  "callback_canActivate uuid_in Done req w = Inr t \<longleftrightarrow>
     (\<exists>tid i tok. param_id req = Some tid \<and> tid \<noteq> [] \<and> uuid_in tid = Some i
        \<and> findById i w = Some t \<and> extractBearerToken req = Some tok
        \<and> callbackToken t = Some tok \<and> status t = PROCESSING)"
  using extractBearerToken_nonempty [of req]
  by (auto simp: callback_canActivate_def validateToken_eq split: option.splits if_splits)

text \<open>
  The order of the refusals of the callback guard. A missing token is 401 whatever the path
  names; then an unknown task is 404; then a wrong token is 401 and only the holder of the token
  learns, as 409, that the task is not \<open>PROCESSING\<close>. A malformed identifier reaches the database,
  which rejects the literal: no HTTP error is thrown for it. The comparison itself never throws.
\<close>

theorem callback_guard_refusals:
  assumes "callback_canActivate uuid_in Done req w = Inl e"
  shows "extractBearerToken req = None \<and> e = UnauthorizedException ''Bearer token is required''
    \<or> extractBearerToken req \<noteq> None \<and> param_id req \<in> {None, Some []}
        \<and> e = NotFoundException ''Task not found''
    \<or> (\<exists>tid tok. param_id req = Some tid \<and> tid \<noteq> [] \<and> extractBearerToken req = Some tok \<and>
        (case uuid_in tid of
           None \<Rightarrow> e = SqlError (InvalidTextRepresentation ''uuid'')
         | Some i \<Rightarrow>
             (case findById i w of
                None \<Rightarrow> e = NotFoundException ''Task not found''
              | Some t \<Rightarrow>
                  if callbackToken t \<noteq> Some tok then \<exists>m. e = UnauthorizedException m
                  else status t \<noteq> PROCESSING \<and> (\<exists>m. e = ConflictException m))))"
  using assms extractBearerToken_nonempty [of req]
  by (auto simp: callback_canActivate_def validateToken_eq split: option.splits if_splits)

theorem callback_guard_refusals_witness:
  "\<exists>m. callback_canActivate Some Done
     \<lparr>hdr_xApiKey = None, hdr_authorization = Some ''Bearer wrong'', param_id = Some ''t''\<rparr>
     (sample_world [sample_row ''t'' PROCESSING]) = Inl (UnauthorizedException m)"
proof -
  let ?req = "\<lparr>hdr_xApiKey = None, hdr_authorization = Some ''Bearer wrong'', param_id = Some ''t''\<rparr>"
  let ?w = "sample_world [sample_row ''t'' PROCESSING]"
  have tok: "extractBearerToken ?req = Some ''wrong''"
    by (simp add: extractBearerToken_def startsWith_def js_trim_def js_space_def)
  then obtain e where e: "callback_canActivate Some Done ?req ?w = Inl e"
    by (simp add: callback_canActivate_def validateToken_eq)
  then show ?thesis using callback_guard_refusals [OF e] tok by auto
qed

text \<open>
  The API key guard. With no key configured (absent or empty) every request passes; with a key,
  a request passes if and only if the text it presents, in \<open>X-API-Key\<close> or after \<open>Bearer\<close> in
  Authorization, is the key; every other request is refused with 401, never with a server error.
\<close>

theorem api_key_guard_iff:
  "(apiKey_canActivate key req = Inr True \<longleftrightarrow> key \<in> {None, Some []} \<or> providedKey req = key)
   \<and> (apiKey_canActivate key req = Inr True \<or> (\<exists>m. apiKey_canActivate key req = Inl (UnauthorizedException m)))"
  by (auto simp: apiKey_canActivate_def expectedKeyBuffer_def guarded.text_equal split: option.splits)

end
