(* ===== verification/ExecutorService.thy ===== *)
theory ExecutorService
  imports Auth
begin

text \<open>
  \<^verbatim>\<open>src/modules/executor/executor.service.ts\<close> and \<^verbatim>\<open>executor.controller.ts\<close>: the executor reports
  a result or progress. The handler receives the row the guard read (\<open>t\<close>, possibly stale by the
  time the statements run); the conditional update decides whether the result counts. The status
  update, the event and the publication are three separate calls, each with its own verdict.
\<close>

datatype submit_result_dto =
    ResultCompleted json
  | ResultFailed task_error

text \<open>What is known of reports that have passed their schemas (\<open>Schemas.progress_body_ok\<close>, \<open>result_body_ok\<close>).\<close>

definition progress_ok :: "int \<Rightarrow> bool" where
  "progress_ok p \<longleftrightarrow> 0 \<le> p \<and> p \<le> 100"

definition result_ok :: "submit_result_dto \<Rightarrow> bool" where
  "result_ok dto \<longleftrightarrow>
     (case dto of
        ResultCompleted r \<Rightarrow> (\<exists>kvs. r = JObj kvs)
      | ResultFailed er \<Rightarrow> 1 \<le> length (err_code er) \<and> length (err_code er) \<le> 100 \<and> 1 \<le> length (err_message er))"

record submit_env =
  sb_now :: time       \<comment> \<open>\<open>new Date()\<close>\<close>
  sb_upd :: time       \<comment> \<open>the clock for \<open>updatedAt\<close>\<close>
  sb_eid :: uuid       \<comment> \<open>identifier of the event row\<close>
  sb_dbnow :: time     \<comment> \<open>\<open>now()\<close> of PostgreSQL\<close>

record submit_io =
  sio_update :: io
  sio_event :: io
  sio_publish :: io
  sio_enqueue :: io

definition submit_ok :: submit_io where
  "submit_ok = \<lparr>sio_update = Done, sio_event = Done, sio_publish = Done, sio_enqueue = Done\<rparr>"

lemma submit_ok_simps [simp]:
  "sio_update submit_ok = Done" "sio_event submit_ok = Done" "sio_publish submit_ok = Done"
  "sio_enqueue submit_ok = Done"
  by (simp_all add: submit_ok_def)

definition sample_submit :: submit_env where
  "sample_submit = \<lparr>sb_now = 7, sb_upd = 8, sb_eid = ''e'', sb_dbnow = 9\<rparr>"

section \<open>Operations\<close>

definition webhook_job :: "uuid \<Rightarrow> queue_job" where
  "webhook_job i = \<lparr>job_name = ''webhook'', job_data = TaskJobData i\<rparr>"

text \<open>After the update: insert the event, publish it, enqueue the webhook.\<close>

definition submit_tail ::
  "submit_env \<Rightarrow> submit_io \<Rightarrow> task \<Rightarrow> insert_event_input \<Rightarrow> world \<Rightarrow> (exn + unit) \<times> world" where
  "submit_tail env io t input w =
     (case io_call (sio_event io) (insert_event (sb_eid env) (sb_dbnow env) input) w of
        (Inl e, w1) \<Rightarrow> (Inl e, w1)
      | (Inr ev, w1) \<Rightarrow>
          (case io_call (sio_publish io) (publish_event (task_id t) ev) w1 of
             (Inl e, w2) \<Rightarrow> (Inl e, w2)
           | (Inr _, w2) \<Rightarrow>
               if truthy (webhookUrl t)
               then enqueue_job (sio_enqueue io) ''webhook'' (webhook_job (task_id t)) no_options w2
               else (Inr (), w2)))"

definition submitResult ::
  "submit_env \<Rightarrow> submit_io \<Rightarrow> task \<Rightarrow> submit_result_dto \<Rightarrow> world \<Rightarrow> (exn + unit) \<times> world" where
  "submitResult env io t dto w =
     (case dto of
        ResultCompleted r \<Rightarrow>
          (case io_call (sio_update io)
                  (updateStatus (sb_upd env) (task_id t) [PROCESSING] COMPLETED
                     (no_patch\<lparr>set_result := Some (Some r), set_completedAt := Some (Some (sb_now env))\<rparr>)) w of
             (Inl e, w1) \<Rightarrow> (Inl e, w1)
           | (Inr None, w1) \<Rightarrow> (Inr (), w1)
           | (Inr (Some _), w1) \<Rightarrow> submit_tail env io t (CompletedEventInput (task_id t) r) w1)
      | ResultFailed er \<Rightarrow>
          (case io_call (sio_update io)
                  (updateStatus (sb_upd env) (task_id t) [PROCESSING] FAILED
                     (no_patch\<lparr>set_error := Some (Some er), set_completedAt := Some (Some (sb_now env))\<rparr>)) w of
             (Inl e, w1) \<Rightarrow> (Inl e, w1)
           | (Inr None, w1) \<Rightarrow> (Inr (), w1)
           | (Inr (Some _), w1) \<Rightarrow> submit_tail env io t (FailedEventInput (task_id t) er) w1))"

definition executor_updateProgress ::
  "submit_env \<Rightarrow> submit_io \<Rightarrow> task \<Rightarrow> int \<Rightarrow> world \<Rightarrow> (exn + unit) \<times> world" where
  "executor_updateProgress env io t p w =
     (case io_call (sio_update io) (updateProgress (sb_upd env) (task_id t) p) w of
        (Inl e, w1) \<Rightarrow> (Inl e, w1)
      | (Inr _, w1) \<Rightarrow>
          (case io_call (sio_event io) (insert_event (sb_eid env) (sb_dbnow env)
                  (ProgressEventInput (task_id t) p)) w1 of
             (Inl e, w2) \<Rightarrow> (Inl e, w2)
           | (Inr ev, w2) \<Rightarrow> io_call (sio_publish io) (publish_event (task_id t) ev) w2))"

text \<open>The two routes: the guard, then the handler with the task the guard attached.\<close>

definition submitResult_handler ::
  "(string \<Rightarrow> uuid option) \<Rightarrow> io \<Rightarrow> submit_env \<Rightarrow> submit_io \<Rightarrow> http_request \<Rightarrow> submit_result_dto
     \<Rightarrow> world \<Rightarrow> (exn + unit) \<times> world" where
  "submitResult_handler uuid_in v env io req dto w =
     (case callback_canActivate uuid_in v req w of
        Inl e \<Rightarrow> (Inl e, w)
      | Inr t \<Rightarrow> submitResult env io t dto w)"

definition updateProgress_handler ::
  "(string \<Rightarrow> uuid option) \<Rightarrow> io \<Rightarrow> submit_env \<Rightarrow> submit_io \<Rightarrow> http_request \<Rightarrow> int
     \<Rightarrow> world \<Rightarrow> (exn + unit) \<times> world" where
  "updateProgress_handler uuid_in v env io req p w =
     (case callback_canActivate uuid_in v req w of
        Inl e \<Rightarrow> (Inl e, w)
      | Inr t \<Rightarrow> executor_updateProgress env io t p w)"

lemmas executor_defs [handler_defs] =
  submit_tail_def submitResult_def executor_updateProgress_def

section \<open>The result as one conditional update\<close>

text \<open>Both branches of \<open>submitResult\<close> have the same shape, with these parameters.\<close>

fun dto_status :: "submit_result_dto \<Rightarrow> task_status" where
  "dto_status (ResultCompleted _) = COMPLETED"
| "dto_status (ResultFailed _) = FAILED"

fun dto_patch :: "submit_result_dto \<Rightarrow> task_patch" where
  "dto_patch (ResultCompleted r) = no_patch\<lparr>set_result := Some (Some r)\<rparr>"
| "dto_patch (ResultFailed er) = no_patch\<lparr>set_error := Some (Some er)\<rparr>"

fun dto_input :: "uuid \<Rightarrow> submit_result_dto \<Rightarrow> insert_event_input" where
  "dto_input i (ResultCompleted r) = CompletedEventInput i r"
| "dto_input i (ResultFailed er) = FailedEventInput i er"

lemma submitResult_eq:
  "submitResult env io t dto w =
     (case io_call (sio_update io)
             (updateStatus (sb_upd env) (task_id t) [PROCESSING] (dto_status dto)
                ((dto_patch dto)\<lparr>set_completedAt := Some (Some (sb_now env))\<rparr>)) w of
        (Inl e, w1) \<Rightarrow> (Inl e, w1)
      | (Inr None, w1) \<Rightarrow> (Inr (), w1)
      | (Inr (Some _), w1) \<Rightarrow> submit_tail env io t (dto_input (task_id t) dto) w1)"
  by (cases dto) (auto simp: submitResult_def split: prod.split sum.split option.split)

lemma dto_input_simps [simp]:
  "input_taskId (dto_input i dto) = i"
  "terminal_event_type (input_eventType (dto_input i dto))"
  by (cases dto; simp)+

text \<open>The row the executor's report makes of the current one.\<close>

definition reported_row :: "submit_env \<Rightarrow> submit_result_dto \<Rightarrow> task \<Rightarrow> task" where
  "reported_row env dto t =
     (case dto of
        ResultCompleted r \<Rightarrow>
          t\<lparr>status := COMPLETED, result := Some r, completedAt := Some (sb_now env), updatedAt := sb_upd env\<rparr>
      | ResultFailed er \<Rightarrow>
          t\<lparr>status := FAILED, error := Some er, completedAt := Some (sb_now env), updatedAt := sb_upd env\<rparr>)"

lemma set_status_reported:
  "set_status (sb_upd env) (dto_status dto)
     ((dto_patch dto)\<lparr>set_completedAt := Some (Some (sb_now env))\<rparr>) t = reported_row env dto t"
  by (cases dto) (simp_all add: set_status_def apply_patch_def no_patch_def reported_row_def)

lemma reported_row_valid:
  "tasks_valid_state_data t \<Longrightarrow> status t = PROCESSING \<Longrightarrow> tasks_valid_state_data (reported_row env dto t)"
  by (cases dto) (auto simp: tasks_valid_state_data_def reported_row_def)

text \<open>The conditional update of a report that finds the task \<open>PROCESSING\<close>.\<close>

lemma report_hit:
  fixes w :: world
  assumes "db_inv w" and "findById i w = Some cur" and "status cur = PROCESSING"
  obtains w1 where
    "updateStatus (sb_upd env) i [PROCESSING] (dto_status dto)
       ((dto_patch dto)\<lparr>set_completedAt := Some (Some (sb_now env))\<rparr>) w =
     (Inr (Some (reported_row env dto cur)), w1)"
    and "task_events w1 = task_events w" and "published w1 = published w" and "bull w1 = bull w"
    and "\<And>j. findById j w1 = (if j = i then Some (reported_row env dto cur) else findById j w)"
    and "db_inv w1"
proof -
  have valid: "tasks_valid_state_data (reported_row env dto cur)"
    using findById_valid [OF assms(1,2)] assms(3) by (simp add: reported_row_valid)
  show ?thesis
  proof (rule updateStatus_hit [OF assms(1,2), of "[PROCESSING]" "sb_upd env" "dto_status dto"
        "(dto_patch dto)\<lparr>set_completedAt := Some (Some (sb_now env))\<rparr>", unfolded set_status_reported])
    fix w1 assume w1: "w1 = w\<lparr>tasks := tasks w1\<rparr>"
    have "task_events w1 = task_events w" "published w1 = published w" "bull w1 = bull w"
      by (subst w1, simp)+
    moreover assume "updateStatus (sb_upd env) i [PROCESSING] (dto_status dto)
       ((dto_patch dto)\<lparr>set_completedAt := Some (Some (sb_now env))\<rparr>) w =
       (Inr (Some (reported_row env dto cur)), w1)"
      and "\<And>j. findById j w1 = (if j = i then Some (reported_row env dto cur) else findById j w)"
      and "db_inv w1"
    ultimately show ?thesis by (intro that)
  qed (use assms(3) valid in auto)
qed

section \<open>The tail and the invariant\<close>

lemma submit_tail_Done:
  assumes "db_inv w" and "sb_eid env \<notin> ev_id ` set (task_events w)" and "input_taskId input = task_id t"
  obtains ev w' where "submit_tail env submit_ok t input w = (Inr (), w')"
    and "tasks w' = tasks w" and "redis w' = redis w"
    and "eventType ev = input_eventType input" and "ev_payload ev = payloadFields input"
    and "task_log (task_events w') (task_id t) = task_log (task_events w) (task_id t) @ [ev]"
    and "published w' = published w @ [(''task:'' @ task_id t, ev)]"
    and "jobs ''webhook'' w' = jobs ''webhook'' w @
           (if truthy (webhookUrl t) then [stored_job (webhook_job (task_id t)) no_options] else [])"
proof -
  obtain ev where ins: "insertEventInTx (sb_eid env) (sb_dbnow env) input (task_events w) =
      Inr (ev, task_events w @ [ev])"
    using insertEventInTx_total assms(1,2) by (metis db_invD(2) events_wf_def)
  have ev: "eventType ev = input_eventType input" "ev_payload ev = payloadFields input"
    using ins by (auto simp: insertEventInTx_Inr)
  have log: "task_log (task_events w @ [ev]) (task_id t) = task_log (task_events w) (task_id t) @ [ev]"
    using task_log_append [OF ins, of "task_id t"] assms(3) by simp
  let ?w1 = "w\<lparr>task_events := task_events w @ [ev], published := published w @ [(task_channel (task_id t), ev)]\<rparr>"
  show ?thesis
  proof (cases "truthy (webhookUrl t)")
    case True
    then show ?thesis
      by (intro that [of "?w1\<lparr>bull := snd (enqueue Done ''webhook'' (webhook_job (task_id t)) no_options (bull w))\<rparr>" ev])
        (simp_all add: submit_tail_def insert_event_def ins publish_event_def enqueue_job_Done
          ev log task_channel_def bull.enq_own)
  next
    case False
    then show ?thesis
      by (intro that [of ?w1 ev])
        (simp_all add: submit_tail_def insert_event_def ins publish_event_def ev log task_channel_def)
  qed
qed

lemma submit_tail_tasks: "tasks (snd (submit_tail env io t input w)) = tasks w"
proof -
  have ev: "tasks (snd (io_call v (insert_event a b input) w)) = tasks w" for v a b
    by (cases v) (simp_all add: insert_event_def split: sum.split prod.split)
  have pub: "tasks (snd (io_call v (publish_event a b) w1)) = tasks w1" for v a b w1
    by (cases v) (simp_all add: publish_event_def)
  show ?thesis
    using ev [of "sio_event io" "sb_eid env" "sb_dbnow env"] pub [of "sio_publish io" "task_id t"]
    by (auto simp: submit_tail_def split: sum.split prod.split) (metis snd_conv)+
qed

lemma submit_tail_inv [inv_intros]:
  assumes "db_inv w"
  shows "db_inv (snd (submit_tail env io t input w))"
proof -
  obtain r w1 where e: "io_call (sio_event io) (insert_event (sb_eid env) (sb_dbnow env) input) w = (r, w1)"
    by fastforce
  have "db_inv (snd (io_call (sio_event io) (insert_event (sb_eid env) (sb_dbnow env) input) w))"
    using assms by (intro inv_intros)
  then have w1: "db_inv w1" by (simp add: e)
  have "db_inv (snd (io_call (sio_publish io) (publish_event i ev) w1))" for i ev
    using w1 by (intro inv_intros)
  then show ?thesis
    using w1 by (auto simp: submit_tail_def e split: sum.split prod.split) (metis snd_conv)+
qed

lemma submitResult_inv [inv_intros]:
  assumes "db_inv w"
  shows "db_inv (snd (submitResult env io t dto w))"
proof -
  let ?u = "updateStatus (sb_upd env) (task_id t) [PROCESSING] (dto_status dto)
      ((dto_patch dto)\<lparr>set_completedAt := Some (Some (sb_now env))\<rparr>)"
  have "db_inv (snd (io_call (sio_update io) ?u w))" using assms by (intro inv_intros)
  then show ?thesis
    using submit_tail_inv by (auto simp: submitResult_eq split: sum.split prod.split option.split)
qed

lemma executor_updateProgress_inv [inv_intros]:
  assumes "db_inv w"
  shows "db_inv (snd (executor_updateProgress env io t p w))"
proof -
  obtain r w1 where u: "io_call (sio_update io) (updateProgress (sb_upd env) (task_id t) p) w = (r, w1)"
    by fastforce
  have "db_inv (snd (io_call (sio_update io) (updateProgress (sb_upd env) (task_id t) p) w))"
    using assms by (intro inv_intros)
  then have w1: "db_inv w1" by (simp add: u)
  have e: "db_inv (snd (io_call (sio_event io) (insert_event a b input) w1))" for a b input
    using w1 by (intro inv_intros)
  have p: "db_inv (snd (io_call (sio_publish io) (publish_event i ev) w2))" if "db_inv w2" for i ev w2
    using that by (intro inv_intros)
  show ?thesis
    using w1 e p by (auto simp: executor_updateProgress_def u split: sum.split prod.split)
      (metis snd_conv)+
qed

section \<open>What a report does\<close>

text \<open>What an accepted report does, for the properties below.\<close>

lemma submit_hit:
  assumes "db_inv w" and "findById (task_id t) w = Some cur" and "status cur = PROCESSING"
    and "sb_eid env \<notin> ev_id ` set (task_events w)"
  shows "\<exists>w' ev. submitResult env submit_ok t dto w = (Inr (), w')
    \<and> findById (task_id t) w' = Some (reported_row env dto cur)
    \<and> (\<forall>j. j \<noteq> task_id t \<longrightarrow> findById j w' = findById j w)
    \<and> ev_payload ev = payloadFields (dto_input (task_id t) dto)
    \<and> eventType ev = (case dto of ResultCompleted _ \<Rightarrow> EvCompleted | ResultFailed _ \<Rightarrow> EvFailed)
    \<and> task_log (task_events w') (task_id t) = task_log (task_events w) (task_id t) @ [ev]
    \<and> published w' = published w @ [(''task:'' @ task_id t, ev)]
    \<and> jobs ''webhook'' w' = jobs ''webhook'' w @
        (if truthy (webhookUrl t) then [stored_job (webhook_job (task_id t)) no_options] else [])"
proof -
  obtain w1 where u: "updateStatus (sb_upd env) (task_id t) [PROCESSING] (dto_status dto)
       ((dto_patch dto)\<lparr>set_completedAt := Some (Some (sb_now env))\<rparr>) w =
       (Inr (Some (reported_row env dto cur)), w1)"
    and same: "task_events w1 = task_events w" "published w1 = published w" "bull w1 = bull w"
    and find: "\<And>j. findById j w1 = (if j = task_id t then Some (reported_row env dto cur) else findById j w)"
    and w1: "db_inv w1"
    by (rule report_hit [OF assms(1-3)]) blast
  have fresh: "sb_eid env \<notin> ev_id ` set (task_events w1)" using assms(4) same by simp
  obtain ev w' where tl: "submit_tail env submit_ok t (dto_input (task_id t) dto) w1 = (Inr (), w')"
    "tasks w' = tasks w1" "eventType ev = input_eventType (dto_input (task_id t) dto)"
    "ev_payload ev = payloadFields (dto_input (task_id t) dto)"
    "task_log (task_events w') (task_id t) = task_log (task_events w1) (task_id t) @ [ev]"
    "published w' = published w1 @ [(''task:'' @ task_id t, ev)]"
    "jobs ''webhook'' w' = jobs ''webhook'' w1 @
       (if truthy (webhookUrl t) then [stored_job (webhook_job (task_id t)) no_options] else [])"
    by (rule submit_tail_Done [OF w1 fresh, of "dto_input (task_id t) dto" t]) simp_all
  have row: "findById j w' = findById j w1" for j using tl(2) by (simp add: findById_def)
  have ty: "input_eventType (dto_input (task_id t) dto) =
      (case dto of ResultCompleted _ \<Rightarrow> EvCompleted | ResultFailed _ \<Rightarrow> EvFailed)"
    by (cases dto) simp_all
  show ?thesis
    by (intro exI [of _ w'] exI [of _ ev] conjI)
      (simp_all add: submitResult_eq u row find tl(1,3-7) ty same)
qed

text \<open>
  C15: The executor's result, when the calls succeed and the task is still \<open>PROCESSING\<close> when the
  update runs: the current row (not the possibly stale one the guard read) becomes \<open>COMPLETED\<close>
  with the result, or \<open>FAILED\<close> with the error, with the completion time and nothing else changed;
  other tasks are untouched; one event of the matching type, carrying the data, is appended to the
  task's log and published on its channel; a webhook job is enqueued exactly when a webhook URL is
  configured.
\<close>

theorem submitResult_accepted:
  assumes "db_inv w" and "findById (task_id t) w = Some cur" and "status cur = PROCESSING"
    and "sb_eid env \<notin> ev_id ` set (task_events w)"
  shows "\<exists>w' ev. submitResult env submit_ok t dto w = (Inr (), w')
    \<and> findById (task_id t) w' = Some (reported_row env dto cur)
    \<and> (\<forall>j. j \<noteq> task_id t \<longrightarrow> findById j w' = findById j w)
    \<and> ev_payload ev = payloadFields (dto_input (task_id t) dto)
    \<and> eventType ev = (case dto of ResultCompleted _ \<Rightarrow> EvCompleted | ResultFailed _ \<Rightarrow> EvFailed)
    \<and> task_log (task_events w') (task_id t) = task_log (task_events w) (task_id t) @ [ev]
    \<and> published w' = published w @ [(''task:'' @ task_id t, ev)]
    \<and> jobs ''webhook'' w' = jobs ''webhook'' w @
        (if truthy (webhookUrl t) then [stored_job (webhook_job (task_id t)) no_options] else [])"
  using assms by (rule submit_hit)

theorem submitResult_accepted_witness:
  "\<exists>w' ev. submitResult sample_submit submit_ok (sample_row ''t'' PROCESSING) (ResultCompleted (JObj []))
      (sample_world [sample_row ''t'' PROCESSING]) = (Inr (), w') \<and> published w' = [(''task:t'', ev)]"
  using submitResult_accepted [of "sample_world [sample_row ''t'' PROCESSING]" "sample_row ''t'' PROCESSING"
      "sample_row ''t'' PROCESSING" sample_submit "ResultCompleted (JObj [])"]
  by auto

text \<open>
  A result for a task that is no longer \<open>PROCESSING\<close> (cancelled, timed out, already reported, or
  gone) is accepted without effect: no state change, no event, no webhook.
\<close>

lemma submitResult_ignored:
  assumes "db_inv w" and "\<And>cur. findById (task_id t) w = Some cur \<Longrightarrow> status cur \<noteq> PROCESSING"
  shows "submitResult env submit_ok t dto w = (Inr (), w)"
  using assms by (simp add: submitResult_eq updateStatus_miss)

text \<open>
  Two reports for the same task that both passed the guard: whatever the first one did, the
  second changes nothing, so exactly one terminal event and at most one webhook job come of them.
\<close>

theorem submitResult_once:
  assumes "db_inv w" and "findById (task_id t) w = Some cur" and "status cur = PROCESSING"
    and "sb_eid env \<notin> ev_id ` set (task_events w)" and "task_id t2 = task_id t"
  shows "submitResult env2 submit_ok t2 dto2 (snd (submitResult env submit_ok t dto w)) =
    (Inr (), snd (submitResult env submit_ok t dto w))"
proof -
  let ?w1 = "snd (submitResult env submit_ok t dto w)"
  obtain w1 where u: "updateStatus (sb_upd env) (task_id t) [PROCESSING] (dto_status dto)
       ((dto_patch dto)\<lparr>set_completedAt := Some (Some (sb_now env))\<rparr>) w =
       (Inr (Some (reported_row env dto cur)), w1)"
    and find: "findById (task_id t) w1 = Some (reported_row env dto cur)"
    by (rule report_hit [OF assms(1-3), where env = env and dto = dto]) simp
  have "findById (task_id t) ?w1 = Some (reported_row env dto cur)"
    using find submit_tail_tasks [of env submit_ok t "dto_input (task_id t) dto" w1]
    by (simp add: submitResult_eq u findById_def)
  then have "status_of (task_id t) ?w1 = Some (dto_status dto)"
    by (cases dto) (simp_all add: status_of_def reported_row_def)
  then have "updateStatus a (task_id t) [PROCESSING] b c ?w1 = (Inr None, ?w1)" for a b c
    using submitResult_inv [OF assms(1)]
    by (intro updateStatus_miss) (cases dto; auto simp: status_of_def)+
  then show ?thesis by (simp add: submitResult_eq [of env2] assms(5))
qed

theorem submitResult_once_witness:
  "fst (submitResult sample_submit submit_ok (sample_row ''t'' PROCESSING) (ResultFailed \<lparr>err_code = ''x'', err_message = ''y'', err_details = None\<rparr>)
     (snd (submitResult sample_submit submit_ok (sample_row ''t'' PROCESSING) (ResultCompleted (JObj []))
       (sample_world [sample_row ''t'' PROCESSING])))) = Inr ()"
  using submitResult_once [of "sample_world [sample_row ''t'' PROCESSING]" "sample_row ''t'' PROCESSING"
      "sample_row ''t'' PROCESSING" sample_submit "sample_row ''t'' PROCESSING" sample_submit
      "ResultFailed \<lparr>err_code = ''x'', err_message = ''y'', err_details = None\<rparr>" "ResultCompleted (JObj [])"]
  by simp

text \<open>
  C38: The status update and the event are separate transactions, unlike in cancellation. If the
  event insert fails after the update, the caller gets an error although the task is terminal: no
  event is stored, nothing is published, no webhook is enqueued; and the guard answers every repeat
  of the report with 409, so the missing event and webhook are never made up for.
\<close>

theorem submitResult_event_lost:
  assumes "db_inv w" and "callback_canActivate uuid_in Done req w = Inr t"
    and "sio_update io = Done" and "sio_event io = Fail_Before"
  shows "\<exists>w'. submitResult_handler uuid_in Done env io req dto w = (Inl InfraError, w')
    \<and> status_of (task_id t) w' = Some (dto_status dto)
    \<and> task_events w' = task_events w \<and> published w' = published w \<and> bull w' = bull w
    \<and> (\<exists>m. submitResult_handler uuid_in Done env2 io2 req dto2 w' = (Inl (ConflictException m), w'))"
proof -
  obtain tid i tok where g: "param_id req = Some tid" "tid \<noteq> []" "uuid_in tid = Some i"
    "findById i w = Some t" "extractBearerToken req = Some tok" "callbackToken t = Some tok"
    "status t = PROCESSING"
    using assms(2) extractBearerToken_nonempty [of req]
    by (auto simp: callback_canActivate_def validateToken_eq split: option.splits if_splits)
  have i: "task_id t = i" using findById_valid [OF assms(1) g(4)] by simp
  obtain w1 where u: "updateStatus (sb_upd env) i [PROCESSING] (dto_status dto)
       ((dto_patch dto)\<lparr>set_completedAt := Some (Some (sb_now env))\<rparr>) w =
       (Inr (Some (reported_row env dto t)), w1)"
    and same: "task_events w1 = task_events w" "published w1 = published w" "bull w1 = bull w"
    and find: "findById i w1 = Some (reported_row env dto t)"
    by (rule report_hit [OF assms(1) g(4,7), where env = env and dto = dto]) simp
  have first: "submitResult_handler uuid_in Done env io req dto w = (Inl InfraError, w1)"
    using assms(2-4) u by (simp add: submitResult_handler_def submitResult_eq i submit_tail_def)
  have row: "callbackToken (reported_row env dto t) = Some tok"
    "status (reported_row env dto t) = dto_status dto" "dto_status dto \<noteq> PROCESSING"
    using g(6) by (cases dto; simp add: reported_row_def)+
  have "\<exists>m. callback_canActivate uuid_in Done req w1 = Inl (ConflictException m)"
    using g find row extractBearerToken_nonempty [OF g(5)]
    by (simp add: callback_canActivate_def validateToken_eq)
  then have "\<exists>m. submitResult_handler uuid_in Done env2 io2 req dto2 w1 = (Inl (ConflictException m), w1)"
    by (auto simp: submitResult_handler_def)
  with first same find row(2) show ?thesis by (auto simp: i status_of_def)
qed

theorem submitResult_event_lost_witness:
  "\<exists>w'. submitResult_handler Some Done sample_submit (submit_ok\<lparr>sio_event := Fail_Before\<rparr>)
      \<lparr>hdr_xApiKey = None, hdr_authorization = Some ''Bearer tok'', param_id = Some ''t''\<rparr>
      (ResultCompleted (JObj [])) (sample_world [sample_row ''t'' PROCESSING]) = (Inl InfraError, w')
    \<and> status_of ''t'' w' = Some COMPLETED \<and> task_events w' = []"
proof -
  have "callback_canActivate Some Done
      \<lparr>hdr_xApiKey = None, hdr_authorization = Some ''Bearer tok'', param_id = Some ''t''\<rparr>
      (sample_world [sample_row ''t'' PROCESSING]) = Inr (sample_row ''t'' PROCESSING)"
    by (simp add: callback_canActivate_def extractBearerToken_def startsWith_def js_trim_def js_space_def
        validateToken_eq)
  from submitResult_event_lost [OF db_inv_sample_row(1) this, of "submit_ok\<lparr>sio_event := Fail_Before\<rparr>"
      sample_submit "ResultCompleted (JObj [])" sample_submit submit_ok "ResultCompleted (JObj [])"]
  show ?thesis by auto
qed

text \<open>
  Progress reports carry no status condition of their own: when the row the guard read is out of
  date, the report is applied whatever the current status is. Status and result data are kept, but
  the progress column changes and a \<open>progress\<close> event is appended after the terminal one.
\<close>

theorem updateProgress_not_conditional:
  assumes "db_inv w" and "findById (task_id t) w = Some cur"
    and "sb_eid env \<notin> ev_id ` set (task_events w)"
  shows "\<exists>w' ev. executor_updateProgress env submit_ok t p w = (Inr (), w')
    \<and> findById (task_id t) w' = Some (cur\<lparr>progress := p, updatedAt := sb_upd env\<rparr>)
    \<and> (\<forall>j. j \<noteq> task_id t \<longrightarrow> findById j w' = findById j w)
    \<and> eventType ev = EvProgress \<and> ev_payload ev = JObj [(''progress'', JNum p 0)]
    \<and> task_log (task_events w') (task_id t) = task_log (task_events w) (task_id t) @ [ev]
    \<and> published w' = published w @ [(''task:'' @ task_id t, ev)]"
proof -
  let ?f = "\<lambda>t. t\<lparr>progress := p, updatedAt := sb_upd env\<rparr>"
  let ?rows = "update_where (\<lambda>r. task_id r = task_id t) ?f (tasks w)"
  have keys: "keeps_keys ?f" by (simp add: keeps_keys_def)
  have "tasks_valid_state_data (?f cur)"
    using findById_valid [OF assms(1,2)] by (simp add: tasks_valid_state_data_def)
  then have u: "updateProgress (sb_upd env) (task_id t) p w = (Inr (), w\<lparr>tasks := ?rows\<rparr>)"
    using tasks_update_by_id [OF db_invD(4) [OF assms(1)], of "task_id t" "\<lambda>_. True" ?f] assms(2)
    by (simp add: updateProgress_def findById_def)
  have find: "findById j (w\<lparr>tasks := ?rows\<rparr>) = (if j = task_id t then Some (?f cur) else findById j w)" for j
    using findById_hit [OF assms(1,2), of "\<lambda>_. True" ?f j] keys by simp
  obtain ev where ins: "insertEventInTx (sb_eid env) (sb_dbnow env) (ProgressEventInput (task_id t) p)
      (task_events w) = Inr (ev, task_events w @ [ev])"
    using insertEventInTx_total assms(1,3) by (metis db_invD(2) events_wf_def)
  have ev: "eventType ev = EvProgress" "ev_payload ev = JObj [(''progress'', JNum p 0)]"
    using ins by (auto simp: insertEventInTx_Inr)
  have log: "task_log (task_events w @ [ev]) (task_id t) = task_log (task_events w) (task_id t) @ [ev]"
    using task_log_append [OF ins, of "task_id t"] by simp
  have other: "findById j (w\<lparr>tasks := ?rows, task_events := es, published := ms\<rparr>) =
      findById j (w\<lparr>tasks := ?rows\<rparr>)" for j es ms by (simp add: findById_def)
  show ?thesis
    using ev log
    by (auto simp: executor_updateProgress_def u insert_event_def ins publish_event_def task_channel_def
        other find)
qed

theorem updateProgress_not_conditional_witness:
  "\<exists>w' ev. executor_updateProgress sample_submit submit_ok (sample_row ''t'' PROCESSING) 40
      (sample_world [sample_row ''t'' COMPLETED]) = (Inr (), w') \<and> published w' = [(''task:t'', ev)]"
  using updateProgress_not_conditional [of "sample_world [sample_row ''t'' COMPLETED]"
      "sample_row ''t'' PROCESSING" "sample_row ''t'' COMPLETED" sample_submit 40]
  by auto

end
