(* ===== verification/HttpRetry.thy ===== *)
theory HttpRetry
  imports Prelude Complex_Main
begin

text \<open>
  \<^verbatim>\<open>libs/http-retry/http-retry.service.ts\<close> and \<^verbatim>\<open>errors.ts\<close>: an HTTP POST with exponential
  backoff. What the network does is a parameter: \<open>net a\<close> is how attempt number \<open>a\<close> goes (its
  latency and its answer or error), \<open>rnd a\<close> the value of \<open>Math.random()\<close> drawn for the delay after
  attempt \<open>a\<close>. The loop returns the value or the exception, with the number of requests made and
  the delays slept.
\<close>

section \<open>Options, answers and errors\<close>

record http_retry_options =
  attempts :: int
  baseDelayMs :: int
  maxDelayMs :: int
  requestTimeoutMs :: int

text \<open>The defaults the destructuring of \<open>opts\<close> fills in.\<close>

definition default_opts :: http_retry_options where
  "default_opts = \<lparr>attempts = 3, baseDelayMs = 500, maxDelayMs = 30000, requestTimeoutMs = 10000\<rparr>"

text \<open>
  What the code inspects of a rejected request: the numeric \<open>response.status\<close> if there is one,
  whether it is an \<open>Error\<close>, its \<open>code\<close> property (absent, undefined, or a string), and the text
  \<open>DispatchFailedError\<close> takes from it (the message of an \<open>Error\<close>, the string of anything else).
\<close>

record http_error =
  response_status :: "nat option"
  is_error :: bool
  code :: "string option option"
  reason :: string

datatype answer = Answer json | Rejected http_error

record exchange =
  latency :: int
  answered :: answer

definition RETRYABLE_STATUS_CODES :: "nat list" where
  "RETRYABLE_STATUS_CODES = [429, 500, 502, 503, 504]"

definition RETRYABLE_NETWORK_CODES :: "string list" where
  "RETRYABLE_NETWORK_CODES =
     [''ECONNREFUSED'', ''ECONNRESET'', ''ETIMEDOUT'', ''ENOTFOUND'', ''ECONNABORTED'',
      ''ERR_NETWORK'']"

definition getStatusCode :: "http_error \<Rightarrow> nat option" where
  "getStatusCode e = response_status e"

definition isRetryableNetworkError :: "http_error \<Rightarrow> bool" where
  "isRetryableNetworkError e \<longleftrightarrow>
     is_error e \<and>
     (case code e of
        None \<Rightarrow> False
      | Some c \<Rightarrow> (case c of None \<Rightarrow> '''' | Some v \<Rightarrow> v) \<in> set RETRYABLE_NETWORK_CODES)"

text \<open>
  The operator \<open>timeout(requestTimeoutMs)\<close> rejects a request that has not answered in time with
  a \<open>TimeoutError\<close>, an \<open>Error\<close> without a \<open>code\<close>.
\<close>

definition timeout_error :: http_error where
  "timeout_error = \<lparr>response_status = None, is_error = True, code = None,
                   reason = ''Timeout has occurred''\<rparr>"

definition with_timeout :: "int \<Rightarrow> exchange \<Rightarrow> answer" where
  "with_timeout ms x = (if latency x < ms then answered x else Rejected timeout_error)"

text \<open>The messages the constructors of the two errors build.\<close>

definition exn_message :: "exn \<Rightarrow> string" where
  "exn_message e =
     (case e of
        DispatchFailedError url n why _ \<Rightarrow>
          ''POST '' @ url @ '' failed after '' @ show_int n @ '' attempt(s): '' @ why
      | NonRetryableError url st \<Rightarrow>
          ''POST '' @ url @ '' rejected with '' @ show_nat st @ '' - not retrying''
      | HttpException _ m \<Rightarrow> m
      | PlainError m \<Rightarrow> m
      | _ \<Rightarrow> [])"

section \<open>Delays\<close>

definition jitter :: "rat \<Rightarrow> int" where
  "jitter r = \<lfloor>r * 200\<rfloor>"

definition computeDelay :: "nat \<Rightarrow> int \<Rightarrow> int \<Rightarrow> rat \<Rightarrow> int" where
  "computeDelay a base cap r = min (base * 2 ^ a + jitter r) cap"

section \<open>The loop\<close>

record post_run =
  outcome :: "exn + json"
  requests :: nat
  delays :: "int list"

definition then_sleep :: "int \<Rightarrow> post_run \<Rightarrow> post_run" where
  "then_sleep d r = r\<lparr>requests := Suc (requests r), delays := d # delays r\<rparr>"

function post_loop ::
  "string \<Rightarrow> http_retry_options \<Rightarrow> (nat \<Rightarrow> exchange) \<Rightarrow> (nat \<Rightarrow> rat) \<Rightarrow> nat \<Rightarrow> string
     \<Rightarrow> nat option \<Rightarrow> post_run" where
  "post_loop url opts net rnd a lastError lastStatusCode =
     (if int a < attempts opts then
        (case with_timeout (requestTimeoutMs opts) (net a) of
           Answer d \<Rightarrow> \<lparr>outcome = Inr d, requests = 1, delays = []\<rparr>
         | Rejected err \<Rightarrow>
             (let next = (\<lambda>st.
                  if int a = attempts opts - 1
                  then \<lparr>outcome = Inl (DispatchFailedError url (attempts opts) (reason err) st),
                         requests = 1, delays = []\<rparr>
                  else then_sleep (computeDelay a (baseDelayMs opts) (maxDelayMs opts) (rnd a))
                         (post_loop url opts net rnd (Suc a) (reason err) st))
              in case getStatusCode err of
                   Some st \<Rightarrow>
                     if st \<notin> set RETRYABLE_STATUS_CODES
                     then \<lparr>outcome = Inl (NonRetryableError url st), requests = 1, delays = []\<rparr>
                     else next (Some st)
                 | None \<Rightarrow>
                     if \<not> isRetryableNetworkError err
                     then \<lparr>outcome = Inl (DispatchFailedError url (int a + 1) (reason err) None),
                            requests = 1, delays = []\<rparr>
                     else next lastStatusCode))
      else \<lparr>outcome = Inl (DispatchFailedError url (attempts opts) lastError lastStatusCode),
             requests = 0, delays = []\<rparr>)"
  by pat_completeness auto
termination
  by (relation "measure (\<lambda>(url, opts, net, rnd, a, le, st). nat (attempts opts - int a))") auto

declare post_loop.simps [simp del]

definition post ::
  "string \<Rightarrow> http_retry_options \<Rightarrow> (nat \<Rightarrow> exchange) \<Rightarrow> (nat \<Rightarrow> rat) \<Rightarrow> post_run" where
  "post url opts net rnd = post_loop url opts net rnd 0 ''undefined'' None"

section \<open>One pass of the loop\<close>

text \<open>What an error does: stop with an exception, or go on with the status to remember.\<close>

definition retryable :: "http_error \<Rightarrow> bool" where
  "retryable err \<longleftrightarrow>
     (case getStatusCode err of
        Some st \<Rightarrow> st \<in> set RETRYABLE_STATUS_CODES
      | None \<Rightarrow> isRetryableNetworkError err)"

definition remember :: "http_error \<Rightarrow> nat option \<Rightarrow> nat option" where
  "remember err st = (case getStatusCode err of Some c \<Rightarrow> Some c | None \<Rightarrow> st)"

definition final_error :: "string \<Rightarrow> nat \<Rightarrow> http_error \<Rightarrow> exn" where
  "final_error url a err =
     (case getStatusCode err of
        Some st \<Rightarrow> NonRetryableError url st
      | None \<Rightarrow> DispatchFailedError url (int a + 1) (reason err) None)"

abbreviation reply :: "http_retry_options \<Rightarrow> (nat \<Rightarrow> exchange) \<Rightarrow> nat \<Rightarrow> answer" where
  "reply opts net a \<equiv> with_timeout (requestTimeoutMs opts) (net a)"

lemma post_loop_answer:
  "int a < attempts opts \<Longrightarrow> reply opts net a = Answer d \<Longrightarrow>
   post_loop url opts net rnd a le st = \<lparr>outcome = Inr d, requests = 1, delays = []\<rparr>"
  by (subst post_loop.simps) simp

lemma post_loop_stop:
  "int a < attempts opts \<Longrightarrow> reply opts net a = Rejected err \<Longrightarrow> \<not> retryable err \<Longrightarrow>
   post_loop url opts net rnd a le st =
     \<lparr>outcome = Inl (final_error url a err), requests = 1, delays = []\<rparr>"
  by (subst post_loop.simps) (auto simp: retryable_def final_error_def Let_def split: option.splits)

lemma post_loop_last:
  "int a = attempts opts - 1 \<Longrightarrow> reply opts net a = Rejected err \<Longrightarrow> retryable err \<Longrightarrow>
   post_loop url opts net rnd a le st =
     \<lparr>outcome = Inl (DispatchFailedError url (attempts opts) (reason err) (remember err st)),
       requests = 1, delays = []\<rparr>"
  by (subst post_loop.simps) (auto simp: retryable_def remember_def Let_def split: option.splits)

lemma post_loop_retry:
  "int a < attempts opts - 1 \<Longrightarrow> reply opts net a = Rejected err \<Longrightarrow> retryable err \<Longrightarrow>
   post_loop url opts net rnd a le st =
     then_sleep (computeDelay a (baseDelayMs opts) (maxDelayMs opts) (rnd a))
       (post_loop url opts net rnd (Suc a) (reason err) (remember err st))"
  by (subst post_loop.simps) (auto simp: retryable_def remember_def Let_def split: option.splits)

lemma post_loop_none:
  "\<not> int a < attempts opts \<Longrightarrow>
   post_loop url opts net rnd a le st =
     \<lparr>outcome = Inl (DispatchFailedError url (attempts opts) le st), requests = 0, delays = []\<rparr>"
  by (subst post_loop.simps) simp

lemmas post_loop_cases = post_loop_answer post_loop_stop post_loop_last post_loop_retry post_loop_none

text \<open>The induction that goes with the five ways a pass can end.\<close>

lemma post_loop_induct [case_names Answer Stop Last Retry None]:
  assumes "\<And>a le st d. int a < attempts opts \<Longrightarrow> reply opts net a = Answer d \<Longrightarrow> P a le st"
    and "\<And>a le st err. int a < attempts opts \<Longrightarrow> reply opts net a = Rejected err \<Longrightarrow> \<not> retryable err \<Longrightarrow> P a le st"
    and "\<And>a le st err. int a = attempts opts - 1 \<Longrightarrow> reply opts net a = Rejected err \<Longrightarrow> retryable err \<Longrightarrow> P a le st"
    and "\<And>a le st err. int a < attempts opts - 1 \<Longrightarrow> reply opts net a = Rejected err \<Longrightarrow> retryable err \<Longrightarrow>
           P (Suc a) (reason err) (remember err st) \<Longrightarrow> P a le st"
    and "\<And>a le st. \<not> int a < attempts opts \<Longrightarrow> P a le st"
  shows "P a le st"
proof (induction "nat (attempts opts - int a)" arbitrary: a le st rule: less_induct)
  case (less a le st)
  consider d where "int a < attempts opts" "reply opts net a = Answer d"
    | err where "int a < attempts opts" "reply opts net a = Rejected err" "\<not> retryable err"
    | err where "int a = attempts opts - 1" "reply opts net a = Rejected err" "retryable err"
    | err where "int a < attempts opts - 1" "reply opts net a = Rejected err" "retryable err"
    | "\<not> int a < attempts opts"
  proof -
    have "int a < attempts opts - 1" if "int a < attempts opts" "int a \<noteq> attempts opts - 1"
      using that by linarith
    then show ?thesis
      using that by (cases "reply opts net a"; cases "int a < attempts opts") blast+
  qed
  then show ?case
  proof cases
    case (4 err)
    then have "P (Suc a) (reason err) (remember err st)" by (intro less) auto
    with 4 show ?thesis by (rule assms(4))
  qed (use assms(1,2,3,5) in auto)
qed

section \<open>Outcome, number of requests, delays\<close>

text \<open>The only exceptions are the two of \<^verbatim>\<open>errors.ts\<close>, and both name the URL.\<close>

definition http_exn :: "string \<Rightarrow> exn \<Rightarrow> bool" where
  "http_exn url e \<longleftrightarrow>
     (\<exists>n r st. e = DispatchFailedError url n r st) \<or> (\<exists>st. e = NonRetryableError url st)"

lemma post_loop_exn:
  "case outcome (post_loop url opts net rnd a le st) of Inl e \<Rightarrow> http_exn url e | Inr _ \<Rightarrow> True"
  by (induction a le st rule: post_loop_induct [where opts = opts and net = net])
    (auto simp: post_loop_cases then_sleep_def http_exn_def final_error_def split: option.split)

lemma post_exn: "outcome (post url opts net rnd) = Inl e \<Longrightarrow> http_exn url e"
  using post_loop_exn [of url opts net rnd 0 "''undefined''" None] by (simp add: post_def)

lemma post_loop_requests:
  "int (requests (post_loop url opts net rnd a le st)) \<le> max 0 (attempts opts - int a)"
  by (induction a le st rule: post_loop_induct [where opts = opts and net = net])
    (auto simp: post_loop_cases then_sleep_def)

text \<open>Between two requests there is exactly one delay.\<close>

lemma post_loop_delay_count:
  "int a < attempts opts \<Longrightarrow>
   requests (post_loop url opts net rnd a le st) = Suc (length (delays (post_loop url opts net rnd a le st)))"
  by (induction a le st rule: post_loop_induct [where opts = opts and net = net])
    (auto simp: post_loop_cases then_sleep_def)

lemma jitter_bounds: "0 \<le> r \<Longrightarrow> r < 1 \<Longrightarrow> 0 \<le> jitter r \<and> jitter r < 200"
  by (simp add: jitter_def floor_less_iff)

lemma computeDelay_le: "computeDelay a base cap r \<le> cap"
  by (simp add: computeDelay_def)

lemma computeDelay_ge:
  "0 \<le> r \<Longrightarrow> r < 1 \<Longrightarrow> min (base * 2 ^ a) cap \<le> computeDelay a base cap r"
  using jitter_bounds [of r] by (auto simp: computeDelay_def)

lemma post_loop_delays:
  assumes "\<And>i. 0 \<le> rnd i \<and> rnd i < 1"
  shows "\<forall>i < length (delays (post_loop url opts net rnd a le st)).
           min (baseDelayMs opts * 2 ^ (a + i)) (maxDelayMs opts)
             \<le> delays (post_loop url opts net rnd a le st) ! i
           \<and> delays (post_loop url opts net rnd a le st) ! i \<le> maxDelayMs opts"
proof (induction a le st rule: post_loop_induct [where opts = opts and net = net])
  case (Retry a le st err)
  then show ?case
    using computeDelay_ge assms
    by (auto simp: post_loop_cases then_sleep_def computeDelay_le nth_Cons split: nat.split)
qed (auto simp: post_loop_cases)

text \<open>Retryable failures before attempt \<open>k\<close> lead to attempt \<open>k\<close>, one delay each.\<close>

lemma post_loop_reaches:
  assumes "a \<le> k" and "int k < attempts opts"
    and "\<And>i. a \<le> i \<Longrightarrow> i < k \<Longrightarrow> \<exists>err. reply opts net i = Rejected err \<and> retryable err"
  shows "\<exists>le' st'. outcome (post_loop url opts net rnd a le st) = outcome (post_loop url opts net rnd k le' st')
    \<and> requests (post_loop url opts net rnd a le st) = (k - a) + requests (post_loop url opts net rnd k le' st')"
  using assms
proof (induction "k - a" arbitrary: a le st)
  case 0
  then show ?case by auto
next
  case (Suc n)
  then obtain err where "reply opts net a = Rejected err" "retryable err" by fastforce
  moreover have "int a < attempts opts - 1" and "k - a = Suc (k - Suc a)" using Suc by simp_all
  ultimately show ?case
    using Suc.hyps(1) [of "Suc a" "reason err" "remember err st"] Suc by (auto simp: post_loop_retry then_sleep_def)
qed

section \<open>What the workers rely on\<close>

text \<open>
  The contract of the client: it always returns, and an exception is one of the two HTTP errors,
  carrying the URL. A worker that handles those two has handled every failure of the call.
\<close>

locale retry_client =
  fixes send :: "string \<Rightarrow> http_retry_options \<Rightarrow> (nat \<Rightarrow> exchange) \<Rightarrow> (nat \<Rightarrow> rat) \<Rightarrow> post_run"
  assumes send_exn: "outcome (send url opts net rnd) = Inl e \<Longrightarrow> http_exn url e"
begin

lemma send_cases:
  obtains (answer) d where "outcome (send url opts net rnd) = Inr d"
    | (gave_up) n r st where "outcome (send url opts net rnd) = Inl (DispatchFailedError url n r st)"
    | (rejected) st where "outcome (send url opts net rnd) = Inl (NonRetryableError url st)"
  using send_exn [of url opts net rnd] that
  by (cases "outcome (send url opts net rnd)") (auto simp: http_exn_def)

lemma send_no_infra:
  "outcome (send url opts net rnd) \<noteq> Inl InfraError"
  "outcome (send url opts net rnd) \<noteq> Inl (SqlError v)"
  "outcome (send url opts net rnd) \<noteq> Inl (PlainError m)"
  by (rule send_cases [of url opts net rnd]; simp)+

end

interpretation client: retry_client post
  by unfold_locales (rule post_exn)

section \<open>A declarative account of the loop\<close>

text \<open>
  The first attempt whose reply is decisive (an answer, or an error that is not retried) settles the
  call; if no attempt does, the call fails with the last error and the last status code seen.
\<close>

definition decisive :: "answer \<Rightarrow> bool" where
  "decisive r \<longleftrightarrow> (case r of Answer _ \<Rightarrow> True | Rejected err \<Rightarrow> \<not> retryable err)"

definition settle :: "string \<Rightarrow> nat \<Rightarrow> answer \<Rightarrow> exn + json" where
  "settle url k r = (case r of Answer d \<Rightarrow> Inr d | Rejected err \<Rightarrow> Inl (final_error url k err))"

definition last_reason :: "answer \<Rightarrow> string \<Rightarrow> string" where
  "last_reason r le = (case r of Answer _ \<Rightarrow> le | Rejected err \<Rightarrow> reason err)"

definition last_status :: "answer \<Rightarrow> nat option \<Rightarrow> nat option" where
  "last_status r st = (case r of Answer _ \<Rightarrow> st | Rejected err \<Rightarrow> remember err st)"

lemma decisive_simps [simp]:
  "decisive (Answer d)" "decisive (Rejected err) \<longleftrightarrow> \<not> retryable err"
  "settle url k (Answer d) = Inr d" "settle url k (Rejected err) = Inl (final_error url k err)"
  "last_reason (Rejected err) le = reason err" "last_status (Rejected err) st = remember err st"
  by (simp_all add: decisive_def settle_def last_reason_def last_status_def)

definition post_spec ::
  "string \<Rightarrow> http_retry_options \<Rightarrow> (nat \<Rightarrow> exchange) \<Rightarrow> nat \<Rightarrow> string \<Rightarrow> nat option \<Rightarrow> (exn + json) \<times> nat" where
  "post_spec url opts net a le st =
     (let ks = [a..<nat (attempts opts)]
      in case find (\<lambda>k. decisive (reply opts net k)) ks of
           Some k \<Rightarrow> (settle url k (reply opts net k), Suc (k - a))
         | None \<Rightarrow> (Inl (DispatchFailedError url (attempts opts)
                      (fold (\<lambda>k. last_reason (reply opts net k)) ks le)
                      (fold (\<lambda>k. last_status (reply opts net k)) ks st)), length ks))"

lemma post_spec_step:
  assumes "int a < attempts opts"
  shows "post_spec url opts net a le st =
    (if decisive (reply opts net a) then (settle url a (reply opts net a), 1)
     else (let r = post_spec url opts net (Suc a) (last_reason (reply opts net a) le)
                     (last_status (reply opts net a) st)
           in (fst r, Suc (snd r))))"
proof -
  have ks: "[a..<nat (attempts opts)] = a # [Suc a..<nat (attempts opts)]"
    using assms by (intro upt_conv_Cons) linarith
  have "Suc (k - a) = Suc (Suc (k - Suc a))"
    if "find (\<lambda>k. decisive (reply opts net k)) [Suc a..<nat (attempts opts)] = Some k" for k
    using that by (auto simp: find_Some_iff)
  then show ?thesis
    by (auto simp: post_spec_def ks Let_def simp del: upt_Suc split: option.split)
qed

lemma post_spec_end:
  "\<not> int a < attempts opts \<Longrightarrow>
   post_spec url opts net a le st = (Inl (DispatchFailedError url (attempts opts) le st), 0)"
  by (simp add: post_spec_def)

lemma post_loop_spec:
  "(outcome (post_loop url opts net rnd a le st), requests (post_loop url opts net rnd a le st)) =
     post_spec url opts net a le st"
proof (induction a le st rule: post_loop_induct [where opts = opts and net = net])
  case (Last a le st err)
  then show ?case by (simp add: post_loop_last post_spec_step post_spec_end Let_def)
next
  case (Retry a le st err)
  then show ?case
    by (simp add: post_loop_retry post_spec_step then_sleep_def Let_def flip: Retry.IH)
qed (simp_all add: post_loop_cases post_spec_step post_spec_end)

lemma post_loop_delay_list:
  "delays (post_loop url opts net rnd a le st) =
     map (\<lambda>i. computeDelay i (baseDelayMs opts) (maxDelayMs opts) (rnd i))
       [a..<a + requests (post_loop url opts net rnd a le st) - 1]"
proof (induction a le st rule: post_loop_induct [where opts = opts and net = net])
  case (Retry a le st err)
  have "requests (post_loop url opts net rnd (Suc a) (reason err) (remember err st)) \<noteq> 0"
    using post_loop_delay_count [of "Suc a" opts] Retry.hyps(1) by simp
  then have "[a..<a + requests (post_loop url opts net rnd (Suc a) (reason err) (remember err st))] =
      a # [Suc a..<a + requests (post_loop url opts net rnd (Suc a) (reason err) (remember err st))]"
    by (intro upt_conv_Cons) simp
  with Retry show ?case by (simp add: post_loop_retry then_sleep_def)
qed (simp_all add: post_loop_cases)

text \<open>
  C16: The retry loop equals its declarative account, for every network behaviour. The first
  decisive reply settles the call: its data is returned, or its error is thrown, after exactly that
  many requests. When every reply asks for a retry, all attempts are used and the call fails with
  the text of the last error and the last status code seen. After attempt \<open>i\<close> (counted from 0) the
  loop sleeps \<open>base * 2 ^ i\<close> plus jitter, capped, and only between two requests.
\<close>

theorem post_meets_spec:
  "(outcome (post url opts net rnd), requests (post url opts net rnd)) =
     post_spec url opts net 0 ''undefined'' None
   \<and> delays (post url opts net rnd) =
       map (\<lambda>i. min (baseDelayMs opts * 2 ^ i + jitter (rnd i)) (maxDelayMs opts))
         [0..<requests (post url opts net rnd) - 1]"
  using post_loop_spec post_loop_delay_list [of url opts net rnd 0] by (simp add: post_def computeDelay_def)

text \<open>
  The cost of a call is bounded whatever the network does: never more requests than attempts,
  every sleep at least \<open>min (base * 2 ^ i) cap\<close> and at most the cap, and the only exceptions that
  leave the loop are the two of \<^verbatim>\<open>errors.ts\<close>, carrying the URL.
\<close>

theorem post_bounded:
  assumes "\<And>i. 0 \<le> rnd i \<and> rnd i < 1" and "0 \<le> attempts opts"
  shows "int (requests (post url opts net rnd)) \<le> attempts opts
    \<and> (\<forall>i < length (delays (post url opts net rnd)).
          min (baseDelayMs opts * 2 ^ i) (maxDelayMs opts) \<le> delays (post url opts net rnd) ! i
          \<and> delays (post url opts net rnd) ! i \<le> maxDelayMs opts)
    \<and> (\<forall>e. outcome (post url opts net rnd) = Inl e \<longrightarrow>
          (\<exists>n r st. e = DispatchFailedError url n r st) \<or> (\<exists>st. e = NonRetryableError url st))"
  using post_loop_requests [of url opts net rnd 0] post_loop_delays [where a = 0 and rnd = rnd and opts = opts, OF assms(1)]
    post_exn [of url opts net rnd] assms(2)
  by (auto simp: post_def http_exn_def)

theorem post_bounded_witness:
  "requests (post ''u'' default_opts
     (\<lambda>_. \<lparr>latency = 0, answered = Rejected \<lparr>response_status = Some 503, is_error = True, code = None, reason = []\<rparr>\<rparr>)
     (\<lambda>_. 1 / 2)) \<le> 3"
  using post_bounded [of "\<lambda>_. 1 / 2" default_opts "''u''"
      "\<lambda>_. \<lparr>latency = 0, answered = Rejected \<lparr>response_status = Some 503, is_error = True, code = None, reason = []\<rparr>\<rparr>"]
  by (simp add: default_opts_def)

text \<open>
  A request that runs into its own timeout is never retried, and neither is a server error
  outside 500, 502, 503 and 504: the call fails after that one request, the timeout reported as the
  failure of attempt 1 with no status code.
\<close>

lemma post_fails_fast:
  assumes "0 < attempts opts"
    and "requestTimeoutMs opts \<le> latency (net 0) \<or>
         answered (net 0) = Rejected err \<and> response_status err = Some st \<and> 500 \<le> st
           \<and> st \<notin> {500, 502, 503, 504}"
  shows "requests (post url opts net rnd) = 1 \<and> delays (post url opts net rnd) = []
    \<and> outcome (post url opts net rnd) =
        Inl (if requestTimeoutMs opts \<le> latency (net 0)
             then DispatchFailedError url 1 ''Timeout has occurred'' None
             else NonRetryableError url st)"
proof -
  obtain e where r: "reply opts net 0 = Rejected e" "\<not> retryable e"
    and e: "e = (if requestTimeoutMs opts \<le> latency (net 0) then timeout_error else err)"
    using assms(2) by (force simp: with_timeout_def retryable_def getStatusCode_def
        isRetryableNetworkError_def timeout_error_def RETRYABLE_STATUS_CODES_def split: if_splits)
  have "final_error url 0 e = (if requestTimeoutMs opts \<le> latency (net 0)
      then DispatchFailedError url 1 ''Timeout has occurred'' None else NonRetryableError url st)"
    using assms(2) by (auto simp: e final_error_def getStatusCode_def timeout_error_def)
  then show ?thesis using assms(1) r by (simp add: post_def post_loop_stop)
qed

end
