(* ===== verification/DispatchProcessor.thy ===== *)
theory DispatchProcessor
  imports Samples HttpRetry
begin

text \<open>
  \<^verbatim>\<open>src/modules/executor/workers/dispatch.processor.ts\<close>: the worker that claims a \<open>PENDING\<close> task and
  hands it to the executor. The HTTP call lasts, so other requests run while it is under way:
  \<open>meanwhile\<close> is what they make of the stores between the claim and the end of the call.
\<close>

section \<open>HTTP calls\<close>

text \<open>The arguments of \<open>httpRetry.post\<close>.\<close>

record http_call =
  call_url :: string
  call_body :: json
  call_headers :: "(string \<times> string) list"
  call_opts :: http_retry_options

definition bearer :: "string option \<Rightarrow> string" where
  "bearer tok = ''Bearer '' @ (case tok of None \<Rightarrow> '''' | Some s \<Rightarrow> s)"

section \<open>The job\<close>

record dispatch_env =
  dp_now :: time          \<comment> \<open>\<open>new Date()\<close> at the start\<close>
  dp_upd :: time          \<comment> \<open>clock for \<open>updatedAt\<close> of the claim\<close>
  dp_failed :: time       \<comment> \<open>\<open>new Date()\<close> in the error handler\<close>
  dp_upd2 :: time         \<comment> \<open>clock for \<open>updatedAt\<close> in the error handler\<close>

record dispatch_io =
  dio_claim :: io
  dio_fail :: io
  dio_revert :: io

definition dispatch_ok :: dispatch_io where
  "dispatch_ok = \<lparr>dio_claim = Done, dio_fail = Done, dio_revert = Done\<rparr>"

lemma dispatch_ok_simps [simp]:
  "dio_claim dispatch_ok = Done" "dio_fail dispatch_ok = Done" "dio_revert dispatch_ok = Done"
  by (simp_all add: dispatch_ok_def)

definition dispatch_call :: "uuid \<Rightarrow> task \<Rightarrow> http_call" where
  "dispatch_call i t =
     \<lparr> call_url = executorUrl t,
       call_body = JObj [(''taskId'', JStr i), (''payload'', payload t)],
       call_headers = [(''Authorization'', bearer (callbackToken t))],
       call_opts = default_opts\<lparr>attempts := 3\<rparr> \<rparr>"

definition claim :: "dispatch_env \<Rightarrow> uuid \<Rightarrow> int \<Rightarrow> world \<Rightarrow> (exn + task option) \<times> world" where
  "claim env i tmo =
     updateStatus (dp_upd env) i [PENDING] PROCESSING
       (no_patch\<lparr>set_processingStartedAt := Some (Some (dp_now env)),
                 set_expiresAt := Some (Some (dp_now env + tmo * 1000))\<rparr>)"

text \<open>The \<open>catch\<close> block.\<close>

definition dispatch_catch ::
  "dispatch_env \<Rightarrow> dispatch_io \<Rightarrow> uuid \<Rightarrow> exn \<Rightarrow> world \<Rightarrow> (exn + unit) \<times> world" where
  "dispatch_catch env io i err w =
     (let fail = (\<lambda>c.
            case io_call (dio_fail io)
                   (updateStatus (dp_upd2 env) i [PROCESSING] FAILED
                      (no_patch\<lparr>set_completedAt := Some (Some (dp_failed env)),
                                set_error := Some (Some \<lparr>err_code = c, err_message = exn_message err,
                                                         err_details = None\<rparr>)\<rparr>)) w of
              (Inl e, w1) \<Rightarrow> (Inl e, w1)
            | (Inr _, w1) \<Rightarrow> (Inr (), w1))
      in case err of
           NonRetryableError _ _ \<Rightarrow> fail ''EXECUTOR_REJECTED''
         | DispatchFailedError _ _ _ _ \<Rightarrow> fail ''DISPATCH_FAILED''
         | _ \<Rightarrow>
             (Inl err,
              snd (io_call (dio_revert io)
                     (updateStatus (dp_upd2 env) i [PROCESSING] PENDING
                        (no_patch\<lparr>set_processingStartedAt := Some None, set_expiresAt := Some None\<rparr>)) w)))"

definition dispatch_process ::
  "dispatch_env \<Rightarrow> dispatch_io \<Rightarrow> (nat \<Rightarrow> exchange) \<Rightarrow> (nat \<Rightarrow> rat) \<Rightarrow> (world \<Rightarrow> world)
     \<Rightarrow> uuid \<Rightarrow> int \<Rightarrow> world \<Rightarrow> (exn + unit) \<times> http_call option \<times> world" where
  "dispatch_process env io net rnd meanwhile i tmo w =
     (case io_call (dio_claim io) (claim env i tmo) w of
        (Inl e, w1) \<Rightarrow> (Inl e, None, w1)
      | (Inr None, w1) \<Rightarrow> (Inr (), None, w1)
      | (Inr (Some t), w1) \<Rightarrow>
          (let c = dispatch_call i t
           in case outcome (post (call_url c) (call_opts c) net rnd) of
                Inr _ \<Rightarrow> (Inr (), Some c, meanwhile w1)
              | Inl err \<Rightarrow>
                  (case dispatch_catch env io i err (meanwhile w1) of (r, w2) \<Rightarrow> (r, Some c, w2))))"

section \<open>The rows it writes\<close>

definition claimed_row :: "dispatch_env \<Rightarrow> int \<Rightarrow> task \<Rightarrow> task" where
  "claimed_row env tmo t =
     t\<lparr>status := PROCESSING, processingStartedAt := Some (dp_now env),
       expiresAt := Some (dp_now env + tmo * 1000), updatedAt := dp_upd env\<rparr>"

lemma dispatch_call_simps [simp]:
  "dispatch_call i (claimed_row env tmo t) = dispatch_call i t"
  "call_url (dispatch_call i t) = executorUrl t"
  "call_opts (dispatch_call i t) = default_opts\<lparr>attempts := 3\<rparr>"
  by (simp_all add: dispatch_call_def claimed_row_def)

definition failure_code :: "exn \<Rightarrow> string" where
  "failure_code err =
     (case err of NonRetryableError _ _ \<Rightarrow> ''EXECUTOR_REJECTED'' | _ \<Rightarrow> ''DISPATCH_FAILED'')"

definition failed_row :: "dispatch_env \<Rightarrow> exn \<Rightarrow> task \<Rightarrow> task" where
  "failed_row env err t =
     t\<lparr>status := FAILED, completedAt := Some (dp_failed env), updatedAt := dp_upd2 env,
       error := Some \<lparr>err_code = failure_code err, err_message = exn_message err, err_details = None\<rparr>\<rparr>"

lemma claim_hit:
  assumes "db_inv w" and "findById i w = Some t" and "status t = PENDING"
  obtains w1 where "claim env i tmo w = (Inr (Some (claimed_row env tmo t)), w1)"
    and "w1 = w\<lparr>tasks := tasks w1\<rparr>" and "db_inv w1"
    and "\<And>j. findById j w1 = (if j = i then Some (claimed_row env tmo t) else findById j w)"
proof -
  let ?x = "no_patch\<lparr>set_processingStartedAt := Some (Some (dp_now env)),
      set_expiresAt := Some (Some (dp_now env + tmo * 1000))\<rparr>"
  have row: "set_status (dp_upd env) PROCESSING ?x t = claimed_row env tmo t"
    by (simp add: set_status_def apply_patch_def no_patch_def claimed_row_def)
  have valid: "tasks_valid_state_data (claimed_row env tmo t)"
    using findById_valid [OF assms(1,2)] assms(3) by (auto simp: tasks_valid_state_data_def claimed_row_def)
  show ?thesis
    by (rule updateStatus_hit [OF assms(1,2), of "[PENDING]" "dp_upd env" PROCESSING ?x])
      (use assms(3) valid that in \<open>simp_all add: row claim_def\<close>)
qed

lemma claim_miss:
  "db_inv w \<Longrightarrow> (\<And>t. findById i w = Some t \<Longrightarrow> status t \<noteq> PENDING) \<Longrightarrow> claim env i tmo w = (Inr None, w)"
  by (simp add: claim_def updateStatus_miss)

lemma dispatch_catch_http:
  assumes "http_exn url err"
  shows "dispatch_catch env io i err w =
    (case io_call (dio_fail io)
            (updateStatus (dp_upd2 env) i [PROCESSING] FAILED
               (no_patch\<lparr>set_completedAt := Some (Some (dp_failed env)),
                         set_error := Some (Some \<lparr>err_code = failure_code err,
                            err_message = exn_message err, err_details = None\<rparr>)\<rparr>)) w of
       (Inl e, w1) \<Rightarrow> (Inl e, w1) | (Inr _, w1) \<Rightarrow> (Inr (), w1))"
  using assms by (auto simp: http_exn_def dispatch_catch_def failure_code_def Let_def)

lemma dispatch_catch_hit:
  assumes "db_inv w" and "http_exn url err" and "findById i w = Some t" and "status t = PROCESSING"
  obtains w1 where "dispatch_catch env dispatch_ok i err w = (Inr (), w1)"
    and "w1 = w\<lparr>tasks := tasks w1\<rparr>" and "db_inv w1"
    and "\<And>j. findById j w1 = (if j = i then Some (failed_row env err t) else findById j w)"
proof -
  let ?x = "no_patch\<lparr>set_completedAt := Some (Some (dp_failed env)),
      set_error := Some (Some \<lparr>err_code = failure_code err, err_message = exn_message err,
        err_details = None\<rparr>)\<rparr>"
  have row: "set_status (dp_upd2 env) FAILED ?x t = failed_row env err t"
    by (simp add: set_status_def apply_patch_def no_patch_def failed_row_def)
  have valid: "tasks_valid_state_data (failed_row env err t)"
    using findById_valid [OF assms(1,3)] assms(4) by (auto simp: tasks_valid_state_data_def failed_row_def)
  show ?thesis
    by (rule updateStatus_hit [OF assms(1,3), of "[PROCESSING]" "dp_upd2 env" FAILED ?x])
      (use assms(4) valid that in \<open>simp_all add: row dispatch_catch_http [OF assms(2)]\<close>)
qed

lemma dispatch_catch_miss:
  assumes "db_inv w" and "http_exn url err" and "\<And>t. findById i w = Some t \<Longrightarrow> status t \<noteq> PROCESSING"
  shows "dispatch_catch env dispatch_ok i err w = (Inr (), w)"
  using assms(1,3) by (simp add: dispatch_catch_http [OF assms(2)] updateStatus_miss)

lemma claim_inv [inv_intros]: "db_inv w \<Longrightarrow> db_inv (snd (claim env i tmo w))"
  unfolding claim_def by (rule updateStatus_inv)

lemma dispatch_catch_inv [inv_intros]:
  assumes "db_inv w"
  shows "db_inv (snd (dispatch_catch env io i err w))"
proof -
  have u: "db_inv (snd (io_call v (updateStatus a b c d x) w))" for v a b c d x
    using assms by (intro inv_intros)
  have "db_inv (snd (case io_call v (updateStatus a b c d x) w of
      (Inl e, w1) \<Rightarrow> (Inl e, w1) | (Inr y, w1) \<Rightarrow> (Inr (), w1)))" for v a b c d x
    using u [of v a b c d x] by (auto split: prod.split sum.split)
  then show ?thesis using u by (simp add: dispatch_catch_def Let_def split: exn.split)
qed

text \<open>A run to apply the properties to: the executor answers 400 to the first request.\<close>

definition sample_dispatch :: dispatch_env where
  "sample_dispatch = \<lparr>dp_now = 100, dp_upd = 101, dp_failed = 200, dp_upd2 = 201\<rparr>"

definition rejecting :: "nat \<Rightarrow> exchange" where
  "rejecting a = \<lparr>latency = 5, answered = Rejected
     \<lparr>response_status = Some 400, is_error = True, code = None, reason = ''bad request''\<rparr>\<rparr>"

lemma rejecting_outcome:
  "outcome (post url (default_opts\<lparr>attempts := 3\<rparr>) rejecting rnd) = Inl (NonRetryableError url 400)"
  by (simp add: post_def post_loop.simps rejecting_def with_timeout_def default_opts_def
      getStatusCode_def RETRYABLE_STATUS_CODES_def Let_def)

section \<open>What the job does\<close>

text \<open>
  C26: The dispatch job on a \<open>PENDING\<close> task: exactly one call is made, to the task's executor URL,
  with its identifier and payload and its callback token as bearer. It is made after the row has
  become \<open>PROCESSING\<close> with a deadline of \<open>timeoutSeconds\<close> from the start, so the executor's callbacks
  are admitted from the first moment; and if the call is answered, the job changes nothing more.
\<close>

theorem dispatch_claims:
  assumes "db_inv w" and "findById i w = Some t" and "status t = PENDING"
  shows "\<exists>w1. findById i w1 = Some (claimed_row env tmo t)
    \<and> (\<forall>j. j \<noteq> i \<longrightarrow> findById j w1 = findById j w) \<and> w1 = w\<lparr>tasks := tasks w1\<rparr>
    \<and> fst (snd (dispatch_process env dispatch_ok net rnd meanwhile i tmo w)) =
        Some \<lparr>call_url = executorUrl t, call_body = JObj [(''taskId'', JStr i), (''payload'', payload t)],
              call_headers = [(''Authorization'', bearer (callbackToken t))],
              call_opts = \<lparr>attempts = 3, baseDelayMs = 500, maxDelayMs = 30000, requestTimeoutMs = 10000\<rparr>\<rparr>
    \<and> (\<forall>d. outcome (post (executorUrl t) (default_opts\<lparr>attempts := 3\<rparr>) net rnd) = Inr d \<longrightarrow>
         dispatch_process env dispatch_ok net rnd meanwhile i tmo w =
           (Inr (), Some (dispatch_call i t), meanwhile w1))"
proof -
  obtain w1 where c: "claim env i tmo w = (Inr (Some (claimed_row env tmo t)), w1)"
    "w1 = w\<lparr>tasks := tasks w1\<rparr>"
    "\<And>j. findById j w1 = (if j = i then Some (claimed_row env tmo t) else findById j w)"
    by (rule claim_hit [OF assms]) blast
  show ?thesis
    by (rule exI [of _ w1])
      (use c in \<open>auto simp: dispatch_process_def Let_def split: sum.split prod.split,
        simp_all add: dispatch_call_def default_opts_def\<close>)
qed

theorem dispatch_claims_witness:
  "\<exists>c. fst (snd (dispatch_process sample_dispatch dispatch_ok rejecting (\<lambda>_. 0) (\<lambda>w. w) ''t'' 300
      (sample_world [sample_row ''t'' PENDING]))) = Some c \<and> call_url c = ''http://e''"
  using dispatch_claims [of "sample_world [sample_row ''t'' PENDING]" "''t''" "sample_row ''t'' PENDING"
      sample_dispatch 300 rejecting "\<lambda>_. 0" "\<lambda>w. w"]
  by auto

text \<open>
  A dispatch job for a task that is not \<open>PENDING\<close> (already claimed by another worker, cancelled,
  timed out, deleted) makes no HTTP call and changes nothing.
\<close>

lemma dispatch_skips:
  assumes "db_inv w" and "\<And>t. findById i w = Some t \<Longrightarrow> status t \<noteq> PENDING"
  shows "dispatch_process env dispatch_ok net rnd meanwhile i tmo w = (Inr (), None, w)"
  using assms by (simp add: dispatch_process_def claim_miss)

text \<open>
  C27: When the executor cannot be reached or rejects the call, and the task is still \<open>PROCESSING\<close> at
  that time, the job succeeds and the row is \<open>FAILED\<close> with code \<open>EXECUTOR_REJECTED\<close> for a rejection
  and \<open>DISPATCH_FAILED\<close> otherwise, as the comment of the class and ADR-007 have it (and not back to
  \<open>PENDING\<close> with a failed job, as \<^verbatim>\<open>docs/ARCHITECTURE.md\<close> says of 5xx and network errors); every other store
  is as the others left it: this state change writes no event, publishes nothing and enqueues no webhook.
\<close>

theorem dispatch_failure:
  assumes "db_inv w" and "findById i w = Some t" and "status t = PENDING"
    and "outcome (post (executorUrl t) (default_opts\<lparr>attempts := 3\<rparr>) net rnd) = Inl err"
    and "\<And>w1. db_inv w1 \<Longrightarrow> status_of i w1 = Some PROCESSING \<Longrightarrow>
           db_inv (meanwhile w1) \<and> status_of i (meanwhile w1) = Some PROCESSING"
  shows "\<exists>w1 cur w2. claim env i tmo w = (Inr (Some (claimed_row env tmo t)), w1)
    \<and> dispatch_process env dispatch_ok net rnd meanwhile i tmo w = (Inr (), Some (dispatch_call i t), w2)
    \<and> findById i (meanwhile w1) = Some cur \<and> findById i w2 = Some (failed_row env err cur)
    \<and> err_code (the (error (failed_row env err cur))) =
        (if \<exists>st. err = NonRetryableError (executorUrl t) st then ''EXECUTOR_REJECTED'' else ''DISPATCH_FAILED'')
    \<and> (\<forall>j. j \<noteq> i \<longrightarrow> findById j w2 = findById j (meanwhile w1))
    \<and> w2 = (meanwhile w1)\<lparr>tasks := tasks w2\<rparr>"
proof -
  obtain w1 where c: "claim env i tmo w = (Inr (Some (claimed_row env tmo t)), w1)" "db_inv w1"
    "findById i w1 = Some (claimed_row env tmo t)"
    by (rule claim_hit [OF assms(1-3), of env tmo]) simp
  have m: "db_inv (meanwhile w1)" "status_of i (meanwhile w1) = Some PROCESSING"
    using assms(5) [OF c(2)] c(3) by (simp_all add: status_of_def claimed_row_def)
  then obtain cur where cur: "findById i (meanwhile w1) = Some cur" "status cur = PROCESSING"
    by (auto simp: status_of_def)
  have err: "http_exn (executorUrl t) err" using assms(4) by (rule client.send_exn)
  obtain w2 where w2: "dispatch_catch env dispatch_ok i err (meanwhile w1) = (Inr (), w2)"
    "w2 = (meanwhile w1)\<lparr>tasks := tasks w2\<rparr>"
    "\<And>j. findById j w2 = (if j = i then Some (failed_row env err cur) else findById j (meanwhile w1))"
    by (rule dispatch_catch_hit [OF m(1) err cur]) blast
  have "dispatch_process env dispatch_ok net rnd meanwhile i tmo w = (Inr (), Some (dispatch_call i t), w2)"
    using assms(4) w2(1) by (simp add: dispatch_process_def c(1) Let_def)
  moreover have "failure_code err =
      (if \<exists>st. err = NonRetryableError (executorUrl t) st then ''EXECUTOR_REJECTED'' else ''DISPATCH_FAILED'')"
    using err by (auto simp: http_exn_def failure_code_def)
  ultimately show ?thesis using c(1) cur(1) w2(2,3) by (auto simp: failed_row_def)
qed

theorem dispatch_failure_witness:
  "\<exists>w2. dispatch_process sample_dispatch dispatch_ok rejecting (\<lambda>_. 0) (\<lambda>w. w) ''t'' 300
      (sample_world [sample_row ''t'' PENDING]) = (Inr (), Some (dispatch_call ''t'' (sample_row ''t'' PENDING)), w2)"
  using dispatch_failure [of "sample_world [sample_row ''t'' PENDING]" "''t''" "sample_row ''t'' PENDING"
      rejecting "\<lambda>_. 0" "NonRetryableError ''http://e'' 400" "\<lambda>w. w" sample_dispatch 300]
  by (auto simp: rejecting_outcome)

text \<open>
  A dispatch failure that comes too late is harmless: if the task left \<open>PROCESSING\<close> while the
  call was under way (the executor reported after all, the client cancelled, the deadline passed),
  the failure does not overwrite the outcome.
\<close>

theorem dispatch_late_failure:
  assumes "db_inv w" and "findById i w = Some t" and "status t = PENDING"
    and "\<And>w1. db_inv w1 \<Longrightarrow> db_inv (meanwhile w1) \<and> status_of i (meanwhile w1) \<noteq> Some PROCESSING"
  shows "\<exists>w1. claim env i tmo w = (Inr (Some (claimed_row env tmo t)), w1)
    \<and> dispatch_process env dispatch_ok net rnd meanwhile i tmo w =
        (Inr (), Some (dispatch_call i t), meanwhile w1)"
proof -
  obtain w1 where c: "claim env i tmo w = (Inr (Some (claimed_row env tmo t)), w1)" "db_inv w1"
    by (rule claim_hit [OF assms(1-3), of env tmo]) blast
  have m: "db_inv (meanwhile w1)" "\<And>t. findById i (meanwhile w1) = Some t \<Longrightarrow> status t \<noteq> PROCESSING"
    using assms(4) [OF c(2)] by (auto simp: status_of_def)
  have "dispatch_catch env dispatch_ok i err (meanwhile w1) = (Inr (), meanwhile w1)"
    if "outcome (post url opts net rnd) = Inl err" for url opts err
    using dispatch_catch_miss [OF m(1) client.send_exn [OF that]] m(2) by blast
  then show ?thesis
    using c(1) by (auto simp: dispatch_process_def Let_def split: sum.split prod.split)
qed

theorem dispatch_late_failure_witness:
  "dispatch_process sample_dispatch dispatch_ok rejecting (\<lambda>_. 0)
      (\<lambda>_. sample_world [sample_row ''t'' CANCELLED]) ''t'' 300 (sample_world [sample_row ''t'' PENDING]) =
    (Inr (), Some (dispatch_call ''t'' (sample_row ''t'' PENDING)), sample_world [sample_row ''t'' CANCELLED])"
  using dispatch_late_failure [of "sample_world [sample_row ''t'' PENDING]" "''t''" "sample_row ''t'' PENDING"
      "\<lambda>_. sample_world [sample_row ''t'' CANCELLED]" sample_dispatch 300 rejecting "\<lambda>_. 0"]
  by (auto simp: status_of_def)

text \<open>
  The branch that puts a task back to \<open>PENDING\<close> is never taken, whatever the network and the
  database do: the outcome of the job does not depend on that update, and unless the others put the
  task back to \<open>PENDING\<close>, a task that this job has claimed is not \<open>PENDING\<close> when it ends.
\<close>

theorem dispatch_never_reverts:
  assumes "db_inv w" and "\<And>w1. db_inv w1 \<Longrightarrow> status_of i w1 \<noteq> Some PENDING \<Longrightarrow>
           db_inv (meanwhile w1) \<and> status_of i (meanwhile w1) \<noteq> Some PENDING"
    and "dispatch_process env io net rnd meanwhile i tmo w = (r, Some c, w')"
  shows "status_of i w' \<noteq> Some PENDING
    \<and> dispatch_process env (io\<lparr>dio_revert := v\<rparr>) net rnd meanwhile i tmo w = (r, Some c, w')"
proof -
  obtain t w1 where cl: "io_call (dio_claim io) (claim env i tmo) w = (Inr (Some t), w1)"
    using assms(3) by (auto simp: dispatch_process_def split: prod.splits sum.splits option.splits)
  then have hit: "claim env i tmo w = (Inr (Some t), w1)" by (simp add: io_call_Inr)
  have w1: "db_inv w1" "status_of i w1 = Some PROCESSING"
    using claim_inv [OF assms(1), of env i tmo] repo.cas_hit [OF assms(1)] hit
    by (auto simp: claim_def)
  have m: "db_inv (meanwhile w1)" "status_of i (meanwhile w1) \<noteq> Some PENDING"
    using assms(2) [OF w1(1)] w1(2) by auto
  have c: "c = dispatch_call i t"
    using assms(3) by (auto simp: dispatch_process_def cl Let_def split: sum.splits prod.splits)
  show ?thesis
  proof (cases "outcome (post (call_url c) (call_opts c) net rnd)")
    case (Inr d)
    then show ?thesis using assms(3) m(2) by (auto simp: dispatch_process_def cl Let_def c)
  next
    case (Inl err)
    then have err: "http_exn (call_url c) err" by (rule client.send_exn)
    obtain r2 w2 where k: "dispatch_catch env io i err (meanwhile w1) = (r2, w2)" by fastforce
    have w': "w' = w2" "r = r2" using assms(3) Inl k by (auto simp: dispatch_process_def cl Let_def c)
    have st: "status_of i (snd (updateStatus a i [PROCESSING] FAILED x (meanwhile w1))) \<noteq> Some PENDING"
      for a x
      using m repo.cas_hit [OF m(1), of a i "[PROCESSING]" FAILED x]
        repo.cas_noop [OF m(1), of a i "[PROCESSING]" FAILED x]
      by (cases "updateStatus a i [PROCESSING] FAILED x (meanwhile w1)") fastforce
    then have "status_of i (snd (io_call (dio_fail io) (updateStatus a i [PROCESSING] FAILED x)
        (meanwhile w1))) \<noteq> Some PENDING" for a x
      using m(2) by (cases "dio_fail io") auto
    then have "status_of i w2 \<noteq> Some PENDING"
      using k by (auto simp: dispatch_catch_http [OF err] split: prod.splits sum.splits) (metis snd_conv)+
    moreover have "dispatch_catch env (io\<lparr>dio_revert := v\<rparr>) i err (meanwhile w1) = (r2, w2)"
      using k by (simp add: dispatch_catch_http [OF err])
    ultimately show ?thesis
      using Inl cl by (auto simp: w' dispatch_process_def Let_def c)
  qed
qed

theorem dispatch_never_reverts_witness:
  "\<exists>c w'. dispatch_process sample_dispatch (dispatch_ok\<lparr>dio_revert := Fail_Before\<rparr>) rejecting (\<lambda>_. 0) (\<lambda>w. w) ''t'' 300
      (sample_world [sample_row ''t'' PENDING]) = (Inr (), Some c, w') \<and> status_of ''t'' w' \<noteq> Some PENDING"
proof -
  let ?w = "sample_world [sample_row ''t'' PENDING]"
  obtain w1 where cl: "claim sample_dispatch ''t'' 300 ?w = (Inr (Some (claimed_row sample_dispatch 300 (sample_row ''t'' PENDING))), w1)"
    "db_inv w1" "findById ''t'' w1 = Some (claimed_row sample_dispatch 300 (sample_row ''t'' PENDING))"
    by (rule claim_hit [of ?w "''t''" "sample_row ''t'' PENDING" sample_dispatch 300]) simp_all
  have "http_exn ''http://e'' (NonRetryableError ''http://e'' 400)"
    "status (claimed_row sample_dispatch 300 (sample_row ''t'' PENDING)) = PROCESSING"
    by (simp_all add: http_exn_def claimed_row_def)
  then obtain w2 where "dispatch_catch sample_dispatch dispatch_ok ''t'' (NonRetryableError ''http://e'' 400) w1 = (Inr (), w2)"
    using dispatch_catch_hit [OF cl(2) _ cl(3)] by metis
  then have "dispatch_process sample_dispatch dispatch_ok rejecting (\<lambda>_. 0) (\<lambda>w. w) ''t'' 300 ?w =
      (Inr (), Some (dispatch_call ''t'' (sample_row ''t'' PENDING)), w2)"
    by (simp add: dispatch_process_def cl(1) rejecting_outcome Let_def)
  from dispatch_never_reverts [OF db_inv_sample_row(1) _ this, of Fail_Before] show ?thesis by auto
qed

end
