(* ===== verification/TimeoutSweeper.thy ===== *)
theory TimeoutSweeper
  imports Samples
begin

text \<open>
  The timeout sweeper: \<open>expireTimedOutTasksBatch\<close> of
  \<^verbatim>\<open>src/modules/maintenance/maintenance.repository.ts\<close> and the loop of
  \<^verbatim>\<open>workers/timeout-sweeper.processor.ts\<close>. A batch is one transaction. The rows other transactions
  hold locked at that time are a parameter of the batch (\<open>SKIP LOCKED\<close>), like the clock and the
  generated identifiers; the environment of batch number \<open>k\<close> is \<open>env k\<close>.
\<close>

section \<open>Sweeper batch\<close>

definition timeoutError :: task_error where
  "timeoutError =
     \<lparr> err_code = ''BUSINESS_TIMEOUT'',
       err_message = ''Task exceeded its configured timeout and was automatically failed.'',
       err_details = None \<rparr>"

record sweep_env =
  sw_now :: time               \<comment> \<open>\<open>new Date()\<close>\<close>
  sw_upd :: time
  sw_dbnow :: time
  sw_eid :: "nat \<Rightarrow> uuid"      \<comment> \<open>\<open>gen_random_uuid()\<close> for each inserted row\<close>
  sw_locked :: "uuid list"     \<comment> \<open>rows another transaction holds\<close>
  sw_io :: io
  sw_publish :: "nat \<Rightarrow> io"

definition overdue :: "time \<Rightarrow> task \<Rightarrow> bool" where
  "overdue now t \<longleftrightarrow> active (status t) \<and> (case expiresAt t of None \<Rightarrow> False | Some x \<Rightarrow> x < now)"

definition expired_ids :: "sweep_env \<Rightarrow> nat \<Rightarrow> task list \<Rightarrow> uuid list" where
  "expired_ids env batchSize rows =
     take batchSize (map task_id
       (filter (\<lambda>t. overdue (sw_now env) t \<and> task_id t \<notin> set (sw_locked env)) rows))"

definition expire_row :: "sweep_env \<Rightarrow> task \<Rightarrow> task" where
  "expire_row env t =
     set_status (sw_upd env) FAILED
       (no_patch\<lparr>set_completedAt := Some (Some (sw_now env)), set_error := Some (Some timeoutError)\<rparr>) t"

text \<open>
  The bulk insert: every row of the statement is computed against the table before it, with
  \<open>ROW_NUMBER()\<close> counting the rows of the same task so far.
\<close>

definition bulk_row :: "sweep_env \<Rightarrow> uuid list \<Rightarrow> task_event list \<Rightarrow> nat \<Rightarrow> task_event" where
  "bulk_row env ids evs k =
     \<lparr> ev_id = sw_eid env k, ev_taskId = ids ! k,
       seq = max_seq (ids ! k) evs + int (count_list (take (Suc k) ids) (ids ! k)),
       eventType = EvFailed,
       ev_payload = JObj [(''error'', task_error_json timeoutError)],
       ev_createdAt = sw_dbnow env \<rparr>"

fun events_insert_rows :: "task_event list \<Rightarrow> task_event list \<Rightarrow> exn + task_event list" where
  "events_insert_rows [] evs = Inr evs"
| "events_insert_rows (r # rs) evs =
     (case events_insert_row r evs of Inl e \<Rightarrow> Inl e | Inr evs' \<Rightarrow> events_insert_rows rs evs')"

definition expireTimedOutTasksBatch ::
  "sweep_env \<Rightarrow> nat \<Rightarrow> 'a db_scheme \<Rightarrow> (exn + (nat \<times> task_event list)) \<times> 'a db_scheme" where
  "expireTimedOutTasksBatch env batchSize s =
     (let ids = expired_ids env batchSize (tasks s)
      in case tasks_update_rows (\<lambda>t. task_id t \<in> set ids) (expire_row env) (tasks s) of
           Inl e \<Rightarrow> (Inl e, s)
         | Inr (rows, expired) \<Rightarrow>
             if length expired = 0 then (Inr (0, []), s)
             else (let expiredIds = map task_id expired;
                       new = map (bulk_row env expiredIds (task_events s)) [0..<length expiredIds]
                   in case events_insert_rows new (task_events s) of
                        Inl e \<Rightarrow> (Inl e, s)
                      | Inr evs \<Rightarrow> (Inr (length expired, new), s\<lparr>tasks := rows, task_events := evs\<rparr>)))"

section \<open>Sweeper loop\<close>

definition SWEEP_BATCH_SIZE :: nat where
  "SWEEP_BATCH_SIZE = 500"

text \<open>Publishing the events of a batch; a failed publication is logged.\<close>

fun publish_all :: "(nat \<Rightarrow> io) \<Rightarrow> task_event list \<Rightarrow> world \<Rightarrow> world" where
  "publish_all v [] w = w"
| "publish_all v (e # es) w =
     publish_all (v \<circ> Suc) es (snd (io_call (v 0) (publish_event (ev_taskId e) e) w))"

lemma publish_io_frame:
  "tasks (snd (io_call v (publish_event i e) w)) = tasks w"
  "task_events (snd (io_call v (publish_event i e) w)) = task_events w"
  "bull (snd (io_call v (publish_event i e) w)) = bull w"
  "redis (snd (io_call v (publish_event i e) w)) = redis w"
  by (cases v; simp add: publish_event_def)+

lemma publish_all_frame [simp]:
  "tasks (publish_all v es w) = tasks w" "task_events (publish_all v es w) = task_events w"
  "bull (publish_all v es w) = bull w" "redis (publish_all v es w) = redis w"
  by (induction es arbitrary: v w) (simp_all add: publish_io_frame)

lemma expire_row_status [simp]: "status (expire_row env t) = FAILED"
  by (simp add: expire_row_def)

text \<open>A batch that expires something leaves fewer active tasks.\<close>

lemma batch_progress:
  assumes "expireTimedOutTasksBatch env n s = (Inr (k, evs), s')" and "k \<noteq> 0"
  shows "length (filter (\<lambda>t. active (status t)) (tasks s')) <
         length (filter (\<lambda>t. active (status t)) (tasks s))"
proof -
  let ?p = "\<lambda>t. task_id t \<in> set (expired_ids env n (tasks s))"
  have s': "tasks s' = update_where ?p (expire_row env) (tasks s)" and ne: "filter ?p (tasks s) \<noteq> []"
    using assms by (auto simp: expireTimedOutTasksBatch_def tasks_update_rows_def Let_def
        split: if_splits sum.splits)
  have "expired_ids env n (tasks s) \<noteq> []" using ne by (auto simp: filter_empty_conv)
  then obtain i where "i \<in> set (expired_ids env n (tasks s))" by (meson last_in_set)
  moreover from this obtain t where "t \<in> set (tasks s)" "task_id t = i" "active (status t)"
    unfolding expired_ids_def by (drule_tac in_set_takeD) (auto simp: overdue_def)
  ultimately have t: "t \<in> set (tasks s)" "?p t" "active (status t)" by simp_all
  have "length (filter (\<lambda>t. active (status t)) (update_where p (expire_row env) rows)) +
      length (filter (\<lambda>t. p t \<and> active (status t)) rows) =
      length (filter (\<lambda>t. active (status t)) rows)" for p and rows :: "task list"
    by (induction rows) auto
  moreover have "0 < length (filter (\<lambda>t. ?p t \<and> active (status t)) (tasks s))"
    using t by (auto simp: filter_empty_conv simp del: length_filter_conv_card)
  ultimately show ?thesis unfolding s' by (metis less_add_same_cancel1)
qed

function sweep_loop ::
  "(nat \<Rightarrow> sweep_env) \<Rightarrow> nat \<Rightarrow> nat \<Rightarrow> world \<Rightarrow> (exn + nat) \<times> world" where
  "sweep_loop env k totalExpired w =
     (case io_call (sw_io (env k)) (expireTimedOutTasksBatch (env k) SWEEP_BATCH_SIZE) w of
        (Inl e, w1) \<Rightarrow> (Inl e, w1)
      | (Inr (expiredCount, events), w1) \<Rightarrow>
          if expiredCount = 0 then (Inr totalExpired, w1)
          else sweep_loop env (Suc k) (totalExpired + expiredCount)
                 (publish_all (sw_publish (env k)) events w1))"
  by pat_completeness auto
termination
  by (relation "measure (\<lambda>(env, k, n, w). length (filter (\<lambda>t. active (status t)) (tasks w)))")
    (auto simp: io_call_Inr dest!: sym [of "(Inr _, _)"] dest: batch_progress)

declare sweep_loop.simps [simp del]

definition sweep_process :: "(nat \<Rightarrow> sweep_env) \<Rightarrow> world \<Rightarrow> (exn + nat) \<times> world" where
  "sweep_process env w = sweep_loop env 0 0 w"

section \<open>The bulk insert as one append per task\<close>

lemma events_insert_rows_Inr: "events_insert_rows rs evs = Inr evs' \<Longrightarrow> evs' = evs @ rs"
proof (induction rs arbitrary: evs)
  case (Cons r rs)
  then have "events_insert_rows rs (evs @ [r]) = Inr evs'"
    by (auto simp: events_insert_row_def split: if_splits)
  from Cons.IH [OF this] show ?case by simp
qed simp

lemma events_insert_rows_append:
  "events_insert_rows (xs @ ys) evs =
     (case events_insert_rows xs evs of Inl e \<Rightarrow> Inl e | Inr evs' \<Rightarrow> events_insert_rows ys evs')"
  by (induction xs arbitrary: evs) (auto split: sum.split)

abbreviation bulk_rows :: "sweep_env \<Rightarrow> uuid list \<Rightarrow> task_event list \<Rightarrow> nat \<Rightarrow> task_event list" where
  "bulk_rows env ids evs n \<equiv> map (bulk_row env ids evs) [0..<n]"

lemma count_list_distinct: "distinct xs \<Longrightarrow> count_list xs x = (if x \<in> set xs then 1 else 0)"
  by (induction xs) auto

text \<open>With distinct identifiers, each row is the one \<open>insertEventInTx\<close> would have inserted next.\<close>

lemma bulk_row_next:
  assumes "distinct ids" and "k < length ids"
  shows "insertEventInTx (sw_eid env k) (sw_dbnow env) (FailedEventInput (ids ! k) timeoutError)
           (evs @ bulk_rows env ids evs k) =
         (case events_insert_row (bulk_row env ids evs k) (evs @ bulk_rows env ids evs k) of
            Inl x \<Rightarrow> Inl x | Inr evs' \<Rightarrow> Inr (bulk_row env ids evs k, evs'))"
proof -
  have "count_list (take (Suc k) ids) (ids ! k) = 1"
    using assms by (simp add: count_list_distinct in_set_conv_nth) (metis lessI min_less_iff_conj nth_take)
  moreover have "filter (\<lambda>e. ev_taskId e = ids ! k) (bulk_rows env ids evs k) = []"
    using assms by (auto simp: filter_empty_conv bulk_row_def nth_eq_iff_index_eq)
  then have "max_seq (ids ! k) (evs @ bulk_rows env ids evs k) = max_seq (ids ! k) evs"
    by (simp add: max_seq_def)
  ultimately have "bulk_row env ids evs k =
      \<lparr> ev_id = sw_eid env k, ev_taskId = ids ! k,
        seq = max_seq (ids ! k) (evs @ bulk_rows env ids evs k) + 1, eventType = EvFailed,
        ev_payload = JObj [(''error'', task_error_json timeoutError)], ev_createdAt = sw_dbnow env \<rparr>"
    by (simp add: bulk_row_def)
  from this [symmetric] show ?thesis by (simp add: insertEventInTx_def Let_def split: sum.split)
qed

lemma bulk_insert_steps:
  assumes "distinct ids" and "n \<le> length ids" and "events_wf evs" and "dense_seq evs"
    and "events_insert_rows (bulk_rows env ids evs n) evs = Inr evs'"
  shows "evs' = evs @ bulk_rows env ids evs n \<and> events_wf evs' \<and> dense_seq evs'
    \<and> (\<forall>k < length ids. task_log evs' (ids ! k) =
         task_log evs (ids ! k) @ (if k < n then [bulk_row env ids evs k] else []))
    \<and> (\<forall>i. i \<notin> set ids \<longrightarrow> task_log evs' i = task_log evs i)"
  using assms(2,5)
proof (induction n arbitrary: evs')
  case 0
  then show ?case using assms(3,4) by simp
next
  case (Suc n)
  then obtain evs1 where e1: "events_insert_rows (bulk_rows env ids evs n) evs = Inr evs1"
    and e2: "events_insert_row (bulk_row env ids evs n) evs1 = Inr evs'"
    by (auto simp: events_insert_rows_append split: sum.splits)
  note IH = Suc.IH [OF _ e1]
  have n: "n < length ids" using Suc.prems(1) by simp
  have "evs1 = evs @ bulk_rows env ids evs n" using IH n by simp
  then have ins: "insertEventInTx (sw_eid env n) (sw_dbnow env) (FailedEventInput (ids ! n) timeoutError) evs1
      = Inr (bulk_row env ids evs n, evs')"
    using bulk_row_next [OF assms(1) n, of env evs] e2 by simp
  have "evs' = evs1 @ [bulk_row env ids evs n]" using ins by (simp add: insertEventInTx_Inr)
  moreover have "events_wf evs'" "dense_seq evs'"
    using IH n insertEventInTx_wf [OF _ ins] dense_seq_append [OF _ ins] by auto
  moreover have "ids ! k = ids ! n \<longleftrightarrow> k = n" if "k < length ids" for k
    using assms(1) n that by (simp add: nth_eq_iff_index_eq)
  moreover have "i \<noteq> ids ! n" if "i \<notin> set ids" for i using that n by auto
  ultimately show ?case
    using IH n task_log_append [OF ins] by (auto simp: less_Suc_eq)
qed

lemma bulk_insert_total:
  assumes "distinct ids" and "n \<le> length ids" and "events_wf evs" and "dense_seq evs"
    and "\<And>k. k < n \<Longrightarrow> sw_eid env k \<notin> ev_id ` set evs" and "inj_on (sw_eid env) {..<n}"
  shows "events_insert_rows (bulk_rows env ids evs n) evs = Inr (evs @ bulk_rows env ids evs n)"
  using assms(2,5,6)
proof (induction n)
  case 0
  then show ?case by simp
next
  case (Suc n)
  let ?evs = "evs @ bulk_rows env ids evs n"
  have IH: "events_insert_rows (bulk_rows env ids evs n) evs = Inr ?evs"
    using Suc by (simp add: lessThan_Suc)
  then have "events_wf ?evs"
    using bulk_insert_steps [OF assms(1) _ assms(3,4) IH] Suc.prems(1) by simp
  moreover have "sw_eid env n \<noteq> sw_eid env k" if "k < n" for k
    using inj_onD [OF Suc.prems(3), of n k] that by auto
  then have "sw_eid env n \<notin> ev_id ` set ?evs"
    using Suc.prems(2) [of n] by (fastforce simp: bulk_row_def)
  ultimately obtain e where "insertEventInTx (sw_eid env n) (sw_dbnow env)
      (FailedEventInput (ids ! n) timeoutError) ?evs = Inr (e, ?evs @ [e])"
    using insertEventInTx_total by (metis events_wf_def)
  then have "events_insert_row (bulk_row env ids evs n) ?evs = Inr (?evs @ [bulk_row env ids evs n])"
    using bulk_row_next [OF assms(1), of n env evs] Suc.prems(1) by (auto split: sum.splits)
  with IH show ?case by (simp add: events_insert_rows_append)
qed

section \<open>What a batch does\<close>

lemma distinct_expired_ids: "distinct (map task_id rows) \<Longrightarrow> distinct (expired_ids env n rows)"
  by (simp add: expired_ids_def distinct_map_filter)

lemma keeps_keys_expire_row [simp]: "keeps_keys (expire_row env)"
  by (simp add: keeps_keys_def expire_row_def)

lemma expire_row_eq:
  "expire_row env t =
     t\<lparr>status := FAILED, completedAt := Some (sw_now env), error := Some timeoutError, updatedAt := sw_upd env\<rparr>"
  by (simp add: expire_row_def set_status_def apply_patch_def no_patch_def)

text \<open>An overdue row can be failed exactly when it has been started.\<close>

lemma expire_row_valid:
  "tasks_valid_state_data t \<Longrightarrow> active (status t) \<Longrightarrow>
   tasks_valid_state_data (expire_row env t) \<longleftrightarrow> status t = PROCESSING"
  by (cases "status t") (auto simp: tasks_valid_state_data_def expire_row_eq)

lemma expired_idsD:
  assumes "i \<in> set (expired_ids env n (tasks s))" and "db_inv s"
  obtains t where "findById i s = Some t" and "overdue (sw_now env) t" and "t \<in> set (tasks s)"
    and "task_id t = i"
proof -
  obtain t where t: "t \<in> set (tasks s)" "task_id t = i" "overdue (sw_now env) t"
    using assms(1) unfolding expired_ids_def by (drule_tac in_set_takeD) auto
  then have "findById i s = Some t"
    using db_invD(4) [OF assms(2)] by (simp add: findById_def find_row_Some_iff)
  with t that show ?thesis by blast
qed

text \<open>The rows the update meets are those of the selected identifiers, each once.\<close>

lemma expired_rows:
  assumes "distinct (map task_id rows)"
  shows "map task_id (filter (\<lambda>t. task_id t \<in> set (expired_ids env n rows)) rows) = expired_ids env n rows"
proof -
  let ?q = "\<lambda>t. overdue (sw_now env) t \<and> task_id t \<notin> set (sw_locked env)"
  have "map task_id (filter (\<lambda>t. task_id t \<in> set (take n (map task_id (filter q rows)))) rows) =
      take n (map task_id (filter q rows))" for q
    using assms
  proof (induction rows arbitrary: n)
    case (Cons r rows)
    have skip: "filter (\<lambda>t. task_id t = task_id r \<or> task_id t \<in> X) rows = filter (\<lambda>t. task_id t \<in> X) rows"
      for X using Cons.prems by (intro filter_cong) (auto simp: rev_image_eqI)
    have "task_id r \<notin> set (take m (map task_id (filter q rows)))" for m
      using Cons.prems by (auto dest!: in_set_takeD)
    then show ?case using Cons by (cases n) (auto simp: skip)
  qed simp
  then show ?thesis by (simp add: expired_ids_def)
qed

lemma expire_valid_iff:
  assumes "db_inv s"
  shows "list_all tasks_valid_state_data
      (map (expire_row env) (filter (\<lambda>t. task_id t \<in> set (expired_ids env n (tasks s))) (tasks s))) \<longleftrightarrow>
    (\<forall>i \<in> set (expired_ids env n (tasks s)). status_of i s = Some PROCESSING)"
proof -
  let ?p = "\<lambda>t. task_id t \<in> set (expired_ids env n (tasks s))"
  have "tasks_valid_state_data (expire_row env t) \<longleftrightarrow> status_of (task_id t) s = Some PROCESSING"
    if t: "t \<in> set (tasks s)" "?p t" for t
  proof -
    obtain u where u: "findById (task_id t) s = Some u" "overdue (sw_now env) u"
      using expired_idsD [OF t(2) assms] by blast
    have "findById (task_id t) s = Some t"
      using t(1) db_invD(4) [OF assms] by (simp add: findById_def find_row_Some_iff)
    with u have "u = t" by simp
    then show ?thesis
      using u expire_row_valid [of t env] findById_valid [OF assms u(1)]
      by (auto simp: status_of_def overdue_def)
  qed
  then have "list_all tasks_valid_state_data (map (expire_row env) (filter ?p (tasks s))) \<longleftrightarrow>
      (\<forall>t \<in> set (filter ?p (tasks s)). status_of (task_id t) s = Some PROCESSING)"
    by (auto simp: list_all_iff)
  also have "\<dots> \<longleftrightarrow> (\<forall>i \<in> set (map task_id (filter ?p (tasks s))). status_of i s = Some PROCESSING)"
    by auto
  finally show ?thesis by (simp only: expired_rows [OF db_invD(4) [OF assms]])
qed

lemma batch_eq:
  assumes "db_inv s" and ids: "ids = expired_ids env n (tasks s)"
  shows "expireTimedOutTasksBatch env n s =
    (if \<exists>i \<in> set ids. status_of i s \<noteq> Some PROCESSING
     then (Inl (SqlError (CheckViolation ''tasks_valid_state_data'')), s)
     else if ids = [] then (Inr (0, []), s)
     else case events_insert_rows (bulk_rows env ids (task_events s) (length ids)) (task_events s) of
            Inl e \<Rightarrow> (Inl e, s)
          | Inr evs \<Rightarrow>
              (Inr (length ids, bulk_rows env ids (task_events s) (length ids)),
               s\<lparr>tasks := update_where (\<lambda>t. task_id t \<in> set ids) (expire_row env) (tasks s),
                 task_events := evs\<rparr>))"
proof -
  let ?p = "\<lambda>t. task_id t \<in> set ids"
  have sel: "map task_id (filter ?p (tasks s)) = ids"
    using expired_rows [OF db_invD(4) [OF assms(1)], of env n] by (simp add: ids)
  then have len: "length (filter ?p (tasks s)) = length ids" by (metis length_map)
  have "task_id \<circ> expire_row env = task_id"
    using keeps_keys_expire_row [of env] by (auto simp: keeps_keys_def)
  with sel have ret: "map (task_id \<circ> expire_row env) (filter ?p (tasks s)) = ids" by simp
  have emp: "filter ?p (tasks s) = [] \<longleftrightarrow> ids = []" using len by (metis length_0_conv)
  show ?thesis
  proof (cases "\<forall>i \<in> set ids. status_of i s = Some PROCESSING")
    case True
    then have "list_all tasks_valid_state_data (map (expire_row env) (filter ?p (tasks s)))"
      using expire_valid_iff [OF assms(1), of env n] by (simp add: ids)
    with True show ?thesis
      by (simp add: expireTimedOutTasksBatch_def tasks_update_rows_def ids [symmetric] Let_def ret len emp
          split: sum.split)
  next
    case False
    then have "\<not> list_all tasks_valid_state_data (map (expire_row env) (filter ?p (tasks s)))"
      using expire_valid_iff [OF assms(1), of env n] by (simp add: ids)
    with False show ?thesis
      by (auto simp: expireTimedOutTasksBatch_def tasks_update_rows_def ids [symmetric] Let_def)
  qed
qed

text \<open>One task before and after sweeping: untouched, or failed with one event.\<close>

definition swept :: "(nat \<Rightarrow> sweep_env) \<Rightarrow> uuid \<Rightarrow> 'a db_scheme \<Rightarrow> 'a db_scheme \<Rightarrow> bool" where
  "swept env i s s' \<longleftrightarrow>
     (findById i s' = findById i s \<and> task_log (task_events s') i = task_log (task_events s) i)
   \<or> (\<exists>t e k. findById i s = Some t \<and> status t = PROCESSING \<and> overdue (sw_now (env k)) t
        \<and> findById i s' = Some (expire_row (env k) t)
        \<and> task_log (task_events s') i = task_log (task_events s) i @ [e] \<and> eventType e = EvFailed)"

lemma swept_trans: "swept env i s s1 \<Longrightarrow> swept env i s1 s2 \<Longrightarrow> swept env i s s2"
  unfolding swept_def by (elim disjE exE conjE) (auto, metis+)

definition fresh_ids :: "sweep_env \<Rightarrow> 'a db_scheme \<Rightarrow> bool" where
  "fresh_ids env s \<longleftrightarrow> inj (sw_eid env) \<and> (\<forall>k. sw_eid env k \<notin> ev_id ` set (task_events s))"

lemma batch_done:
  assumes "db_inv s" and ids: "ids = expired_ids (env b) n (tasks s)"
    and "\<And>i. i \<in> set ids \<Longrightarrow> status_of i s = Some PROCESSING" and "fresh_ids (env b) s"
  obtains s' where "expireTimedOutTasksBatch (env b) n s =
        (Inr (length ids, bulk_rows (env b) ids (task_events s) (length ids)), s')"
    and "task_events s' = task_events s @ bulk_rows (env b) ids (task_events s) (length ids)"
    and "s' = s\<lparr>tasks := tasks s', task_events := task_events s'\<rparr>" and "db_inv s'"
    and "\<And>i. swept env i s s'"
    and "\<And>i. i \<in> set ids \<Longrightarrow> \<exists>t. findById i s = Some t \<and> findById i s' = Some (expire_row (env b) t)"
proof (cases "ids = []")
  case True
  then show ?thesis
    using assms(1,3) by (intro that [of s]) (auto simp: batch_eq [OF assms(1) ids] swept_def)
next
  case False
  let ?new = "bulk_rows (env b) ids (task_events s) (length ids)"
  let ?s = "s\<lparr>tasks := update_where (\<lambda>t. task_id t \<in> set ids) (expire_row (env b)) (tasks s),
      task_events := task_events s @ ?new\<rparr>"
  have dist: "distinct ids" using db_invD(4) [OF assms(1)] by (simp add: ids distinct_expired_ids)
  have "inj_on (sw_eid (env b)) {..<length ids}"
    using assms(4) by (auto simp: fresh_ids_def intro: inj_on_subset)
  then have ins: "events_insert_rows ?new (task_events s) = Inr (task_events s @ ?new)"
    using assms(4) db_invD [OF assms(1)] dist by (intro bulk_insert_total) (auto simp: fresh_ids_def)
  note logs = bulk_insert_steps [OF dist order.refl db_invD(2,3) [OF assms(1)] ins]
  have eq: "expireTimedOutTasksBatch (env b) n s = (Inr (length ids, ?new), ?s)"
    using assms(3) False ins by (auto simp: batch_eq [OF assms(1) ids])
  have "tasks_update_rows (\<lambda>t. task_id t \<in> set ids) (expire_row (env b)) (tasks s) =
      Inr (tasks ?s, map (expire_row (env b)) (filter (\<lambda>t. task_id t \<in> set ids) (tasks s)))"
    using expire_valid_iff [OF assms(1), of "env b" n] assms(3) by (simp add: tasks_update_rows_def ids)
  then have inv: "db_inv ?s"
    using tasks_update_rows_wf [OF _ keeps_keys_expire_row] db_invD(1) [OF assms(1)] logs
    by (simp add: db_inv_def)
  have find: "findById i ?s = map_option (\<lambda>t. if i \<in> set ids then expire_row (env b) t else t) (findById i s)" for i
    using findById_update_where [OF keeps_keys_expire_row, where i = i and s = s]
      findById_valid [OF assms(1), of i]
    by (cases "findById i s") (auto simp: findById_def)
  have sel: "\<exists>t. findById i s = Some t \<and> findById i ?s = Some (expire_row (env b) t)
      \<and> status t = PROCESSING \<and> overdue (sw_now (env b)) t" if i: "i \<in> set ids" for i
  proof -
    obtain t where t: "findById i s = Some t" "overdue (sw_now (env b)) t"
      by (rule expired_idsD [OF i [unfolded ids] assms(1)])
    moreover have "status t = PROCESSING" using assms(3) [OF i] t(1) by (simp add: status_of_def)
    ultimately show ?thesis using find [of i] i by simp
  qed
  have "swept env i s ?s" for i
  proof (cases "i \<in> set ids")
    case True
    then obtain k where "k < length ids" "i = ids ! k" by (metis in_set_conv_nth)
    then have "task_log (task_events ?s) i = task_log (task_events s) i @ [bulk_row (env b) ids (task_events s) k]"
      "eventType (bulk_row (env b) ids (task_events s) k) = EvFailed"
      using logs by (auto simp: bulk_row_def)
    with sel [OF True] show ?thesis unfolding swept_def by blast
  next
    case False
    then show ?thesis using logs find [of i] by (cases "findById i s") (auto simp: swept_def)
  qed
  then show ?thesis using eq inv sel by (intro that [of ?s]) auto
qed

section \<open>The whole sweep\<close>

lemma expired_ids_empty:
  assumes "expired_ids env SWEEP_BATCH_SIZE rows = []" and "sw_locked env = []" and "t \<in> set rows"
  shows "\<not> overdue (sw_now env) t"
  using assms by (auto simp: expired_ids_def SWEEP_BATCH_SIZE_def filter_empty_conv)

lemma overdue_mono: "overdue now t \<Longrightarrow> now \<le> now' \<Longrightarrow> overdue now' t"
  by (auto simp: overdue_def split: option.splits)

text \<open>
  What the environment grants a sweep from batch \<open>k\<close> on: the database answers, nobody holds a lock,
  the clock does not run backwards past \<open>now\<close>, generated identifiers are new.
\<close>

definition sweep_granted :: "(nat \<Rightarrow> sweep_env) \<Rightarrow> nat \<Rightarrow> time \<Rightarrow> world \<Rightarrow> bool" where
  "sweep_granted env k now w \<longleftrightarrow>
     (\<forall>b \<ge> k. sw_io (env b) = Done \<and> sw_locked (env b) = [] \<and> now \<le> sw_now (env b)
             \<and> fresh_ids (env b) w)
     \<and> (\<forall>b c x y. sw_eid (env b) x = sw_eid (env c) y \<longrightarrow> b = c)"

definition no_pending_overdue :: "(nat \<Rightarrow> sweep_env) \<Rightarrow> world \<Rightarrow> bool" where
  "no_pending_overdue env w \<longleftrightarrow>
     (\<forall>b. \<forall>t \<in> set (tasks w). status t = PENDING \<longrightarrow> \<not> overdue (sw_now (env b)) t)"

text \<open>An environment to apply the properties to: batch \<open>b\<close> draws the identifiers \<open>a\<dots>a-b\<dots>b\<close>.\<close>

definition sample_sweep :: "nat \<Rightarrow> sweep_env" where
  "sample_sweep b =
     \<lparr>sw_now = 400000 + int b, sw_upd = 0, sw_dbnow = 0,
      sw_eid = (\<lambda>x. replicate b (CHR ''a'') @ ''-'' @ replicate x (CHR ''b'')),
      sw_locked = [], sw_io = Done, sw_publish = (\<lambda>_. Fail_Before)\<rparr>"

lemma sample_sweep_eid: "sw_eid (sample_sweep b) x = sw_eid (sample_sweep c) y \<Longrightarrow> b = c \<and> x = y"
proof -
  assume eq: "sw_eid (sample_sweep b) x = sw_eid (sample_sweep c) y"
  have "length (takeWhile (\<lambda>c. c = CHR ''a'') (sw_eid (sample_sweep k) z)) = k" for k z
    by (simp add: sample_sweep_def takeWhile_append)
  with eq have "b = c" by metis
  then show ?thesis using arg_cong [OF eq, of length] by (simp add: sample_sweep_def)
qed

lemma sample_sweep_granted: "sweep_granted sample_sweep 0 400000 (sample_world rows)"
  using sample_sweep_eid
  by (auto simp: sweep_granted_def fresh_ids_def inj_def) (simp_all add: sample_sweep_def)

lemma processing_ids:
  assumes "db_inv w" and "no_pending_overdue env w" and "i \<in> set (expired_ids (env k) n (tasks w))"
  shows "status_of i w = Some PROCESSING"
proof -
  obtain t where t: "findById i w = Some t" "overdue (sw_now (env k)) t" "t \<in> set (tasks w)"
    by (rule expired_idsD [OF assms(3,1)])
  then have "status t \<noteq> PENDING" "active (status t)"
    using assms(2) by (auto simp: no_pending_overdue_def overdue_def)
  then show ?thesis using t(1) by (cases "status t") (auto simp: status_of_def)
qed

lemma swept_no_pending:
  assumes "db_inv w" and "db_inv w'" and "\<And>i. swept env i w w'" and "no_pending_overdue env w"
  shows "no_pending_overdue env w'"
  unfolding no_pending_overdue_def
proof (intro allI ballI impI)
  fix b t assume t: "t \<in> set (tasks w')" "status t = PENDING"
  then have "findById (task_id t) w' = Some t"
    using db_invD(4) [OF assms(2)] by (simp add: findById_def find_row_Some_iff)
  with assms(3) [of "task_id t"] t(2) have "findById (task_id t) w = Some t"
    by (auto simp: swept_def)
  then show "\<not> overdue (sw_now (env b)) t"
    using assms(4) t(2) by (auto simp: no_pending_overdue_def findById_def dest!: find_row_SomeD)
qed

lemma sweep_loop_done:
  assumes "db_inv w" and "sweep_granted env k now w" and "no_pending_overdue env w"
  shows "\<exists>m w'. sweep_loop env k tot w = (Inr m, w') \<and> db_inv w' \<and> (\<forall>i. swept env i w w')
    \<and> (\<forall>t \<in> set (tasks w'). \<not> overdue now t) \<and> bull w' = bull w"
  using assms
proof (induction env k tot w rule: sweep_loop.induct)
  case (1 env k tot w)
  let ?ids = "expired_ids (env k) SWEEP_BATCH_SIZE (tasks w)"
  have g: "sw_io (env k) = Done" "sw_locked (env k) = []" "now \<le> sw_now (env k)" "fresh_ids (env k) w"
    using "1.prems"(2) by (auto simp: sweep_granted_def)
  obtain w1 where b: "expireTimedOutTasksBatch (env k) SWEEP_BATCH_SIZE w =
        (Inr (length ?ids, bulk_rows (env k) ?ids (task_events w) (length ?ids)), w1)"
    and ev: "task_events w1 = task_events w @ bulk_rows (env k) ?ids (task_events w) (length ?ids)"
    and rest: "w1 = w\<lparr>tasks := tasks w1, task_events := task_events w1\<rparr>" "db_inv w1" "\<And>i. swept env i w w1"
  proof (rule batch_done [OF "1.prems"(1), where env = env and b = k and n = SWEEP_BATCH_SIZE and ids = ?ids])
    show "fresh_ids (env k) w" by (rule g(4))
    show "status_of i w = Some PROCESSING" if "i \<in> set ?ids" for i
      using processing_ids [OF "1.prems"(1,3) that] .
  qed (rule refl, blast)
  have bull1: "bull w1 = bull w" by (subst rest(1)) simp
  show ?case
  proof (cases "?ids = []")
    case True
    then have "sweep_loop env k tot w = (Inr tot, w1)" by (subst sweep_loop.simps) (simp add: g(1) b)
    moreover have "w1 = w" using b True "1.prems"(1) by (simp add: batch_eq)
    ultimately show ?thesis
      using True expired_ids_empty [OF True g(2)] overdue_mono [OF _ g(3)] "1.prems"(1)
      by (auto simp: swept_def)
  next
    case False
    let ?pub = "publish_all (sw_publish (env k)) (bulk_rows (env k) ?ids (task_events w) (length ?ids)) w1"
    have call: "io_call (sw_io (env k)) (expireTimedOutTasksBatch (env k) SWEEP_BATCH_SIZE) w =
        (Inr (length ?ids, bulk_rows (env k) ?ids (task_events w) (length ?ids)), w1)"
      by (simp add: g(1) b)
    have step: "sweep_loop env k tot w = sweep_loop env (Suc k) (tot + length ?ids) ?pub"
      using False by (subst sweep_loop.simps) (simp add: g(1) b)
    have pub: "db_inv ?pub" "\<And>i. findById i ?pub = findById i w1"
      using rest(2) by (simp_all add: db_inv_def findById_def)
    have sw: "swept env i w ?pub" for i using rest(3) [of i] pub(2) by (simp add: swept_def)
    have "sw_eid (env b) x \<notin> ev_id ` set (task_events ?pub)" if "Suc k \<le> b" for b x
    proof -
      have "sw_eid (env b) x \<notin> ev_id ` set (task_events w)" "\<And>y. sw_eid (env b) x \<noteq> sw_eid (env k) y"
        using "1.prems"(2) that by (auto simp: sweep_granted_def fresh_ids_def) (metis Suc_n_not_le_n)
      then show ?thesis by (fastforce simp: ev bulk_row_def)
    qed
    then have "sweep_granted env (Suc k) now ?pub"
      using "1.prems"(2) unfolding sweep_granted_def fresh_ids_def by simp
    then obtain m w' where "sweep_loop env (Suc k) (tot + length ?ids) ?pub = (Inr m, w')" "db_inv w'"
      "\<forall>i. swept env i ?pub w'" "\<forall>t \<in> set (tasks w'). \<not> overdue now t" "bull w' = bull ?pub"
      using "1.IH" [OF call [symmetric] refl refl] False pub(1)
        swept_no_pending [OF "1.prems"(1) pub(1) sw "1.prems"(3)] by auto
    with swept_trans [OF sw] show ?thesis by (auto simp: step bull1)
  qed
qed

text \<open>
  C18: The sweep ends and does its work: when no task still \<open>PENDING\<close> is overdue, the database answers
  and nobody holds locks, the loop over batches of 500 returns, leaves no task past its deadline, and
  changes every task in one of two ways only: not at all, or from \<open>PROCESSING\<close> past its deadline to
  \<open>FAILED\<close> with \<open>BUSINESS_TIMEOUT\<close> and exactly one \<open>failed\<close> event appended to its log. No job is
  enqueued, so a timeout is never reported to the task's webhook.
\<close>

theorem sweep_expires_overdue:
  assumes "db_inv w" and "sweep_granted env 0 now w" and "no_pending_overdue env w"
  shows "\<exists>m w'. sweep_process env w = (Inr m, w') \<and> db_inv w'
    \<and> (\<forall>t \<in> set (tasks w'). \<not> overdue now t)
    \<and> (\<forall>i. findById i w' = findById i w \<and> task_log (task_events w') i = task_log (task_events w) i
        \<or> (\<exists>t e k. findById i w = Some t \<and> status t = PROCESSING \<and> overdue (sw_now (env k)) t
             \<and> findById i w' = Some (t\<lparr>status := FAILED, completedAt := Some (sw_now (env k)),
                   error := Some timeoutError, updatedAt := sw_upd (env k)\<rparr>)
             \<and> task_log (task_events w') i = task_log (task_events w) i @ [e] \<and> eventType e = EvFailed))
    \<and> bull w' = bull w"
  using sweep_loop_done [OF assms, of 0]
  unfolding sweep_process_def swept_def expire_row_eq by blast

theorem sweep_expires_overdue_witness:
  "\<exists>m w'. sweep_process sample_sweep (sample_world [sample_row ''t'' PROCESSING]) = (Inr m, w')
     \<and> \<not> (\<exists>t \<in> set (tasks w'). overdue 400000 t)"
proof -
  have "no_pending_overdue sample_sweep (sample_world [sample_row ''t'' PROCESSING])"
    by (simp add: no_pending_overdue_def)
  from sweep_expires_overdue [OF db_inv_sample_row(1) sample_sweep_granted this] show ?thesis by blast
qed

text \<open>
  C36: One overdue task that is still \<open>PENDING\<close> stops the sweeper. The update gives it the status
  \<open>FAILED\<close> without a start time, which the check constraint of the table forbids, so the whole
  batch is rejected: the job fails, and no task at all is expired, in this sweep and in every later
  one as long as that task stays overdue (with at most 500 overdue tasks it is always selected).
\<close>

theorem sweep_blocked_by_pending:
  assumes "db_inv w" and "findById i w = Some t" and "status t = PENDING"
    and "overdue (sw_now (env 0)) t" and "i \<notin> set (sw_locked (env 0))" and "sw_io (env 0) = Done"
    and "length (filter (overdue (sw_now (env 0))) (tasks w)) \<le> SWEEP_BATCH_SIZE"
  shows "sweep_process env w = (Inl (SqlError (CheckViolation ''tasks_valid_state_data'')), w)"
proof -
  let ?q = "\<lambda>t. overdue (sw_now (env 0)) t \<and> task_id t \<notin> set (sw_locked (env 0))"
  have "length (filter ?q (tasks w)) \<le> length (filter (overdue (sw_now (env 0))) (tasks w))"
    by (simp flip: filter_filter)
  then have "expired_ids (env 0) SWEEP_BATCH_SIZE (tasks w) = map task_id (filter ?q (tasks w))"
    using assms(7) by (simp add: expired_ids_def)
  moreover have "t \<in> set (tasks w)" "task_id t = i"
    using assms(2) by (auto simp: findById_def dest: find_row_SomeD)
  ultimately have "i \<in> set (expired_ids (env 0) SWEEP_BATCH_SIZE (tasks w))" using assms(4,5) by auto
  moreover have "status_of i w \<noteq> Some PROCESSING" using assms(2,3) by (simp add: status_of_def)
  ultimately have "expireTimedOutTasksBatch (env 0) SWEEP_BATCH_SIZE w =
      (Inl (SqlError (CheckViolation ''tasks_valid_state_data'')), w)"
    by (auto simp: batch_eq [OF assms(1) refl])
  then show ?thesis
    unfolding sweep_process_def by (subst sweep_loop.simps) (simp add: assms(6))
qed

theorem sweep_blocked_by_pending_witness:
  "sweep_process sample_sweep (sample_world [sample_row ''t'' PENDING]) =
     (Inl (SqlError (CheckViolation ''tasks_valid_state_data'')), sample_world [sample_row ''t'' PENDING])"
  by (rule sweep_blocked_by_pending [of _ "''t''" "sample_row ''t'' PENDING"])
    (simp_all add: overdue_def sample_sweep_def SWEEP_BATCH_SIZE_def)

end
