(* ===== verification/DataRetention.thy ===== *)
theory DataRetention
  imports Samples
begin

text \<open>
  Data retention: \<open>deleteOldData\<close> of \<^verbatim>\<open>src/modules/maintenance/maintenance.repository.ts\<close>, run by
  \<^verbatim>\<open>workers/data-retention.processor.ts\<close>. Each round selects up to 500 identifiers, then deletes
  their events and rows in one transaction.
\<close>

section \<open>Batches\<close>

definition RETENTION_DELETE_BATCH_SIZE :: nat where
  "RETENTION_DELETE_BATCH_SIZE = 500"

definition prunable :: "time \<Rightarrow> task \<Rightarrow> bool" where
  "prunable cutoff t \<longleftrightarrow> status t \<in> {COMPLETED, FAILED, CANCELLED} \<and> createdAt t < cutoff"

definition retention_ids :: "time \<Rightarrow> task list \<Rightarrow> uuid list" where
  "retention_ids cutoff rows =
     take RETENTION_DELETE_BATCH_SIZE (map task_id (filter (prunable cutoff) rows))"

text \<open>The transaction of one batch: events first, then tasks, with the numbers deleted.\<close>

definition delete_batch :: "uuid list \<Rightarrow> 'a db_scheme \<Rightarrow> (exn + (nat \<times> nat)) \<times> 'a db_scheme" where
  "delete_batch ids s =
     (Inr (length (filter (\<lambda>e. ev_taskId e \<in> set ids) (task_events s)),
           length (filter (\<lambda>t. task_id t \<in> set ids) (tasks s))),
      s\<lparr>task_events := delete_where (\<lambda>e. ev_taskId e \<in> set ids) (task_events s),
        tasks := delete_where (\<lambda>t. task_id t \<in> set ids) (tasks s)\<rparr>)"

text \<open>
  The two statements of that transaction. That nothing comes between them is a convention of the model:
  see \<open>retention_orphan\<close> below for what can.
\<close>

definition delete_events :: "uuid list \<Rightarrow> 'a db_scheme \<Rightarrow> nat \<times> 'a db_scheme" where
  "delete_events ids s =
     (length (filter (\<lambda>e. ev_taskId e \<in> set ids) (task_events s)),
      s\<lparr>task_events := delete_where (\<lambda>e. ev_taskId e \<in> set ids) (task_events s)\<rparr>)"

definition delete_tasks :: "uuid list \<Rightarrow> 'a db_scheme \<Rightarrow> nat \<times> 'a db_scheme" where
  "delete_tasks ids s =
     (length (filter (\<lambda>t. task_id t \<in> set ids) (tasks s)),
      s\<lparr>tasks := delete_where (\<lambda>t. task_id t \<in> set ids) (tasks s)\<rparr>)"

lemma delete_batch_statements:
  "delete_batch ids s =
     (case delete_events ids s of (m, s1) \<Rightarrow> case delete_tasks ids s1 of (n, s2) \<Rightarrow> (Inr (m, n), s2))"
  by (simp add: delete_batch_def delete_events_def delete_tasks_def)

lemma retention_progress:
  assumes "retention_ids cutoff rows \<noteq> []"
  shows "length (delete_where (\<lambda>t. task_id t \<in> set (retention_ids cutoff rows)) rows) < length rows"
proof -
  obtain i where i: "i \<in> set (retention_ids cutoff rows)" using assms by (meson last_in_set)
  then obtain t where "t \<in> set rows" "task_id t = i"
    unfolding retention_ids_def by (drule_tac in_set_takeD) auto
  with i show ?thesis unfolding delete_where_def by (intro length_filter_less) auto
qed

text \<open>The \<open>do ... while\<close> loop; \<open>v\<close> gives the verdicts of the two database calls of each round.\<close>

function retention_loop ::
  "(nat \<Rightarrow> io \<times> io) \<Rightarrow> time \<Rightarrow> nat \<Rightarrow> nat \<times> nat \<Rightarrow> 'a db_scheme \<Rightarrow> (exn + (nat \<times> nat)) \<times> 'a db_scheme" where
  "retention_loop v cutoff k tot s =
     (if fst (v k) \<noteq> Done then (Inl InfraError, s)
      else let ids = retention_ids cutoff (tasks s)
           in if ids = [] then (Inr tot, s)
              else (case io_call (snd (v k)) (delete_batch ids) s of
                      (Inl e, s1) \<Rightarrow> (Inl e, s1)
                    | (Inr (evs, ts), s1) \<Rightarrow>
                        (let tot' = (fst tot + evs, snd tot + ts)
                         in if length ids \<ge> RETENTION_DELETE_BATCH_SIZE
                            then retention_loop v cutoff (Suc k) tot' s1 else (Inr tot', s1))))"
  by pat_completeness auto
termination
  by (relation "measure (\<lambda>(v, cutoff, k, tot, s). length (tasks s))")
    (auto simp: io_call_Inr delete_batch_def dest!: sym [of "(Inr _, _)"] intro: retention_progress)

declare retention_loop.simps [simp del]

text \<open>
  \<open>deleteOldData\<close>: \<open>back\<close> is the calendar step \<open>setDate(getDate() - n)\<close> in the time zone of the host.
\<close>

definition deleteOldData ::
  "(time \<Rightarrow> int \<Rightarrow> time) \<Rightarrow> (nat \<Rightarrow> io \<times> io) \<Rightarrow> time \<Rightarrow> int \<Rightarrow> 'a db_scheme
     \<Rightarrow> (exn + (nat \<times> nat)) \<times> 'a db_scheme" where
  "deleteOldData back v now retentionDays s = retention_loop v (back now retentionDays) 0 (0, 0) s"

section \<open>What retention deletes\<close>

definition prunable_ids :: "time \<Rightarrow> task list \<Rightarrow> uuid set" where
  "prunable_ids cutoff rows = {task_id t | t. t \<in> set rows \<and> prunable cutoff t}"

lemma retention_ids_prunable:
  assumes "distinct (map task_id rows)" and "t \<in> set rows" and "task_id t \<in> set (retention_ids cutoff rows)"
  shows "prunable cutoff t"
proof -
  obtain u where "u \<in> set rows" "prunable cutoff u" "task_id u = task_id t"
    using assms(3) unfolding retention_ids_def by (drule_tac in_set_takeD) auto
  moreover have "u = t" using assms(1,2) calculation(1,3) by (auto simp: distinct_map inj_on_def)
  ultimately show ?thesis by simp
qed

lemma retention_ids_sub: "set (retention_ids cutoff rows) \<subseteq> prunable_ids cutoff rows"
  unfolding retention_ids_def prunable_ids_def by (rule subset_trans [OF set_take_subset]) auto

text \<open>What a batch leaves to do.\<close>

lemma prunable_ids_split:
  assumes "distinct (map task_id rows)"
  shows "prunable_ids cutoff rows = set (retention_ids cutoff rows) \<union>
    prunable_ids cutoff (delete_where (\<lambda>t. task_id t \<in> set (retention_ids cutoff rows)) rows)"
  using retention_ids_sub [of cutoff rows] by (auto simp: prunable_ids_def)

lemma prunable_ids_last:
  "length (retention_ids cutoff rows) < RETENTION_DELETE_BATCH_SIZE \<Longrightarrow>
   prunable_ids cutoff rows = set (retention_ids cutoff rows)"
  by (auto simp: retention_ids_def prunable_ids_def image_iff)

abbreviation prune :: "uuid set \<Rightarrow> 'a db_scheme \<Rightarrow> 'a db_scheme" where
  "prune I s \<equiv> s\<lparr>task_events := delete_where (\<lambda>e. ev_taskId e \<in> I) (task_events s),
                tasks := delete_where (\<lambda>t. task_id t \<in> I) (tasks s)\<rparr>"

lemma prune_prune: "prune J (prune I s) = prune (I \<union> J) s"
  by (simp add: delete_where_def conj_commute)

lemma prune_inv: "db_inv s \<Longrightarrow> db_inv (prune I s)"
  by (simp add: db_inv_def tasks_wf_delete_where events_wf_delete_where dense_seq_delete_where)

lemma length_delete_where: "length (delete_where p xs) + length (filter p xs) = length xs"
  using sum_length_filter_compl [of p xs] by (simp add: delete_where_def)

text \<open>Every run, whatever the verdicts, deletes some prunable tasks with all their events.\<close>

lemma retention_loop_prunes:
  assumes "db_inv s" and "retention_loop v cutoff k tot s = (r, s')"
  shows "\<exists>I \<subseteq> prunable_ids cutoff (tasks s). s' = prune I s
    \<and> (\<forall>a b. r = Inr (a, b) \<longrightarrow> I = prunable_ids cutoff (tasks s)
         \<and> a + length (task_events s') = fst tot + length (task_events s)
         \<and> b + length (tasks s') = snd tot + length (tasks s))
    \<and> ((\<forall>j. v j = (Done, Done)) \<longrightarrow> (\<exists>x. r = Inr x))"
  using assms
proof (induction "length (tasks s)" arbitrary: k tot s rule: less_induct)
  case less
  let ?ids = "retention_ids cutoff (tasks s)"
  have none: "prune {} s = s" by (simp add: delete_where_def)
  have dist: "distinct (map task_id (tasks s))" using less.prems(1) by (rule db_invD(4))
  show ?case
  proof (cases "fst (v k) = Done \<and> ?ids \<noteq> [] \<and> snd (v k) = Done")
    case False
    then consider "fst (v k) \<noteq> Done" | "fst (v k) = Done" "?ids = []"
      | "fst (v k) = Done" "?ids \<noteq> []" "snd (v k) = Fail_Before"
      | "fst (v k) = Done" "?ids \<noteq> []" "snd (v k) = Fail_After"
      by (cases "snd (v k)") auto
    then show ?thesis
    proof cases
      case 1
      then show ?thesis using less.prems(2) none
        by (intro exI [of _ "{}"]) (auto simp: Let_def retention_loop.simps [of v cutoff k])
    next
      case 2
      then have "prunable_ids cutoff (tasks s) = {}"
        using prunable_ids_last [of cutoff "tasks s"] by (simp add: RETENTION_DELETE_BATCH_SIZE_def)
      with 2 show ?thesis using less.prems(2) none
        by (intro exI [of _ "{}"]) (auto simp: Let_def retention_loop.simps [of v cutoff k])
    next
      case 3
      then show ?thesis using less.prems(2) none
        by (intro exI [of _ "{}"]) (auto simp: Let_def retention_loop.simps [of v cutoff k] dest: spec [of _ k])
    next
      case 4
      then show ?thesis using less.prems(2) retention_ids_sub [of cutoff "tasks s"]
        by (intro exI [of _ "set ?ids"])
          (auto simp: Let_def retention_loop.simps [of v cutoff k] delete_batch_def dest: spec [of _ k])
    qed
  next
    case True
    let ?s1 = "prune (set ?ids) s"
    let ?a = "length (filter (\<lambda>e. ev_taskId e \<in> set ?ids) (task_events s))"
      and ?b = "length (filter (\<lambda>t. task_id t \<in> set ?ids) (tasks s))"
    have eq: "retention_loop v cutoff k tot s =
      (if length ?ids \<ge> RETENTION_DELETE_BATCH_SIZE
       then retention_loop v cutoff (Suc k) (fst tot + ?a, snd tot + ?b) ?s1
       else (Inr (fst tot + ?a, snd tot + ?b), ?s1))"
      using True by (subst retention_loop.simps) (simp add: delete_batch_def Let_def)
    have cnt: "length (task_events ?s1) + ?a = length (task_events s)" "length (tasks ?s1) + ?b = length (tasks s)"
      by (simp_all add: length_delete_where)
    show ?thesis
    proof (cases "length ?ids \<ge> RETENTION_DELETE_BATCH_SIZE")
      case False
      then show ?thesis
        using less.prems(2) cnt prunable_ids_last [of cutoff "tasks s"]
        by (intro exI [of _ "set ?ids"]) (auto simp: eq)
    next
      case len: True
      define s1 where "s1 = ?s1"
      have small: "length (tasks s1) < length (tasks s)"
        using retention_progress [of cutoff "tasks s"] True by (simp add: s1_def)
      have inv: "db_inv s1" unfolding s1_def by (rule prune_inv [OF less.prems(1)])
      have run: "retention_loop v cutoff (Suc k) (fst tot + ?a, snd tot + ?b) s1 = (r, s')"
        using less.prems(2) len unfolding eq s1_def by simp
      obtain I where I: "I \<subseteq> prunable_ids cutoff (tasks s1)" "s' = prune I s1"
        and res: "\<forall>a b. r = Inr (a, b) \<longrightarrow> I = prunable_ids cutoff (tasks s1)
           \<and> a + length (task_events s') = fst tot + ?a + length (task_events s1)
           \<and> b + length (tasks s') = snd tot + ?b + length (tasks s1)"
        and ok: "(\<forall>j. v j = (Done, Done)) \<longrightarrow> (\<exists>x. r = Inr x)"
        using less.hyps [OF small inv run] unfolding fst_conv snd_conv by blast
      have split: "prunable_ids cutoff (tasks s) = set ?ids \<union> prunable_ids cutoff (tasks s1)"
        using prunable_ids_split [OF dist, of cutoff] by (simp add: s1_def)
      have "s' = prune (set ?ids \<union> I) s" using I(2) unfolding s1_def prune_prune .
      moreover have "length (task_events s1) + ?a = length (task_events s)"
        "length (tasks s1) + ?b = length (tasks s)" using cnt unfolding s1_def by blast+
      ultimately show ?thesis
        using I(1) res ok split by (intro exI [of _ "set ?ids \<union> I"]) auto
    qed
  qed
qed

lemma prunable_ids_status:
  assumes "db_inv s"
  shows "i \<in> prunable_ids cutoff (tasks s) \<longleftrightarrow> (\<exists>t. findById i s = Some t \<and> prunable cutoff t)"
proof -
  have "findById i s = Some t \<longleftrightarrow> t \<in> set (tasks s) \<and> task_id t = i" for t
    using db_invD(4) [OF assms] by (simp add: findById_def find_row_Some_iff)
  then show ?thesis by (auto simp: prunable_ids_def)
qed

lemma prune_lookup:
  assumes "db_inv s"
  shows "findById i (prune I s) = (if i \<in> I then None else findById i s)"
    and "task_log (task_events (prune I s)) i = (if i \<in> I then [] else task_log (task_events s) i)"
  using db_invD(4) [OF assms]
  by (auto simp: findById_def find_row_delete_where task_log_delete_where
      split: option.split dest: find_row_SomeD)

text \<open>
  C17: Data retention, when the database answers, computes in batches what a single delete would: it
  returns, every terminal task created before the cutoff is gone with all its events, every other
  task and its events are exactly as before, and the two counts are the numbers of rows deleted.
\<close>

theorem retention_deletes_exactly:
  assumes "db_inv s" and "\<And>k. v k = (Done, Done)"
  shows "\<exists>a b s'. deleteOldData back v now days s = (Inr (a, b), s') \<and> db_inv s'
    \<and> (\<forall>i. if \<exists>t. findById i s = Some t \<and> terminal (status t) \<and> createdAt t < back now days
           then findById i s' = None \<and> task_log (task_events s') i = []
           else findById i s' = findById i s \<and> task_log (task_events s') i = task_log (task_events s) i)
    \<and> a + length (task_events s') = length (task_events s) \<and> b + length (tasks s') = length (tasks s)"
proof -
  obtain r s' where run: "deleteOldData back v now days s = (r, s')" by fastforce
  let ?I = "prunable_ids (back now days) (tasks s)"
  from retention_loop_prunes [OF assms(1) run [unfolded deleteOldData_def]] assms(2)
  obtain a b where r: "r = Inr (a, b)" and s': "s' = prune ?I s"
    and cnt: "a + length (task_events s') = length (task_events s)" "b + length (tasks s') = length (tasks s)"
    by (auto split: prod.splits)
  have mem: "i \<in> ?I \<longleftrightarrow> (\<exists>t. findById i s = Some t \<and> terminal (status t) \<and> createdAt t < back now days)" for i
    using prunable_ids_status [OF assms(1)] by (auto simp: prunable_def terminal_def)
  have look: "findById i s' = (if i \<in> ?I then None else findById i s)"
    "task_log (task_events s') i = (if i \<in> ?I then [] else task_log (task_events s) i)" for i
    unfolding s' by (rule prune_lookup [OF assms(1)])+
  have "db_inv s'" unfolding s' by (rule prune_inv [OF assms(1)])
  then show ?thesis
    unfolding mem [symmetric] using run r cnt look by (intro exI [of _ a] exI [of _ b] exI [of _ s']) simp
qed

theorem retention_deletes_exactly_witness:
  "\<exists>a b s'. deleteOldData (\<lambda>t n. t - n * 86400000) (\<lambda>_. (Done, Done)) 90000000 1 (sample_world [sample_row ''t'' FAILED]) =
     (Inr (a, b), s') \<and> findById ''t'' s' = None"
proof -
  obtain a b s' where r: "deleteOldData (\<lambda>t n. t - n * 86400000) (\<lambda>_. (Done, Done)) 90000000 1
      (sample_world [sample_row ''t'' FAILED]) = (Inr (a, b), s')"
    and all: "\<forall>i. if \<exists>t. findById i (sample_world [sample_row ''t'' FAILED]) = Some t \<and> terminal (status t)
               \<and> createdAt t < 90000000 - 1 * 86400000
           then findById i s' = None \<and> task_log (task_events s') i = []
           else findById i s' = findById i (sample_world [sample_row ''t'' FAILED])
             \<and> task_log (task_events s') i = task_log (task_events (sample_world [sample_row ''t'' FAILED])) i"
    using retention_deletes_exactly [OF db_inv_sample_row(1), of "\<lambda>_. (Done, Done)" "\<lambda>t n. t - n * 86400000" 90000000 1 "''t''" FAILED]
    by blast
  from spec [OF all, of "''t''"] r show ?thesis by simp
qed

text \<open>
  Whatever fails on the way, retention never touches a task that is still active or too recent,
  and never separates a task from its events: for every task, row and log are either both as before
  or both gone.
\<close>

theorem retention_never_orphans:
  assumes "db_inv s"
  shows "db_inv (snd (deleteOldData back v now days s)) \<and>
    (findById i (snd (deleteOldData back v now days s)) = findById i s \<and>
       task_log (task_events (snd (deleteOldData back v now days s))) i = task_log (task_events s) i
     \<or> (\<exists>t. findById i s = Some t \<and> terminal (status t) \<and> createdAt t < back now days) \<and>
       findById i (snd (deleteOldData back v now days s)) = None \<and>
       task_log (task_events (snd (deleteOldData back v now days s))) i = [])"
proof -
  obtain r s' where run: "deleteOldData back v now days s = (r, s')" by fastforce
  from retention_loop_prunes [OF assms run [unfolded deleteOldData_def]]
  obtain I where I: "I \<subseteq> prunable_ids (back now days) (tasks s)" and s': "s' = prune I s" by blast
  have "prunable c t \<longleftrightarrow> terminal (status t) \<and> createdAt t < c" for c t
    by (auto simp: prunable_def terminal_def)
  then show ?thesis
    using run prune_inv [OF assms, of I] prune_lookup [OF assms, where i = i and I = I] I
      prunable_ids_status [OF assms, of i "back now days"]
    by (auto simp: s')
qed

theorem retention_never_orphans_witness:
  "db_inv (snd (deleteOldData (\<lambda>t n. t - n * 86400000) (\<lambda>_. (Done, Fail_After)) 90000000 1
     (sample_world [sample_row ''t'' FAILED])))"
  using retention_never_orphans [OF db_inv_sample_row(1)] by blast

text \<open>
  Under PostgreSQL's default isolation another transaction may insert an event of such a task between the two
  statements, since only inserts of events take the advisory lock. Its task is gone then, the event
  stays, and no later run of retention, which goes by the tasks, ever deletes it.
\<close>

lemma retention_orphan:
  assumes "db_inv s" and "i \<in> set ids" and "input_taskId inp = i"
    and "insertEventInTx eid now inp (task_events (snd (delete_events ids s))) = Inr (ev, evs)"
    and "s2 = snd (delete_tasks ids ((snd (delete_events ids s))\<lparr>task_events := evs\<rparr>))"
  shows "db_inv s2 \<and> findById i s2 = None \<and> task_log (task_events s2) i = [ev]
    \<and> task_log (task_events (snd (deleteOldData back v later days s2))) i = [ev]"
proof -
  let ?L = "delete_where (\<lambda>e. ev_taskId e \<in> set ids) (task_events s)"
  have ins: "insertEventInTx eid now inp ?L = Inr (ev, evs)" using assms(4) by (simp add: delete_events_def)
  have s2: "s2 = s\<lparr>task_events := evs, tasks := delete_where (\<lambda>t. task_id t \<in> set ids) (tasks s)\<rparr>"
    using assms(5) by (simp add: delete_events_def delete_tasks_def)
  have L: "db_inv (prune (set ids) s)" by (rule prune_inv [OF assms(1)])
  then have "events_wf evs" "dense_seq evs"
    using ins by (auto simp: db_inv_def elim: insertEventInTx_wf dense_seq_append)
  then have inv: "db_inv s2" using L by (simp add: s2 db_inv_def)
  have gone: "findById i s2 = None"
    using prune_lookup(1) [OF assms(1), of i "set ids"] assms(2) by (simp add: s2 findById_def)
  have log: "task_log evs i = [ev]"
    using evlog.append_own [OF _ ins] L prune_lookup(2) [OF assms(1), of "set ids" i] assms(2,3)
    by (simp add: db_inv_def)
  have "task_log (task_events (snd (deleteOldData back v later days s2))) i = task_log (task_events s2) i"
    using retention_never_orphans [OF inv, of "back" v later days i] gone by auto
  then show ?thesis using inv gone log by (simp add: s2)
qed

end
