(* ===== verification/System.thy ===== *)
theory System
  imports TasksService ExecutorService DispatchProcessor TimeoutSweeper DataRetention
begin

text \<open>
  The two processes together. API handlers and workers run concurrently; what they share are the
  stores, and every awaited statement is one atomic step on them. \<open>sys_step\<close> lists those steps with
  the guards of the code (bodies have passed their schema, an event is published after it was stored,
  under the identifier of its task), so its runs are all interleavings of all handlers, including
  handlers that stop between two statements. A handler that has won a transition and has still to
  insert the event for it holds the input in \<open>inflight\<close>; \<open>issued\<close> are the identifiers the database has
  generated, \<open>past_events\<close> the rows of the log that retention has deleted. A handler enqueues a job
  only after the statement that called for it, once: \<open>owed\<close> are the jobs still to be enqueued, as the
  queue and the identifier in the data of the job.
\<close>

record sys =
  st :: world
  inflight :: "insert_event_input list"
  issued :: "uuid list"
  past_events :: "task_event list"
  owed :: "(string \<times> string) list"

definition sys_init :: "sys \<Rightarrow> bool" where
  "sys_init s \<longleftrightarrow> s = \<lparr>st = empty_world, inflight = [], issued = [], past_events = [], owed = []\<rparr>"

section \<open>Steps\<close>

text \<open>
  A guard of the transition system: the jobs a run may enqueue. It is not taken on trust: the refinements
  of \<open>Handlers\<close> and \<open>HttpSteps\<close> have to show of every enqueue of the handlers (\<open>create_steps\<close>, \<open>cancel\<close>,
  \<open>submit_tail\<close>) that its queue, job and options satisfy it.
\<close>

definition enqueued :: "string \<Rightarrow> queue_job \<Rightarrow> job_options \<Rightarrow> bool" where
  "enqueued q j opts \<longleftrightarrow>
     (\<exists>t. q = DISPATCH_QUEUE \<and> j = dispatch_job t \<and> opts = no_options\<lparr>opt_attempts := Some 1\<rparr>)
   \<or> (\<exists>i. q = ''cancel'' \<and> j = \<lparr>job_name = ''cancel'', job_data = TaskJobData i\<rparr> \<and> opts = no_options)
   \<or> (\<exists>i. q = ''webhook'' \<and> j = webhook_job i \<and> opts = no_options)"

inductive sys_step :: "sys \<Rightarrow> sys \<Rightarrow> bool" where
  create_insert: "ce_id env \<notin> set (issued s) \<Longrightarrow> create_ok dto \<Longrightarrow>
     tasks_insert (ce_id env) (ce_dbnow env) (create_values env dto) (st s) = (Inr t, w) \<Longrightarrow>
     sys_step s (s\<lparr>st := w, issued := ce_id env # issued s, owed := (DISPATCH_QUEUE, ce_id env) # owed s\<rparr>)"
| create_undo: "sys_step s (s\<lparr>st := snd (deleteById i (st s))\<rparr>)"
| slot_occupy: "sys_step s (s\<lparr>st := snd (occupy_slot now k ttl (st s))\<rparr>)"
| slot_commit: "sys_step s (s\<lparr>st := snd (commit_slot now k i (st s))\<rparr>)"
| slot_release: "sys_step s (s\<lparr>st := snd (release_slot k (st s))\<rparr>)"
| enqueue_step: "enqueued q j opts \<Longrightarrow> (q, job_taskId (job_data j)) \<in> set (owed s) \<Longrightarrow>
     sys_step s (s\<lparr>st := snd (enqueue_job v q j opts (st s)),
                   owed := remove1 (q, job_taskId (job_data j)) (owed s)\<rparr>)"
| publish_step: "ev \<in> set (task_events (st s)) \<union> set (past_events s) \<Longrightarrow> db_uuid (ev_taskId ev) = db_uuid i \<Longrightarrow>
     sys_step s (s\<lparr>st := snd (publish_event i ev (st s))\<rparr>)"
| claim_step: "sys_step s (s\<lparr>st := snd (claim env i tmo (st s))\<rparr>)"
| dispatch_failed: "http_exn url err \<Longrightarrow> sys_step s (s\<lparr>st := snd (dispatch_catch env io i err (st s))\<rparr>)"
| report: "result_ok dto \<Longrightarrow> updateStatus (sb_upd (env :: submit_env)) i [PROCESSING] (dto_status dto)
       ((dto_patch dto)\<lparr>set_completedAt := Some (Some (sb_now env))\<rparr>) (st s) = (Inr (Some t), w) \<Longrightarrow>
     sys_step s (s\<lparr>st := w, inflight := dto_input i dto # inflight s, owed := (''webhook'', i) # owed s\<rparr>)"
| progress_step: "i \<in> set (issued s) \<Longrightarrow> progress_ok p \<Longrightarrow>
     sys_step s (s\<lparr>st := snd (updateProgress upd i p (st s)),
                   inflight := ProgressEventInput i p # inflight s\<rparr>)"
| event_insert: "inp \<in> set (inflight s) \<Longrightarrow> insert_event eid now inp (st s) = (Inr ev, w) \<Longrightarrow>
     sys_step s (s\<lparr>st := w, inflight := remove1 inp (inflight s)\<rparr>)"
| event_lost: "sys_step s (s\<lparr>inflight := remove1 inp (inflight s)\<rparr>)"
| cancel_step: "cancelTask now upd eid dbnow (db_uuid i) (st s) = (r, w) \<Longrightarrow>
     sys_step s (s\<lparr>st := w, owed := (case r of Inr (Some _) \<Rightarrow> (''cancel'', i) # owed s | _ \<Rightarrow> owed s)\<rparr>)"
| sweep_step: "sys_step s (s\<lparr>st := snd (expireTimedOutTasksBatch env n (st s))\<rparr>)"
| retention_step: "ids = retention_ids cutoff (tasks (st s)) \<Longrightarrow>
     sys_step s (s\<lparr>st := snd (delete_batch ids (st s)),
                   past_events := filter (\<lambda>e. ev_taskId e \<in> set ids) (task_events (st s)) @ past_events s\<rparr>)"

inductive reach :: "('s \<Rightarrow> bool) \<Rightarrow> ('s \<Rightarrow> 's \<Rightarrow> bool) \<Rightarrow> 's \<Rightarrow> bool"
  for init :: "'s \<Rightarrow> bool" and step :: "'s \<Rightarrow> 's \<Rightarrow> bool" where
  reach_init: "init s \<Longrightarrow> reach init step s"
| reach_step: "reach init step s \<Longrightarrow> step s s' \<Longrightarrow> reach init step s'"

lemma reach_steps: "step\<^sup>*\<^sup>* s s' \<Longrightarrow> reach init step s \<Longrightarrow> reach init step s'"
  by (induction rule: rtranclp_induct) (auto intro: reach_step)

section \<open>Invariants of a transition system\<close>

locale inductive_invariant =
  fixes init :: "'s \<Rightarrow> bool" and step :: "'s \<Rightarrow> 's \<Rightarrow> bool" and invar :: "'s \<Rightarrow> bool"
  assumes invar_init: "init s \<Longrightarrow> invar s"
    and invar_step: "invar s \<Longrightarrow> step s s' \<Longrightarrow> invar s'"
begin

lemma invar_reach: "reach init step s \<Longrightarrow> invar s"
  by (induction rule: reach.induct) (auto intro: invar_init invar_step)

end

text \<open>With an observation of the state that moves along a graph in every step.\<close>

locale observed_system = inductive_invariant +
  fixes obs :: "'s \<Rightarrow> 'o" and graph :: "'o \<Rightarrow> 'o \<Rightarrow> bool"
  assumes obs_step: "invar s \<Longrightarrow> step s s' \<Longrightarrow> graph (obs s) (obs s')"
begin

lemma obs_reach: "reach init step s \<Longrightarrow> step s s' \<Longrightarrow> graph (obs s) (obs s')"
  by (blast intro: obs_step invar_reach)

lemma obs_path:
  assumes "reach init step s" and "step\<^sup>*\<^sup>* s s'"
  shows "graph\<^sup>*\<^sup>* (obs s) (obs s')"
proof -
  from assms(2) have "reach init step s' \<and> graph\<^sup>*\<^sup>* (obs s) (obs s')"
  proof (induction rule: rtranclp_induct)
    case base
    show ?case using assms(1) by simp
  next
    case (step y z)
    then show ?case by (blast intro: reach_step obs_reach rtranclp.rtrancl_into_rtrancl)
  qed
  then show ?thesis ..
qed

end

section \<open>Accounting for terminal events\<close>

definition final_status :: "task_event_type \<Rightarrow> task_status" where
  "final_status ty = (case ty of EvCompleted \<Rightarrow> COMPLETED | EvFailed \<Rightarrow> FAILED | _ \<Rightarrow> CANCELLED)"

definition terminal_types :: "uuid \<Rightarrow> task_event list \<Rightarrow> task_event_type multiset" where
  "terminal_types i evs =
     mset (map eventType (filter (\<lambda>e. ev_taskId e = i \<and> terminal_event_type (eventType e)) evs))"

definition owed_types :: "uuid \<Rightarrow> insert_event_input list \<Rightarrow> task_event_type multiset" where
  "owed_types i inps =
     mset (map input_eventType
       (filter (\<lambda>inp. input_taskId inp = i \<and> terminal_event_type (input_eventType inp)) inps))"

text \<open>The terminal events of a task, stored or still to be stored.\<close>

definition account :: "uuid \<Rightarrow> sys \<Rightarrow> task_event_type multiset" where
  "account i s = terminal_types i (task_events (st s)) + owed_types i (inflight s)"

definition balanced :: "uuid \<Rightarrow> sys \<Rightarrow> bool" where
  "balanced i s \<longleftrightarrow> size (account i s) \<le> 1
     \<and> (\<forall>ty \<in># account i s. status_of i (st s) \<in> {None, Some (final_status ty)})"

definition known_ids :: "sys \<Rightarrow> bool" where
  "known_ids s \<longleftrightarrow> task_id ` set (tasks (st s)) \<union> ev_taskId ` set (task_events (st s))
     \<union> input_taskId ` set (inflight s) \<subseteq> set (issued s)"

definition sys_inv :: "sys \<Rightarrow> bool" where
  "sys_inv s \<longleftrightarrow> db_inv (st s) \<and> known_ids s \<and> (\<forall>i. balanced i s)"

lemma terminal_types_simps [simp]:
  "terminal_types i [] = {#}"
  "terminal_types i (evs @ evs') = terminal_types i evs + terminal_types i evs'"
  "terminal_types i [e] = (if ev_taskId e = i \<and> terminal_event_type (eventType e) then {#eventType e#} else {#})"
  by (simp_all add: terminal_types_def)

lemma owed_types_simps [simp]:
  "owed_types i [] = {#}"
  "owed_types i (inp # inps) =
     (if input_taskId inp = i \<and> terminal_event_type (input_eventType inp)
      then {#input_eventType inp#} + owed_types i inps else owed_types i inps)"
  by (simp_all add: owed_types_def)

lemma owed_types_remove1:
  "inp \<in> set inps \<Longrightarrow> owed_types i inps = owed_types i [inp] + owed_types i (remove1 inp inps)"
  by (induction inps) (auto simp: owed_types_def)

lemma owed_types_remove1_sub: "owed_types i (remove1 inp inps) \<subseteq># owed_types i inps"
  using owed_types_remove1 [of inp inps i] by (cases "inp \<in> set inps") (auto simp: remove1_idem)

lemma terminal_types_delete_where: "terminal_types i (delete_where p evs) \<subseteq># terminal_types i evs"
  unfolding terminal_types_def delete_where_def mset_map mset_filter
  by (intro image_mset_subseteq_mono multiset_filter_mono multiset_filter_subset)

lemma final_status_terminal [simp]: "terminal (final_status ty)"
  by (cases ty) (simp_all add: final_status_def)

text \<open>An active task has no terminal event yet; so it may get its first.\<close>

lemma account_active:
  assumes "balanced i s" and "status_of i (st s) = Some x" and "active x"
  shows "account i s = {#}"
proof (rule ccontr)
  assume "account i s \<noteq> {#}"
  then obtain ty where "ty \<in># account i s" by blast
  with assms(1,2) have "x = final_status ty" by (auto simp: balanced_def)
  then show False using assms(3) final_status_terminal [of ty] not_active_iff [of x] by simp
qed

lemma balanced_keep:
  assumes "balanced i s" and "account i s' \<subseteq># account i s"
    and "status_of i (st s') = status_of i (st s) \<or> status_of i (st s') = None
       \<or> (\<exists>x. status_of i (st s) = Some x \<and> active x)"
  shows "balanced i s'"
proof -
  have "size (account i s') \<le> 1"
    using size_mset_mono [OF assms(2)] assms(1) by (simp add: balanced_def)
  moreover have "account i s' = {#}" if "status_of i (st s) = Some x" "active x" for x
    using account_active [OF assms(1) that] assms(2) by simp
  ultimately show ?thesis
    using assms(1,3) mset_subset_eqD [OF assms(2)] by (auto simp: balanced_def)
qed

lemma balanced_new:
  assumes "balanced i s" and "status_of i (st s) = Some x" and "active x"
    and "account i s' = {#ty#} + account i s" and "status_of i (st s') = Some (final_status ty)"
  shows "balanced i s'"
  using account_active [OF assms(1-3)] assms(4,5) by (simp add: balanced_def)

section \<open>How each statement moves a task\<close>

text \<open>
  The state diagram of \<^verbatim>\<open>docs/ARCHITECTURE.md\<close>. No status means no row: a row can be deleted at any
  time, and appears, as \<open>PENDING\<close>, only under an identifier that was never issued before (\<open>new\<close>).
\<close>

definition status_move :: "bool \<Rightarrow> task_status option \<Rightarrow> task_status option \<Rightarrow> bool" where
  "status_move new a b \<longleftrightarrow> a = b \<or> b = None \<or> (new \<and> a = None \<and> b = Some PENDING)
     \<or> (a, b) \<in> {(Some PENDING, Some PROCESSING), (Some PENDING, Some CANCELLED),
                (Some PROCESSING, Some COMPLETED), (Some PROCESSING, Some FAILED),
                (Some PROCESSING, Some CANCELLED)}"

lemma update_moves:
  assumes "db_inv w" and "updateStatus u i frm to x w = (r, w')"
  shows "status_of j w' = status_of j w
    \<or> (j = i \<and> (\<exists>t. r = Inr (Some t)) \<and> (\<exists>x \<in> set frm. status_of i w = Some x) \<and> status_of i w' = Some to)"
proof (cases "\<exists>t. r = Inr (Some t)")
  case True
  then show ?thesis using repo.cas_hit [OF assms(1)] repo.cas_frame [OF assms(1,2)] assms(2) by blast
next
  case False
  then show ?thesis using repo.cas_noop [OF assms] by auto
qed

lemma row_iff: "i \<in> task_id ` set (tasks w) \<longleftrightarrow> status_of i w \<noteq> None"
  by (simp add: status_of_def findById_def find_row_None_iff)

lemma known_ids_iff:
  "known_ids s \<longleftrightarrow> (\<forall>i. status_of i (st s) \<noteq> None \<longrightarrow> i \<in> set (issued s))
     \<and> ev_taskId ` set (task_events (st s)) \<subseteq> set (issued s)
     \<and> input_taskId ` set (inflight s) \<subseteq> set (issued s)"
proof -
  have "(\<forall>i. status_of i (st s) \<noteq> None \<longrightarrow> i \<in> set (issued s)) \<longleftrightarrow>
      task_id ` set (tasks (st s)) \<subseteq> set (issued s)"
    unfolding row_iff [symmetric] by blast
  then show ?thesis by (simp only: known_ids_def Un_subset_iff conj_assoc)
qed

lemma account_unknown: "known_ids s \<Longrightarrow> i \<notin> set (issued s) \<Longrightarrow> account i s = {#}"
  by (auto simp: known_ids_def account_def terminal_types_def owed_types_def filter_empty_conv)

definition good_step :: "sys \<Rightarrow> sys \<Rightarrow> bool" where
  "good_step s s' \<longleftrightarrow> sys_inv s' \<and> set (issued s) \<subseteq> set (issued s') \<and>
     (\<forall>i. status_move (i \<notin> set (issued s)) (status_of i (st s)) (status_of i (st s')))"

lemma status_move_refl [simp]: "status_move new a a" "status_move new a None"
  by (simp_all add: status_move_def)

lemma status_move_mono: "status_move False a b \<Longrightarrow> status_move new a b"
  by (auto simp: status_move_def)

lemma good_past [simp]: "good_step s (s'\<lparr>past_events := L\<rparr>) = good_step s s'"
  by (simp add: good_step_def sys_inv_def known_ids_def balanced_def account_def)

lemma good_owed [simp]: "good_step s (s'\<lparr>owed := L\<rparr>) = good_step s s'"
  by (simp add: good_step_def sys_inv_def known_ids_def balanced_def account_def)

text \<open>Steps that add no terminal event.\<close>

lemma good_keep:
  assumes "sys_inv s" and "db_inv (st s')" and "known_ids s'"
    and "set (issued s) \<subseteq> set (issued s')" and "\<And>i. account i s' \<subseteq># account i s"
    and "\<And>i. status_of i (st s') = status_of i (st s) \<or> status_of i (st s') = None
           \<or> account i s = {#} \<and> status_move (i \<notin> set (issued s)) (status_of i (st s)) (status_of i (st s'))
           \<or> (\<exists>x. status_of i (st s) = Some x \<and> active x)
               \<and> status_move False (status_of i (st s)) (status_of i (st s'))"
  shows "good_step s s'"
proof -
  have "balanced i s'" for i
  proof (cases "account i s = {#}")
    case True
    then have "account i s' = {#}" using assms(5) [of i] by simp
    then show ?thesis by (simp add: balanced_def)
  next
    case False
    then show ?thesis
      using balanced_keep [OF _ assms(5)] assms(1) assms(6) [of i] by (auto simp: sys_inv_def)
  qed
  moreover have "status_move (i \<notin> set (issued s)) (status_of i (st s)) (status_of i (st s'))" for i
    using assms(6) [of i] status_move_refl status_move_mono by metis
  ultimately show ?thesis using assms(2-4) by (simp add: good_step_def sys_inv_def)
qed

lemma good_frame:
  assumes "sys_inv s" and "tasks w = tasks (st s)" and "task_events w = task_events (st s)"
  shows "good_step s (s\<lparr>st := w\<rparr>)"
  using assms by (intro good_keep)
    (simp_all add: sys_inv_def db_inv_def known_ids_def account_def status_of_def findById_def)

text \<open>A conditional update along the graph.\<close>

lemma good_update:
  assumes "sys_inv s" and "updateStatus u i frm to x (st s) = (r, w)"
    and "\<And>f. f \<in> set frm \<Longrightarrow> active f \<and> status_move False (Some f) (Some to)"
  shows "good_step s (s\<lparr>st := w\<rparr>)"
proof (rule good_keep [OF assms(1)])
  have inv: "db_inv (st s)" using assms(1) by (simp add: sys_inv_def)
  have ev: "task_events w = task_events (st s)"
    using arg_cong [OF assms(2), of "\<lambda>r. task_events (snd r)"] by simp
  note mv = update_moves [OF inv assms(2)]
  show "db_inv (st (s\<lparr>st := w\<rparr>))" using updateStatus_inv [OF inv, of u i frm to x] assms(2) by simp
  show "known_ids (s\<lparr>st := w\<rparr>)"
    using assms(1) mv by (auto simp: sys_inv_def known_ids_iff ev) (metis option.distinct(1))+
  show "account j (s\<lparr>st := w\<rparr>) \<subseteq># account j s" for j by (simp add: account_def ev)
  show "status_of j (st (s\<lparr>st := w\<rparr>)) = status_of j (st s) \<or> status_of j (st (s\<lparr>st := w\<rparr>)) = None
      \<or> account j s = {#} \<and> status_move (j \<notin> set (issued s)) (status_of j (st s)) (status_of j (st (s\<lparr>st := w\<rparr>)))
      \<or> (\<exists>x. status_of j (st s) = Some x \<and> active x)
          \<and> status_move False (status_of j (st s)) (status_of j (st (s\<lparr>st := w\<rparr>)))" for j
    using mv [of j] assms(3) by auto
qed simp

lemma good_refl: "sys_inv s \<Longrightarrow> good_step s s"
  by (simp add: good_step_def)

lemma good_io_update:
  assumes "sys_inv s" and "\<And>f. f \<in> set frm \<Longrightarrow> active f \<and> status_move False (Some f) (Some to)"
  shows "good_step s (s\<lparr>st := snd (io_call v (updateStatus u i frm to x) (st s))\<rparr>)"
  using good_update [OF assms(1) _ assms(2), where u = u and i = i and x = x] good_refl [OF assms(1)]
  by (cases v; cases "updateStatus u i frm to x (st s)") auto

lemma good_claim: "sys_inv s \<Longrightarrow> good_step s (s\<lparr>st := snd (claim env i tmo (st s))\<rparr>)"
  unfolding claim_def
  by (rule good_update, assumption, rule prod.collapse [symmetric]) (auto simp: status_move_def)

lemma good_dispatch_catch:
  assumes "sys_inv s" and "http_exn url err"
  shows "good_step s (s\<lparr>st := snd (dispatch_catch env io i err (st s))\<rparr>)"
proof -
  have "snd (dispatch_catch env io i err w) = snd (io_call (dio_fail io)
      (updateStatus (dp_upd2 env) i [PROCESSING] FAILED
         (no_patch\<lparr>set_completedAt := Some (Some (dp_failed env)),
                   set_error := Some (Some \<lparr>err_code = failure_code err,
                      err_message = exn_message err, err_details = None\<rparr>)\<rparr>)) w)" for w
    unfolding dispatch_catch_http [OF assms(2)] by (auto split: prod.split sum.split)
  then show ?thesis
    using good_io_update [OF assms(1), of "[PROCESSING]" FAILED] by (simp add: status_move_def)
qed

text \<open>Deletions.\<close>

lemma good_delete:
  assumes "sys_inv s" and "db_inv w"
    and "\<And>j. findById j w = findById j (st s) \<or> findById j w = None"
    and "\<exists>p. task_events w = delete_where p (task_events (st s))"
  shows "good_step s (s\<lparr>st := w\<rparr>)"
proof (rule good_keep [OF assms(1)])
  obtain p where p: "task_events w = delete_where p (task_events (st s))" using assms(4) by blast
  have stat: "status_of j w = status_of j (st s) \<or> status_of j w = None" for j
    using assms(3) [of j] by (auto simp: status_of_def)
  show "known_ids (s\<lparr>st := w\<rparr>)"
    using assms(1) stat by (auto simp: sys_inv_def known_ids_iff p) (metis option.distinct(1))
  show "account j (s\<lparr>st := w\<rparr>) \<subseteq># account j s" for j
    using terminal_types_delete_where [of j p] by (simp add: account_def p)
  show "db_inv (st (s\<lparr>st := w\<rparr>))" using assms(2) by simp
  show "status_of j (st (s\<lparr>st := w\<rparr>)) = status_of j (st s) \<or> status_of j (st (s\<lparr>st := w\<rparr>)) = None
      \<or> account j s = {#} \<and> status_move (j \<notin> set (issued s)) (status_of j (st s)) (status_of j (st (s\<lparr>st := w\<rparr>)))
      \<or> (\<exists>x. status_of j (st s) = Some x \<and> active x)
          \<and> status_move False (status_of j (st s)) (status_of j (st (s\<lparr>st := w\<rparr>)))" for j
    using stat [of j] by auto
qed simp

lemma good_retention:
  assumes "sys_inv s"
  shows "good_step s (s\<lparr>st := snd (delete_batch ids (st s))\<rparr>)"
proof -
  have inv: "db_inv (st s)" using assms by (simp add: sys_inv_def)
  have eq: "snd (delete_batch ids (st s)) = prune (set ids) (st s)" by (simp add: delete_batch_def)
  show ?thesis unfolding eq
    using prune_lookup(1) [OF inv, where I = "set ids"] prune_inv [OF inv]
    by (intro good_delete [OF assms]) auto
qed

lemma good_deleteById:
  assumes "sys_inv s"
  shows "good_step s (s\<lparr>st := snd (deleteById i (st s))\<rparr>)"
proof (rule good_delete [OF assms])
  have inv: "db_inv (st s)" using assms by (simp add: sys_inv_def)
  show "db_inv (snd (deleteById i (st s)))" using inv by (rule deleteById_inv)
  show "findById j (snd (deleteById i (st s))) = findById j (st s) \<or> findById j (snd (deleteById i (st s))) = None"
    for j using db_invD(4) [OF inv]
    by (auto simp: deleteById_def findById_def find_row_delete_where split: option.split)
  have "delete_where (\<lambda>_. False) evs = evs" for evs :: "task_event list" by (simp add: delete_where_def)
  then show "\<exists>p. task_events (snd (deleteById i (st s))) = delete_where p (task_events (st s))"
    by (intro exI [of _ "\<lambda>_. False"]) (simp add: deleteById_def)
qed

text \<open>Creation: the new identifier has no row and no event yet.\<close>

lemma good_create:
  assumes "sys_inv s" and "ce_id env \<notin> set (issued s)"
    and "tasks_insert (ce_id env) (ce_dbnow env) (create_values env dto) (st s) = (Inr t, w)"
  shows "good_step s (s\<lparr>st := w, issued := ce_id env # issued s\<rparr>)"
proof (rule good_keep [OF assms(1)])
  have inv: "db_inv (st s)" and kn: "known_ids s" using assms(1) by (simp_all add: sys_inv_def)
  have t: "t = created_row env dto" using assms(3) insert_created [OF inv] by (auto split: if_splits)
  have stat: "status_of j w = (if j = ce_id env then Some PENDING else status_of j (st s))" for j
    using findById_insert [OF inv assms(3)] by (simp add: status_of_def t)
  have ev: "task_events w = task_events (st s)"
    using arg_cong [OF assms(3), of "\<lambda>r. task_events (snd r)"] by simp
  show "db_inv (st (s\<lparr>st := w, issued := ce_id env # issued s\<rparr>))"
    using tasks_insert_inv [OF inv, of "ce_id env" "ce_dbnow env" "create_values env dto"] assms(3) by simp
  show "known_ids (s\<lparr>st := w, issued := ce_id env # issued s\<rparr>)"
    using kn by (auto simp: known_ids_iff stat ev split: if_splits)
  show "account j (s\<lparr>st := w, issued := ce_id env # issued s\<rparr>) \<subseteq># account j s" for j
    by (simp add: account_def ev)
  have "account (ce_id env) s = {#}" "status_of (ce_id env) (st s) = None"
    using account_unknown [OF kn assms(2)] kn assms(2) by (auto simp: known_ids_iff)
  then show "status_of j (st (s\<lparr>st := w, issued := ce_id env # issued s\<rparr>)) = status_of j (st s)
      \<or> status_of j (st (s\<lparr>st := w, issued := ce_id env # issued s\<rparr>)) = None
      \<or> account j s = {#} \<and> status_move (j \<notin> set (issued s)) (status_of j (st s)) (status_of j (st (s\<lparr>st := w, issued := ce_id env # issued s\<rparr>)))
      \<or> (\<exists>x. status_of j (st s) = Some x \<and> active x)
          \<and> status_move False (status_of j (st s)) (status_of j (st (s\<lparr>st := w, issued := ce_id env # issued s\<rparr>)))" for j
    using assms(2) by (simp add: stat status_move_def)
qed auto

lemma good_progress:
  assumes "sys_inv s" and "i \<in> set (issued s)"
  shows "good_step s (s\<lparr>st := snd (updateProgress upd i p (st s)),
           inflight := ProgressEventInput i p # inflight s\<rparr>)"
proof -
  let ?w = "snd (updateProgress upd i p (st s))"
  have inv: "db_inv (st s)" using assms(1) by (simp add: sys_inv_def)
  have keys: "keeps_keys (\<lambda>t. t\<lparr>progress := p, updatedAt := upd\<rparr>)" by (simp add: keeps_keys_def)
  have stat: "status_of j ?w = status_of j (st s)" for j
    by (cases "findById j (st s)")
      (auto simp: updateProgress_def tasks_update_rows_def status_of_def findById_update_where [OF keys])
  show ?thesis
    using assms updateProgress_inv [OF inv, of upd i p]
    by (intro good_keep) (auto simp: sys_inv_def known_ids_iff stat account_def)
qed

text \<open>Steps that record a terminal event, or the duty to store one.\<close>

lemma good_new:
  assumes "sys_inv s" and "db_inv (st s')" and "known_ids s'" and "issued s' = issued s"
    and "\<And>j. j \<noteq> i \<Longrightarrow> account j s' = account j s"
    and "\<And>j. j \<noteq> i \<Longrightarrow> status_of j (st s') = status_of j (st s)"
    and "status_of i (st s) = Some x" and "active x" and "account i s' = {#ty#} + account i s"
    and "status_of i (st s') = Some (final_status ty)" and "status_move False (Some x) (Some (final_status ty))"
  shows "good_step s s'"
proof -
  have bal: "balanced j s" for j using assms(1) by (simp add: sys_inv_def)
  have "balanced j s'" for j
  proof (cases "j = i")
    case True
    then show ?thesis using balanced_new [OF bal assms(7,8,9,10)] by simp
  next
    case False
    then show ?thesis using bal [of j] assms(5,6) by (simp add: balanced_def)
  qed
  moreover have "status_move (j \<notin> set (issued s)) (status_of j (st s)) (status_of j (st s'))" for j
    using assms(6,7,10,11) by (cases "j = i") (simp_all add: status_move_mono)
  ultimately show ?thesis using assms(2-4) by (simp add: good_step_def sys_inv_def)
qed

lemma final_status_dto: "final_status (input_eventType (dto_input i dto)) = dto_status dto"
  by (cases dto) (simp_all add: final_status_def)

lemma good_report:
  assumes "sys_inv s" and upd: "updateStatus (sb_upd env) i [PROCESSING] (dto_status dto)
       ((dto_patch dto)\<lparr>set_completedAt := Some (Some (sb_now env))\<rparr>) (st s) = (Inr (Some t), w)"
  shows "good_step s (s\<lparr>st := w, inflight := dto_input i dto # inflight s\<rparr>)"
proof (rule good_new [OF assms(1), where i = i and x = PROCESSING and ty = "input_eventType (dto_input i dto)"])
  have inv: "db_inv (st s)" using assms(1) by (simp add: sys_inv_def)
  have ev: "task_events w = task_events (st s)"
    using arg_cong [OF upd, of "\<lambda>r. task_events (snd r)"] by simp
  have hit: "status_of i (st s) = Some PROCESSING" "status_of i w = Some (dto_status dto)"
    using repo.cas_hit [OF inv upd] by auto
  have other: "status_of j w = status_of j (st s)" if "j \<noteq> i" for j
    using repo.cas_frame [OF inv upd that] .
  let ?s = "s\<lparr>st := w, inflight := dto_input i dto # inflight s\<rparr>"
  show "db_inv (st ?s)"
    using updateStatus_inv [OF inv, of "sb_upd env" i "[PROCESSING]" "dto_status dto"
        "(dto_patch dto)\<lparr>set_completedAt := Some (Some (sb_now env))\<rparr>"] upd by simp
  have "status_of j w \<noteq> None \<longleftrightarrow> status_of j (st s) \<noteq> None" for j
    using hit other by (cases "j = i") simp_all
  then show "known_ids ?s" using assms(1) hit(1) by (auto simp: sys_inv_def known_ids_iff ev)
  show "account j ?s = account j s" if "j \<noteq> i" for j using that by (simp add: account_def ev)
  show "status_of j (st ?s) = status_of j (st s)" if "j \<noteq> i" for j using other [OF that] by simp
  show "status_of i (st s) = Some PROCESSING" by (rule hit(1))
  show "account i ?s = {#input_eventType (dto_input i dto)#} + account i s" by (simp add: account_def ev)
  show "status_of i (st ?s) = Some (final_status (input_eventType (dto_input i dto)))"
    using hit(2) by (simp add: final_status_dto)
  show "status_move False (Some PROCESSING) (Some (final_status (input_eventType (dto_input i dto))))"
    by (cases dto) (simp_all add: final_status_def status_move_def)
qed simp_all

lemma good_event_insert:
  assumes "sys_inv s" and "inp \<in> set (inflight s)" and "insert_event eid now inp (st s) = (Inr ev, w)"
  shows "good_step s (s\<lparr>st := w, inflight := remove1 inp (inflight s)\<rparr>)"
proof (rule good_keep [OF assms(1)])
  let ?s = "s\<lparr>st := w, inflight := remove1 inp (inflight s)\<rparr>"
  obtain evs where ins: "insertEventInTx eid now inp (task_events (st s)) = Inr (ev, evs)"
    and w: "w = (st s)\<lparr>task_events := evs\<rparr>"
    using assms(3) by (auto simp: insert_event_def split: sum.splits prod.splits)
  have evs: "evs = task_events (st s) @ [ev]" "ev_taskId ev = input_taskId inp" "eventType ev = input_eventType inp"
    using ins by (auto simp: insertEventInTx_Inr)
  have inv: "db_inv (st s)" using assms(1) by (simp add: sys_inv_def)
  show "db_inv (st ?s)"
    using db_inv_lifted(2) [OF inv, of eid now inp] assms(3) by simp
  show "known_ids ?s"
    using assms(1,2) set_remove1_subset [of inp "inflight s"]
    by (auto simp: sys_inv_def known_ids_iff w evs image_subset_iff subset_iff)
  show "account j ?s \<subseteq># account j s" for j
    using owed_types_remove1 [OF assms(2), of j] by (simp add: account_def w evs ac_simps)
  show "status_of j (st ?s) = status_of j (st s) \<or> status_of j (st ?s) = None
      \<or> account j s = {#} \<and> status_move (j \<notin> set (issued s)) (status_of j (st s)) (status_of j (st ?s))
      \<or> (\<exists>x. status_of j (st s) = Some x \<and> active x) \<and> status_move False (status_of j (st s)) (status_of j (st ?s))"
    for j by (simp add: w)
qed simp

lemma good_event_lost:
  assumes "sys_inv s"
  shows "good_step s (s\<lparr>inflight := remove1 inp (inflight s)\<rparr>)"
proof -
  show ?thesis
    using assms owed_types_remove1_sub set_remove1_subset [of inp "inflight s"]
    by (intro good_keep) (auto simp: sys_inv_def known_ids_iff account_def image_subset_iff subset_iff)
qed

lemma good_cancel:
  assumes "sys_inv s"
  shows "good_step s (s\<lparr>st := snd (cancelTask now upd eid dbnow i (st s))\<rparr>)"
proof -
  have inv: "db_inv (st s)" and kn: "known_ids s" using assms by (simp_all add: sys_inv_def)
  let ?w = "snd (cancelTask now upd eid dbnow i (st s))"
  show ?thesis
  proof (cases "?w = st s")
    case True
    then show ?thesis using good_refl [OF assms] by simp
  next
    case False
    then obtain t ev where t: "findById i (st s) = Some t" "active (status t)"
      and ins: "insertEventInTx eid dbnow (CancelledEventInput i) (task_events (st s)) =
        Inr (ev, task_events (st s) @ [ev])"
      by (auto simp: cancelTask_eq [OF inv] insertEventInTx_Inr split: option.splits if_splits sum.splits)
    have ev: "ev_taskId ev = i" "eventType ev = EvCancelled" using ins by (auto simp: insertEventInTx_Inr)
    let ?f = "set_status upd CANCELLED (no_patch\<lparr>set_completedAt := Some (Some now)\<rparr>)"
    have w: "?w = (st s)\<lparr>tasks := update_where (\<lambda>t. task_id t = i \<and> active (status t)) ?f (tasks (st s)),
        task_events := task_events (st s) @ [ev]\<rparr>"
      using t ins by (simp add: cancelTask_eq [OF inv] Let_def)
    have ev_w: "task_events ?w = task_events (st s) @ [ev]" by (simp add: w)
    have stat: "status_of j ?w = (if j = i then Some CANCELLED else status_of j (st s))" for j
    proof -
      have "findById j ?w = (if j = i then Some (?f t) else findById j (st s))"
        using findById_hit [OF inv t(1), of "\<lambda>t. active (status t)" ?f j] t(2) by (simp add: w findById_def)
      then show ?thesis by (simp add: status_of_def)
    qed
    show ?thesis
    proof (rule good_new [OF assms, where i = i and x = "status t" and ty = EvCancelled])
      show "known_ids (s\<lparr>st := ?w\<rparr>)"
        using kn t(1) by (auto simp: known_ids_iff stat ev_w ev status_of_def [of i "st s"] split: if_splits)
      show "status_move False (Some (status t)) (Some (final_status EvCancelled))"
        using t(2) by (cases "status t") (simp_all add: status_move_def final_status_def)
    qed (use t cancelTask_inv [OF inv] ev in
        \<open>simp_all add: stat status_of_def [of i "st s"] final_status_def account_def ev_w\<close>)
  qed
qed

lemma terminal_types_failed:
  assumes "distinct (map ev_taskId es)" and "\<And>e. e \<in> set es \<Longrightarrow> eventType e = EvFailed"
  shows "terminal_types j es = (if j \<in> ev_taskId ` set es then {#EvFailed#} else {#})"
  using assms
proof (induction es)
  case (Cons e es)
  have "terminal_types j (e # es) = terminal_types j [e] + terminal_types j es"
    using terminal_types_simps(2) [of j "[e]" es] by (simp del: terminal_types_simps)
  with Cons show ?case by auto
qed simp

lemma terminal_types_bulk:
  assumes "distinct ids"
  shows "terminal_types j (bulk_rows env ids evs (length ids)) = (if j \<in> set ids then {#EvFailed#} else {#})"
proof -
  have "map ev_taskId (bulk_rows env ids evs (length ids)) = ids"
    by (rule nth_equalityI) (simp_all add: bulk_row_def)
  then have "distinct (map ev_taskId (bulk_rows env ids evs (length ids)))"
    "ev_taskId ` set (bulk_rows env ids evs (length ids)) = set ids"
    using assms by (simp_all only: set_map [symmetric])
  then show ?thesis
    using terminal_types_failed [of "bulk_rows env ids evs (length ids)" j]
    by (force simp: bulk_row_def)
qed

lemma good_sweep:
  assumes "sys_inv s"
  shows "good_step s (s\<lparr>st := snd (expireTimedOutTasksBatch env n (st s))\<rparr>)"
proof -
  have inv: "db_inv (st s)" and kn: "known_ids s" and bal: "\<And>j. balanced j s"
    using assms by (simp_all add: sys_inv_def)
  let ?ids = "expired_ids env n (tasks (st s))" and ?w = "snd (expireTimedOutTasksBatch env n (st s))"
  let ?new = "bulk_rows env ?ids (task_events (st s)) (length ?ids)"
  have dist: "distinct ?ids" using db_invD(4) [OF inv] by (rule distinct_expired_ids)
  show ?thesis
  proof (cases "?w = st s")
    case True
    then show ?thesis using good_refl [OF assms] by simp
  next
    case False
    then obtain evs where proc: "\<And>i. i \<in> set ?ids \<Longrightarrow> status_of i (st s) = Some PROCESSING"
      and ins: "events_insert_rows ?new (task_events (st s)) = Inr evs"
      and w: "?w = (st s)\<lparr>tasks := update_where (\<lambda>t. task_id t \<in> set ?ids) (expire_row env) (tasks (st s)),
          task_events := evs\<rparr>"
      by (auto simp: batch_eq [OF inv refl] split: if_splits sum.splits)
    note logs = bulk_insert_steps [OF dist order.refl db_invD(2,3) [OF inv] ins]
    have ev: "task_events ?w = task_events (st s) @ ?new" using logs by (simp add: w)
    have "tasks_update_rows (\<lambda>t. task_id t \<in> set ?ids) (expire_row env) (tasks (st s)) =
        Inr (tasks ?w, map (expire_row env) (filter (\<lambda>t. task_id t \<in> set ?ids) (tasks (st s))))"
      using expire_valid_iff [OF inv, of env n] proc by (simp add: tasks_update_rows_def w)
    then have "tasks_wf (tasks ?w)"
      using tasks_update_rows_wf [OF _ keeps_keys_expire_row] db_invD(1) [OF inv] by blast
    moreover have "events_wf evs" "dense_seq evs" using logs by blast+
    ultimately have dbw: "db_inv ?w" unfolding db_inv_def by (simp add: w)
    have stat: "status_of j ?w = (if j \<in> set ?ids then Some FAILED else status_of j (st s))" for j
    proof -
      have "findById j ?w = map_option (\<lambda>t. if j \<in> set ?ids then expire_row env t else t) (findById j (st s))"
        using findById_update_where [OF keeps_keys_expire_row, where i = j and s = "st s"]
          findById_valid [OF inv, of j]
        by (cases "findById j (st s)") (auto simp: findById_def w)
      then show ?thesis using proc [of j] by (cases "findById j (st s)") (auto simp: status_of_def)
    qed
    have acc: "account j (s\<lparr>st := ?w\<rparr>) = (if j \<in> set ?ids then {#EvFailed#} else {#}) + account j s" for j
      by (simp add: account_def ev terminal_types_bulk [OF dist] ac_simps)
    have "balanced j (s\<lparr>st := ?w\<rparr>)" for j
      using balanced_new [OF bal proc, of j "s\<lparr>st := ?w\<rparr>" EvFailed] bal [of j] acc [of j] stat [of j]
      by (cases "j \<in> set ?ids") (simp_all add: final_status_def balanced_def)
    moreover have "ev_taskId ` set ?new \<subseteq> set ?ids" by (auto simp: bulk_row_def)
    then have "known_ids (s\<lparr>st := ?w\<rparr>)"
      using kn proc by (auto simp: known_ids_iff stat ev split: if_splits)
    moreover have "status_move False (status_of j (st s)) (status_of j ?w)" for j
      using proc [of j] by (simp add: stat status_move_def)
    ultimately show ?thesis using dbw by (simp add: good_step_def sys_inv_def status_move_mono)
  qed
qed

section \<open>All steps\<close>

lemma good_sys_step: "sys_step s s' \<Longrightarrow> sys_inv s \<Longrightarrow> good_step s s'"
proof (induction rule: sys_step.induct)
  case (create_insert env s dto t w)
  show ?case using good_create [OF create_insert(4,1,3)] by simp
next
  case (create_undo s i)
  then show ?case by (rule good_deleteById)
next
  case (slot_occupy s now k ttl)
  then show ?case by (intro good_frame) (simp_all add: occupy_slot_def split: prod.split)
next
  case (slot_commit s now k i)
  then show ?case by (intro good_frame) (simp_all add: commit_slot_def)
next
  case (slot_release s k)
  then show ?case by (intro good_frame) (simp_all add: release_slot_def)
next
  case (enqueue_step q j opts s v)
  have "good_step s (s\<lparr>st := snd (enqueue_job v q j opts (st s))\<rparr>)"
    using enqueue_step(3) by (intro good_frame) simp_all
  then show ?case by simp
next
  case (publish_step ev s i)
  then show ?case by (intro good_frame) (simp_all add: publish_event_def)
next
  case (claim_step s env i tmo)
  then show ?case by (rule good_claim)
next
  case (dispatch_failed url err s env io i)
  then show ?case by (intro good_dispatch_catch)
next
  case (report dto env i s t w)
  show ?case using good_report [OF report(3,2)] by simp
next
  case (progress_step i s p upd)
  then show ?case by (intro good_progress)
next
  case (event_insert inp s eid now ev w)
  then show ?case by (intro good_event_insert)
next
  case (event_lost s inp)
  then show ?case by (rule good_event_lost)
next
  case (cancel_step now upd eid dbnow i s r w)
  then show ?case using good_cancel [of s now upd eid dbnow "db_uuid i"] by simp
next
  case (sweep_step s env n)
  then show ?case by (rule good_sweep)
next
  case (retention_step ids cutoff s)
  then show ?case using good_retention by simp
qed

lemma sys_init_inv: "sys_init s \<Longrightarrow> sys_inv s"
  using db_inv_empty_world
  by (simp add: sys_init_def sys_inv_def known_ids_def balanced_def account_def empty_world_def)

text \<open>What the outside sees of a task: whether its identifier was issued, and its status.\<close>

definition observed :: "sys \<Rightarrow> uuid \<Rightarrow> bool \<times> task_status option" where
  "observed s i = (i \<in> set (issued s), status_of i (st s))"

definition observed_move :: "(uuid \<Rightarrow> bool \<times> task_status option) \<Rightarrow> (uuid \<Rightarrow> bool \<times> task_status option) \<Rightarrow> bool" where
  "observed_move a b \<longleftrightarrow>
     (\<forall>i. (fst (a i) \<longrightarrow> fst (b i)) \<and> status_move (\<not> fst (a i)) (snd (a i)) (snd (b i)))"

interpretation run: observed_system sys_init sys_step sys_inv observed observed_move
proof unfold_locales
  show "sys_inv s" if "sys_init s" for s using that by (rule sys_init_inv)
  show "sys_inv s'" if "sys_inv s" and "sys_step s s'" for s s'
    using good_sys_step [OF that(2,1)] by (simp add: good_step_def)
  show "observed_move (observed s) (observed s')" if "sys_inv s" and "sys_step s s'" for s s'
    using good_sys_step [OF that(2,1)] by (auto simp: good_step_def observed_def observed_move_def)
qed

lemma observed_move_terminal:
  assumes "observed_move\<^sup>*\<^sup>* a b" and "fst (a i)" and "snd (a i) \<in> {Some x, None}" and "terminal x"
  shows "fst (b i) \<and> snd (b i) \<in> {Some x, None} \<and> (snd (a i) = None \<longrightarrow> snd (b i) = None)"
  using assms(1)
proof (induction rule: rtranclp_induct)
  case base
  show ?case using assms(2,3) by simp
next
  case (step b c)
  then have "fst (c i)" "status_move False (snd (b i)) (snd (c i))" by (auto simp: observed_move_def)
  with step.IH assms(4) show ?case by (cases x) (auto simp: status_move_def)
qed

text \<open>A run to apply the properties to: a task is created, then cancelled.\<close>

definition sys0 :: sys where
  "sys0 = \<lparr>st = empty_world, inflight = [], issued = [], past_events = [], owed = []\<rparr>"

definition sys1 :: sys where
  "sys1 = \<lparr>st = empty_world\<lparr>tasks := [created_row sample_env sample_dto]\<rparr>, inflight = [], issued = [''new''], past_events = [],
     owed = [(DISPATCH_QUEUE, ''new'')]\<rparr>"

definition sys2 :: sys where
  "sys2 = sys1\<lparr>st := snd (cancelTask 20 21 ''e'' 22 ''new'' (st sys1)),
     owed := (case fst (cancelTask 20 21 ''e'' 22 ''new'' (st sys1)) of
                Inr (Some _) \<Rightarrow> (''cancel'', ''new'') # owed sys1 | _ \<Rightarrow> owed sys1)\<rparr>"

lemma sample_id: "ce_id sample_env = ''new''"
  by (simp add: sample_env_def)

lemma sys_step_01: "sys_step sys0 sys1"
proof -
  have "dto_payload sample_dto = None" by (simp add: sample_dto_def)
  then have "tasks_insert (ce_id sample_env) (ce_dbnow sample_env) (create_values sample_env sample_dto) (st sys0) =
      (Inr (created_row sample_env sample_dto), st sys1)"
    using insert_created [OF db_inv_empty_world, of sample_env sample_dto]
    by (simp add: sys0_def sys1_def key_taken_def empty_world_def split: option.split)
  from sys_step.create_insert [OF _ _ this] show ?thesis
    by (simp add: sys0_def sys1_def sample_id create_ok_def sample_dto_def)
qed

lemma sys_step_12: "sys_step sys1 sys2"
proof -
  have "db_uuid ''new'' = ''new''" by code_simp
  then show ?thesis unfolding sys2_def by (intro sys_step.cancel_step) (simp add: prod_eq_iff)
qed

lemma reach_sys0: "reach sys_init sys_step sys0"
  by (rule reach_init) (simp add: sys_init_def sys0_def)

lemma reach_sys1: "reach sys_init sys_step sys1"
  by (rule reach_step [OF reach_sys0 sys_step_01])

lemma reach_sys2: "reach sys_init sys_step sys2"
  by (rule reach_step [OF reach_sys1 sys_step_12])

lemma sample_status:
  "status_of ''new'' (st sys1) = Some PENDING" "status_of ''new'' (st sys2) = Some CANCELLED"
  "issued sys2 = [''new'']"
proof -
  have find: "findById ''new'' (st sys1) = Some (created_row sample_env sample_dto)"
    by (simp add: sys1_def findById_def find_row_def sample_id)
  then show "status_of ''new'' (st sys1) = Some PENDING" by (simp add: status_of_def)
  have "db_inv (st sys1)" using run.invar_reach [OF reach_sys1] by (simp add: sys_inv_def)
  then show "status_of ''new'' (st sys2) = Some CANCELLED"
    using find by (simp add: sys2_def cancelTask_eq Let_def)
      (simp add: sys1_def empty_world_def insertEventInTx_def events_insert_row_def
        task_events_task_id_seq_unique_idx_def status_of_def findById_def find_row_def sample_id Let_def)
  show "issued sys2 = [''new'']" by (simp add: sys2_def sys1_def)
qed

section \<open>Properties of every interleaving\<close>

text \<open>
  C9: In every state that any interleaving of API handlers and workers can reach, with handlers
  stopping anywhere: identifiers and idempotency keys are unique, every row satisfies the state
  check, and the events of each task are numbered 1, 2, 3, \<dots> without gap or repetition.
\<close>

theorem reachable_consistent:
  assumes "reach sys_init sys_step s"
  shows "distinct (map task_id (tasks (st s))) \<and> distinct (indexed_keys (tasks (st s)))
    \<and> (\<forall>t \<in> set (tasks (st s)). tasks_valid_state_data t)
    \<and> (\<forall>i. map seq (task_log (task_events (st s)) i) = [1..int (length (task_log (task_events (st s)) i))])"
  using run.invar_reach [OF assms]
  by (auto simp: sys_inv_def db_inv_def tasks_wf_def tasks_idempotency_key_idx_def dense_seq_def list_all_iff)

theorem reachable_consistent_witness: "distinct (map task_id (tasks (st sys2)))"
  using reachable_consistent [OF reach_sys2] by blast

text \<open>
  C3: The life cycle. Along every interleaving a task moves only along the arrows of the state
  diagram: one step keeps the status, deletes the row, or takes one of the five transitions; in
  particular no step leads back to \<open>PENDING\<close> and none from \<open>PENDING\<close> to \<open>COMPLETED\<close> or \<open>FAILED\<close>.
\<close>

theorem status_follows_diagram:
  assumes "reach sys_init sys_step s" and "sys_step s s'"
    and "status_of i (st s) = Some a" and "status_of i (st s') = Some b" and "a \<noteq> b"
  shows "(a, b) \<in> {(PENDING, PROCESSING), (PENDING, CANCELLED), (PROCESSING, COMPLETED),
    (PROCESSING, FAILED), (PROCESSING, CANCELLED)}"
  using run.obs_reach [OF assms(1,2)] assms(3-5)
  by (auto simp: observed_move_def observed_def status_move_def dest: spec [of _ i])

theorem status_follows_diagram_witness: "(PENDING, CANCELLED) \<in> {(PENDING, PROCESSING), (PENDING, CANCELLED), (PROCESSING, COMPLETED),
    (PROCESSING, FAILED), (PROCESSING, CANCELLED)} \<and> status_of ''new'' (st sys2) = Some CANCELLED"
  using status_follows_diagram [OF reach_sys1 sys_step_12 sample_status(1,2)] sample_status(2) by blast

text \<open>
  C2: Terminal states are final. Once a task is \<open>COMPLETED\<close>, \<open>FAILED\<close> or \<open>CANCELLED\<close>, however the
  run goes on it keeps that status until its row is deleted; and an identifier whose row has been
  deleted never gets a row again.
\<close>

theorem terminal_is_final:
  assumes "reach sys_init sys_step s" and "sys_step\<^sup>*\<^sup>* s s'" and "i \<in> set (issued s)" and "terminal x"
    and "status_of i (st s) \<in> {Some x, None}"
  shows "status_of i (st s') \<in> {Some x, None} \<and> (status_of i (st s) = None \<longrightarrow> status_of i (st s') = None)"
  using observed_move_terminal [OF run.obs_path [OF assms(1,2)], of i x] assms(3-5)
  by (simp add: observed_def)

theorem terminal_is_final_witness:
  "status_of ''new'' (snd (claim \<lparr>dp_now = 30, dp_upd = 31, dp_failed = 32, dp_upd2 = 33\<rparr> ''new'' 300 (st sys2)))
     \<in> {Some CANCELLED, None}"
proof -
  let ?s3 = "sys2\<lparr>st := snd (claim \<lparr>dp_now = 30, dp_upd = 31, dp_failed = 32, dp_upd2 = 33\<rparr> ''new'' 300 (st sys2))\<rparr>"
  have "sys_step\<^sup>*\<^sup>* sys2 ?s3" by (intro r_into_rtranclp sys_step.claim_step)
  from terminal_is_final [OF reach_sys2 this, of "''new''" CANCELLED] show ?thesis
    by (simp add: sample_status)
qed

text \<open>
  C1: One ending per task. In every reachable state the log of a task holds at most one terminal
  event, and as long as the row exists its status is the one that event announces. So competing
  results, cancellations and timeouts never produce two endings for the client to see.
\<close>

theorem one_terminal_event:
  assumes "reach sys_init sys_step s"
  shows "length (filter (\<lambda>e. terminal_event_type (eventType e)) (task_log (task_events (st s)) i)) \<le> 1
    \<and> (\<forall>e \<in> set (task_log (task_events (st s)) i). terminal_event_type (eventType e) \<longrightarrow>
         status_of i (st s) \<in> {None, Some (final_status (eventType e))})"
proof -
  let ?evs = "task_events (st s)"
  have bal: "balanced i s" using run.invar_reach [OF assms] by (simp add: sys_inv_def)
  have "length (filter (\<lambda>e. terminal_event_type (eventType e)) (task_log ?evs i)) = size (terminal_types i ?evs)"
  proof -
    have "mset (filter (\<lambda>e. terminal_event_type (eventType e)) (task_log ?evs i)) =
        mset (filter (\<lambda>e. ev_taskId e = i \<and> terminal_event_type (eventType e)) ?evs)"
      by (simp add: task_log_def filter_filter_mset conj_commute)
    from arg_cong [OF this, of size] show ?thesis
      unfolding terminal_types_def size_mset by simp
  qed
  moreover have "eventType e \<in># account i s"
    if "e \<in> set (task_log ?evs i)" "terminal_event_type (eventType e)" for e
    using that by (auto simp: account_def terminal_types_def task_log_def)
  ultimately show ?thesis
    using bal unfolding balanced_def by (auto simp: account_def)
qed

theorem one_terminal_event_witness:
  "length (filter (\<lambda>e. terminal_event_type (eventType e)) (task_log (task_events (st sys2)) ''new'')) \<le> 1"
  using one_terminal_event [OF reach_sys2] by blast

end
