(* ===== verification/Handlers.thy ===== *)
theory Handlers
  imports System
begin

text \<open>
  The routes and jobs as a whole against the transition system. \<open>handler_step\<close> runs one request
  handler or job from its first statement to its last, with every call's verdict chosen by the
  environment; a dispatch job lets the others run during its HTTP call. Each such run is shown to be
  a run of \<open>sys_step\<close>, so what holds of every interleaving of statements holds of the handlers.
\<close>

section \<open>Simulation\<close>

text \<open>
  A concrete system simulated by an abstract one, whose reachable states may be used in the proof
  of a step: every concrete state is then covered by a reachable abstract one.
\<close>

locale simulated_system =
  fixes cinit :: "'c \<Rightarrow> bool" and cstep :: "'c \<Rightarrow> 'c \<Rightarrow> bool"
    and ainit :: "'a \<Rightarrow> bool" and astep :: "'a \<Rightarrow> 'a \<Rightarrow> bool"
    and covers :: "'a \<Rightarrow> 'c \<Rightarrow> bool"
  assumes sim_init: "cinit c \<Longrightarrow> \<exists>a. ainit a \<and> covers a c"
    and sim_step: "reach ainit astep a \<Longrightarrow> covers a c \<Longrightarrow> cstep c c' \<Longrightarrow>
           \<exists>a'. astep\<^sup>*\<^sup>* a a' \<and> covers a' c'"
begin

lemma covered: "reach cinit cstep c \<Longrightarrow> \<exists>a. reach ainit astep a \<and> covers a c"
proof (induction rule: reach.induct)
  case (reach_init c)
  from sim_init [OF this] obtain a where "ainit a" "covers a c" by blast
  with reach.reach_init [of ainit a astep] show ?case by blast
next
  case (reach_step c c')
  then obtain a where a: "reach ainit astep a" "covers a c" by blast
  from sim_step [OF this reach_step.hyps(2)] obtain a' where "astep\<^sup>*\<^sup>* a a'" "covers a' c'" by blast
  with reach_steps [OF this(1) a(1)] show ?case by blast
qed

lemma path_covered:
  assumes "reach ainit astep a" and "covers a c" and "cstep\<^sup>*\<^sup>* c c'"
  shows "\<exists>a'. astep\<^sup>*\<^sup>* a a' \<and> covers a' c'"
  using assms(3)
proof (induction rule: rtranclp_induct)
  case base
  then show ?case using assms(2) by blast
next
  case (step y z)
  then obtain b where b: "astep\<^sup>*\<^sup>* a b" "covers b y" by blast
  from sim_step [OF reach_steps [OF b(1) assms(1)] b(2) step.hyps(2)] obtain b' where "astep\<^sup>*\<^sup>* b b'" "covers b' z"
    by blast
  with rtranclp_trans [OF b(1)] show ?case by blast
qed

end

section \<open>Runs of statements\<close>

text \<open>
  \<open>run_with Q ids s w\<close>: statements lead from \<open>s\<close> to the stores \<open>w\<close>, the database has then issued
  identifiers of \<open>ids\<close> only, and \<open>Q\<close> holds at the end.
\<close>

definition run_with :: "(sys \<Rightarrow> bool) \<Rightarrow> uuid list \<Rightarrow> sys \<Rightarrow> world \<Rightarrow> bool" where
  "run_with Q ids s w \<longleftrightarrow> (\<exists>s'. sys_step\<^sup>*\<^sup>* s s' \<and> st s' = w \<and> set (issued s') \<subseteq> set ids \<and> Q s')"

abbreviation run_to :: "uuid list \<Rightarrow> sys \<Rightarrow> world \<Rightarrow> bool" where
  "run_to \<equiv> run_with (\<lambda>_. True)"

lemma run_refl_with: "set (issued s) \<subseteq> set ids \<Longrightarrow> Q s \<Longrightarrow> run_with Q ids s (st s)"
  by (auto simp: run_with_def)

lemma run_refl: "set (issued s) \<subseteq> set ids \<Longrightarrow> run_to ids s (st s)"
  by (simp add: run_refl_with)

lemma run_step_with: "sys_step s s' \<Longrightarrow> set (issued s') \<subseteq> set ids \<Longrightarrow> Q s' \<Longrightarrow> run_with Q ids s (st s')"
  by (auto simp: run_with_def)

lemma run_step: "sys_step s s' \<Longrightarrow> set (issued s') \<subseteq> set ids \<Longrightarrow> run_to ids s (st s')"
  by (simp add: run_step_with)

lemma run_trans:
  assumes "run_with Q ids s w"
    and "\<And>s1. sys_step\<^sup>*\<^sup>* s s1 \<Longrightarrow> st s1 = w \<Longrightarrow> set (issued s1) \<subseteq> set ids \<Longrightarrow> Q s1 \<Longrightarrow> run_with R ids' s1 w'"
  shows "run_with R ids' s w'"
proof -
  obtain s1 where "sys_step\<^sup>*\<^sup>* s s1" "st s1 = w" "set (issued s1) \<subseteq> set ids" "Q s1"
    using assms(1) by (auto simp: run_with_def)
  moreover from assms(2) [OF this] obtain s2 where "sys_step\<^sup>*\<^sup>* s1 s2" "st s2 = w'" "set (issued s2) \<subseteq> set ids'" "R s2"
    by (auto simp: run_with_def)
  ultimately have "sys_step\<^sup>*\<^sup>* s s2" "st s2 = w'" "set (issued s2) \<subseteq> set ids'" "R s2"
    by (simp_all add: rtranclp_trans [of sys_step s s1 s2])
  then show ?thesis unfolding run_with_def by blast
qed

lemma run_weaken: "run_with Q ids s w \<Longrightarrow> (\<And>s'. Q s' \<Longrightarrow> R s') \<Longrightarrow> run_with R ids s w"
  by (auto simp: run_with_def)

text \<open>
  A statement with any verdict, and a statement followed by what the handler does with its answer. The
  jobs the handler still owes are those it owed before.
\<close>

lemma run_io_with:
  assumes "sys_step s (s\<lparr>st := snd (f (st s))\<rparr>)" and "set (issued s) \<subseteq> set ids"
  shows "run_with (\<lambda>s'. owed s' = owed s) ids s (snd (io_call v f (st s)))"
proof (rule io_call_preserves [where P = "run_with (\<lambda>s'. owed s' = owed s) ids s"])
  show "run_with (\<lambda>s'. owed s' = owed s) ids s (st s)" by (simp add: run_refl_with assms(2))
  show "run_with (\<lambda>s'. owed s' = owed s) ids s (snd (f (st s)))"
    using run_step_with [OF assms(1), of ids "\<lambda>s'. owed s' = owed s"] assms(2) by simp
qed

lemma run_io:
  assumes "sys_step s (s\<lparr>st := snd (f (st s))\<rparr>)" and "set (issued s) \<subseteq> set ids"
  shows "run_to ids s (snd (io_call v f (st s)))"
  by (rule run_weaken [OF run_io_with [where f = f, OF assms]]) simp

lemma run_bind:
  assumes "run_with Q ids s (snd p)"
    and "\<And>s1 e. set (issued s1) \<subseteq> set ids \<Longrightarrow> Q s1 \<Longrightarrow> p = (Inl e, st s1) \<Longrightarrow> run_to ids' s1 (snd (f e (st s1)))"
    and "\<And>s1 x. set (issued s1) \<subseteq> set ids \<Longrightarrow> Q s1 \<Longrightarrow> p = (Inr x, st s1) \<Longrightarrow> run_to ids' s1 (snd (g x (st s1)))"
  shows "run_to ids' s (snd (case p of (Inl e, w) \<Rightarrow> f e w | (Inr x, w) \<Rightarrow> g x w))"
proof (rule run_trans [OF assms(1)])
  fix s1 :: sys assume "st s1 = snd p" "set (issued s1) \<subseteq> set ids" "Q s1"
  with assms(2,3) [OF this(2,3)] show "run_to ids' s1 (snd (case p of (Inl e, w) \<Rightarrow> f e w | (Inr x, w) \<Rightarrow> g x w))"
    by (cases p; cases "fst p") simp_all
qed

lemma run_mono: "run_to ids s w \<Longrightarrow> set ids \<subseteq> set ids' \<Longrightarrow> run_to ids' s w"
  by (auto simp: run_with_def)

section \<open>Creation and cancellation\<close>

text \<open>The row of a creation, which its handler follows up with a dispatch job.\<close>

lemma insert_id: "fst (tasks_insert i now (create_values env dto) w) = Inr t \<Longrightarrow> task_id t = i"
  by (auto simp: tasks_insert_def row_of_insert_def create_values_def Let_def split: sum.splits)

lemma run_insert:
  fixes env :: create_env and dto :: create_task_dto
  defines "ins \<equiv> tasks_insert (ce_id env) (ce_dbnow env) (create_values env dto)"
  assumes "ce_id env \<notin> set ids" and "set (issued s) \<subseteq> set ids" and "create_ok dto"
  shows "run_with (\<lambda>s'. \<forall>t. fst (io_call v ins (st s)) = Inr t \<longrightarrow> (DISPATCH_QUEUE, task_id t) \<in> set (owed s'))
    (ce_id env # ids) s (snd (io_call v ins (st s)))"
proof (cases "\<exists>t. v \<noteq> Fail_Before \<and> fst (ins (st s)) = Inr t")
  case True
  then obtain t where v: "v \<noteq> Fail_Before" and t: "ins (st s) = (Inr t, snd (ins (st s)))" by (metis prod.collapse)
  have "ce_id env \<notin> set (issued s)" using assms(2,3) by blast
  note step = sys_step.create_insert [OF this assms(4) t [unfolded ins_def]]
  have "snd (io_call v ins (st s)) = snd (ins (st s))" using v by (cases v) simp_all
  moreover have "task_id t' = ce_id env" if "fst (io_call v ins (st s)) = Inr t'" for t'
    using that t insert_id unfolding ins_def by (cases v) auto
  moreover have "run_with Q (ce_id env # ids) s (snd (ins (st s)))"
    if "Q (s\<lparr>st := snd (ins (st s)), issued := ce_id env # issued s, owed := (DISPATCH_QUEUE, ce_id env) # owed s\<rparr>)" for Q
    using run_step_with [OF step, of "ce_id env # ids" Q] that assms(3) by (auto simp: ins_def)
  ultimately show ?thesis by simp
next
  case False
  have "snd (ins w) = w" if "fst (ins w) = Inl e" for w e
    using that by (auto simp: ins_def tasks_insert_def Let_def split: sum.splits)
  then have "snd (io_call v ins (st s)) = st s" "\<nexists>t. fst (io_call v ins (st s)) = Inr t"
    using False by (cases v; cases "fst (ins (st s))"; auto)+
  then show ?thesis
    using run_refl [of s "ce_id env # ids"] assms(3) by (simp add: subset_insertI2)
qed

lemma run_release:
  "set (issued s) \<subseteq> set ids \<Longrightarrow> run_to ids s (release_if_keyed v key (st s))"
  by (auto simp: release_if_keyed_def split: option.split intro: run_refl run_io sys_step.slot_release)

lemma run_commit:
  "set (issued s) \<subseteq> set ids \<Longrightarrow> run_to ids s (commit_if_keyed v now key i (st s))"
  by (auto simp: commit_if_keyed_def split: option.split intro: run_refl run_io sys_step.slot_commit)

lemma run_enqueue:
  assumes "enqueued q j opts" and "(q, job_taskId (job_data j)) \<in> set (owed s)" and "set (issued s) \<subseteq> set ids"
  shows "run_to ids s (snd (enqueue_job v q j opts (st s)))"
  using run_step [OF sys_step.enqueue_step [OF assms(1,2), of v], of ids] assms(3) by simp

lemma run_publish:
  "ev \<in> set (task_events (st s)) \<Longrightarrow> db_uuid (ev_taskId ev) = db_uuid i \<Longrightarrow> set (issued s) \<subseteq> set ids \<Longrightarrow>
   run_with (\<lambda>s'. owed s' = owed s) ids s (snd (io_call v (publish_event i ev) (st s)))"
  by (intro run_io_with sys_step.publish_step) simp_all

lemma run_publish_last:
  "ev \<in> set (task_events (st s)) \<Longrightarrow> db_uuid (ev_taskId ev) = db_uuid i \<Longrightarrow> set (issued s) \<subseteq> set ids \<Longrightarrow>
   run_to ids s (snd (io_call v (publish_event i ev) (st s)))"
  by (rule run_weaken [OF run_publish]) simp_all

text \<open>An event that is published has come back from the statement that wrote it.\<close>

lemma insert_event_own:
  "io_call v (insert_event eid now inp) w = (Inr ev, w') \<Longrightarrow>
   ev_taskId ev = input_taskId inp \<and> ev \<in> set (task_events w')"
  by (cases v) (auto simp: insert_event_def insertEventInTx_Inr split: sum.splits prod.splits)

lemma cancelTask_own:
  "io_call v (cancelTask now upd eid dbnow i) (w :: world) = (Inr (Some (t, ev)), w') \<Longrightarrow>
   ev_taskId ev = i \<and> ev \<in> set (task_events w')"
  by (cases v) (auto simp: cancelTask_def insertEventInTx_Inr split: sum.splits prod.splits list.splits)

lemma run_undo: "set (issued s) \<subseteq> set ids \<Longrightarrow> run_to ids s (snd (io_call v (deleteById i) (st s)))"
  by (intro run_io sys_step.create_undo)

lemma run_undo_release:
  assumes "set (issued s) \<subseteq> set ids"
  shows "run_to ids s (release_if_keyed v2 key (snd (io_call v (deleteById i) (st s))))"
  by (rule run_trans [OF run_undo [OF assms, of v i]]) (metis run_release)

lemma run_publish_then:
  assumes "set (issued s) \<subseteq> set ids" and "db_uuid (ev_taskId ev) = db_uuid i" and "ev \<in> set (task_events (st s))"
    and "\<And>s1. set (issued s1) \<subseteq> set ids \<Longrightarrow> owed s1 = owed s \<Longrightarrow> run_to ids s1 (snd (k (st s1)))"
  shows "run_to ids s (snd (case io_call v (publish_event i ev) (st s) of (Inl e, w) \<Rightarrow> (Inl e, w) | (Inr _, w) \<Rightarrow> k w))"
  by (rule run_bind [OF run_publish [OF assms(3,2,1)]]) (simp_all add: run_refl assms(4))

lemma run_create_steps:
  assumes "ce_id env \<notin> set ids" and "set (issued s) \<subseteq> set ids" and "create_ok dto"
  shows "run_to (ce_id env # ids) s (snd (create_steps env io dto b (st s)))"
  unfolding create_steps_def
proof (rule run_bind [OF run_insert [OF assms]])
  fix s1 :: sys and t
  assume s1: "set (issued s1) \<subseteq> set (ce_id env # ids)"
    and owes: "\<forall>t. fst (io_call (io_insert io) (tasks_insert (ce_id env) (ce_dbnow env) (create_values env dto)) (st s)) = Inr t
      \<longrightarrow> (DISPATCH_QUEUE, task_id t) \<in> set (owed s1)"
    and t: "io_call (io_insert io) (tasks_insert (ce_id env) (ce_dbnow env) (create_values env dto)) (st s) = (Inr t, st s1)"
  have "(DISPATCH_QUEUE, task_id t) \<in> set (owed s1)" using owes t by simp
  then have "run_to (ce_id env # ids) s1 (snd (enqueue_job (io_enqueue io) DISPATCH_QUEUE (dispatch_job t)
      (no_options\<lparr>opt_attempts := Some 1\<rparr>) (st s1)))"
    using s1 by (intro run_enqueue) (auto simp: enqueued_def dispatch_job_def)
  then show "run_to (ce_id env # ids) s1
      (snd (case enqueue_job (io_enqueue io) DISPATCH_QUEUE (dispatch_job t)
                  (no_options\<lparr>opt_attempts := Some 1\<rparr>) (st s1) of
             (Inl e, w2) \<Rightarrow> (Inl e, release_if_keyed (io_release io) (dto_idempotencyKey dto)
                              (snd (io_call (io_delete io) (deleteById (task_id t)) w2)))
           | (Inr _, w2) \<Rightarrow> (Inr (buildResponse (task_id t) b),
               commit_if_keyed (io_commit io) (ce_commit env) (dto_idempotencyKey dto) (task_id t) w2)))"
    by (rule run_bind) (simp_all add: run_undo_release run_commit)
qed (simp add: run_release)

lemma run_create:
  assumes "ce_id env \<notin> set ids" and "set (issued s) \<subseteq> set ids" and "create_ok dto"
  shows "run_to (ce_id env # ids) s (snd (create env io dto b (st s)))"
proof -
  have "run_to ids s (snd (io_call (io_occupy io) (occupy_slot (ce_occupy env) k IDEMPOTENCY_TTL_SECONDS) (st s)))" for k
    using assms(2) by (intro run_io sys_step.slot_occupy)
  moreover have "run_to (ce_id env # ids) s1 (st s1)" if "set (issued s1) \<subseteq> set ids" for s1 :: sys
    using that by (intro run_refl) auto
  ultimately have "run_to (ce_id env # ids) s (snd (create env io dto b (st s)))"
    if "dto_idempotencyKey dto = Some k" "k \<noteq> []" for k
    using that unfolding create_def
    by (auto intro!: run_bind run_create_steps [OF assms(1) _ assms(3)] split: occupy_result.split)
  then show ?thesis
    using run_create_steps [OF assms] by (auto simp: create_def split: option.split)
qed

lemma run_cancelTask:
  assumes "set (issued s) \<subseteq> set ids"
  shows "run_with (\<lambda>s'. \<forall>x. fst (io_call v (cancelTask now upd eid dbnow (db_uuid i)) (st s)) = Inr (Some x) \<longrightarrow>
        (''cancel'', i) \<in> set (owed s'))
      ids s (snd (io_call v (cancelTask now upd eid dbnow (db_uuid i)) (st s)))"
proof -
  obtain r w where c: "cancelTask now upd eid dbnow (db_uuid i) (st s) = (r, w)" by fastforce
  have step: "run_with Q ids s w" if "Q (s\<lparr>st := w, owed := (case r of Inr (Some _) \<Rightarrow> (''cancel'', i) # owed s | _ \<Rightarrow> owed s)\<rparr>)" for Q
    using run_step_with [OF sys_step.cancel_step [OF c], of ids Q] assms that by simp
  have hit: "run_with (\<lambda>s'. \<forall>x. r = Inr (Some x) \<longrightarrow> (''cancel'', i) \<in> set (owed s')) ids s w"
    by (rule step) simp
  show ?thesis
  proof (cases v)
    case Done
    then show ?thesis using hit by (simp only: io_call_simps c fst_conv snd_conv)
  next
    case Fail_After
    from hit have "run_to ids s w" by (rule run_weaken) simp
    then show ?thesis using Fail_After by (simp add: c)
  qed (simp add: run_refl assms)
qed

lemma run_cancel:
  assumes "set (issued s) \<subseteq> set ids"
  shows "run_to ids s (snd (cancel env io i (st s)))"
proof -
  let ?j = "\<lparr>job_name = ''cancel'', job_data = TaskJobData i\<rparr>"
  have enq: "run_to ids s1 (snd (enqueue_job v ''cancel'' ?j no_options (st s1)))"
    if "set (issued s1) \<subseteq> set ids" "(''cancel'', i) \<in> set (owed s1)" for s1 v
    using that by (intro run_enqueue) (simp_all add: enqueued_def)
  have find: "snd (io_call (io_find io) (find_task (db_uuid i)) w) = w" for w :: world
    by (cases "io_find io") (simp_all add: find_task_def)
  note upd = run_cancelTask [OF assms, of "io_cancel io" "cn_now env" "cn_upd env" "cn_eid env" "cn_dbnow env" i]
  show ?thesis
    unfolding cancel_def
  proof (rule run_bind [OF upd], goal_cases)
    case (1 s1 e)
    then show ?case by (simp add: run_refl)
  next
    case (2 s1 x)
    show ?case
    proof (cases x)
      case None
      obtain a w2 where f: "io_call (io_find io) (find_task (db_uuid i)) (st s1) = (a, w2)" by fastforce
      then have "w2 = st s1" using find [of "st s1"] by simp
      then show ?thesis using 2(1) by (auto simp: None f run_refl split: sum.split option.split)
    next
      case (Some y)
      obtain t ev where y: "y = (t, ev)" by fastforce
      have owes: "(''cancel'', i) \<in> set (owed s1)" using 2(2,3) by (simp add: Some)
      have "ev_taskId ev = db_uuid i" "ev \<in> set (task_events (st s1))"
        using cancelTask_own 2(3) by (auto simp: Some y)
      then have "run_to ids s1 (snd (case io_call (io_publish io) (publish_event i ev) (st s1) of
          (Inl e, w2) \<Rightarrow> (Inl e, w2)
        | (Inr _, w2) \<Rightarrow> if truthy (cancelUrl t) then enqueue_job (io_cancel_enqueue io) ''cancel'' ?j no_options w2
            else (Inr (), w2)))"
        using 2(1) owes by (intro run_publish_then) (simp_all add: enq run_refl)
      then show ?thesis by (simp add: Some y)
    qed
  qed
qed

section \<open>Reports\<close>

lemma run_event:
  assumes "inp \<in> set (inflight s)" and "set (issued s) \<subseteq> set ids"
  shows "run_with (\<lambda>s'. owed s' = owed s) ids s (snd (io_call v (insert_event eid now inp) (st s)))"
proof (rule io_call_preserves [where P = "run_with (\<lambda>s'. owed s' = owed s) ids s"])
  show idle: "run_with (\<lambda>s'. owed s' = owed s) ids s (st s)" by (simp add: run_refl_with assms(2))
  show "run_with (\<lambda>s'. owed s' = owed s) ids s (snd (insert_event eid now inp (st s)))"
  proof (cases "insertEventInTx eid now inp (task_events (st s))")
    case (Inl e)
    then show ?thesis using idle by (simp add: insert_event_def)
  next
    case (Inr p)
    then have ins: "insert_event eid now inp (st s) = (Inr (fst p), (st s)\<lparr>task_events := snd p\<rparr>)"
      by (simp add: insert_event_def split_beta)
    from run_step_with [OF sys_step.event_insert [OF assms(1) ins], of ids "\<lambda>s'. owed s' = owed s"] show ?thesis
      using assms(2) ins by simp
  qed
qed

lemma run_submit_tail:
  assumes "inp \<in> set (inflight s)" and "set (issued s) \<subseteq> set ids" and "input_taskId inp = task_id t"
    and "(''webhook'', task_id t) \<in> set (owed s)"
  shows "run_to ids s (snd (submit_tail env io t inp (st s)))"
proof -
  have "enqueued ''webhook'' (webhook_job (task_id t)) no_options" by (auto simp: enqueued_def)
  then have enq: "run_to ids s1 (snd (enqueue_job v ''webhook'' (webhook_job (task_id t)) no_options (st s1)))"
    if "set (issued s1) \<subseteq> set ids" "owed s1 = owed s" for s1 v
    using that assms(4) by (intro run_enqueue) (simp_all add: webhook_job_def)
  show ?thesis
    unfolding submit_tail_def
    by (rule run_bind [OF run_event [OF assms(1,2)]])
      (auto intro!: run_publish_then enq run_refl dest: insert_event_own simp: assms(3))
qed

text \<open>Both branches of the report: the conditional update, and the rest when it hit.\<close>

lemma updateStatus_Inr_None:
  assumes "updateStatus upd i frm to x s = (Inr None, s')"
  shows "s' = s"
proof -
  let ?p = "\<lambda>t. task_id t = i \<and> status t \<in> set frm"
  have "filter ?p (tasks s) = []" and s': "s' = s\<lparr>tasks := update_where ?p (set_status upd to x) (tasks s)\<rparr>"
    using assms by (auto simp: updateStatus_def tasks_update_rows_def split: if_splits list.splits)
  then have "update_where ?p (set_status upd to x) (tasks s) = tasks s"
    by (intro update_where_id) (auto simp: filter_empty_conv)
  then show ?thesis by (simp add: s')
qed

lemma updateStatus_Inl: "updateStatus upd i frm to x s = (Inl e, s') \<Longrightarrow> s' = s"
  by (auto simp: updateStatus_def split: sum.splits)

lemma run_submitResult:
  assumes "set (issued s) \<subseteq> set ids" and "result_ok dto"
  shows "run_to ids s (snd (submitResult env io t dto (st s)))"
proof -
  let ?upd = "updateStatus (sb_upd env) (task_id t) [PROCESSING] (dto_status dto)
      ((dto_patch dto)\<lparr>set_completedAt := Some (Some (sb_now env))\<rparr>)"
  let ?inp = "dto_input (task_id t) dto"
  have idle: "run_to ids s (st s)" by (rule run_refl [OF assms(1)])
  have hit: "run_to ids s w1 \<and> run_to ids s (snd (submit_tail env io t ?inp w1))"
    if "?upd (st s) = (Inr (Some r), w1)" for r w1
  proof -
    let ?s1 = "s\<lparr>st := w1, inflight := ?inp # inflight s, owed := (''webhook'', task_id t) # owed s\<rparr>"
    have step: "sys_step s ?s1" by (rule sys_step.report [OF assms(2) that])
    have tail: "run_to ids ?s1 (snd (submit_tail env io t ?inp (st ?s1)))"
      using assms(1) by (intro run_submit_tail) simp_all
    have first: "run_to ids s (st ?s1)" using run_step [OF step, of ids] assms(1) by simp
    from step tail have "run_to ids s (snd (submit_tail env io t ?inp w1))"
      unfolding run_with_def by (auto intro: converse_rtranclp_into_rtranclp)
    with first show ?thesis by simp
  qed
  obtain r w1 where upd: "?upd (st s) = (r, w1)" by fastforce
  consider e where "r = Inl e" "w1 = st s" | "r = Inr None" "w1 = st s" | t' where "r = Inr (Some t')"
  proof (cases r)
    case (Inl e)
    then show ?thesis using that(1) updateStatus_Inl upd by blast
  next
    case (Inr x)
    then show ?thesis using that(2,3) updateStatus_Inr_None upd by (cases x) blast+
  qed
  then show ?thesis
  proof cases
    case (3 t')
    then show ?thesis
      using hit [of t' w1] upd idle by (cases "sio_update io") (simp_all add: submitResult_eq)
  qed (use idle upd in \<open>cases "sio_update io"; simp add: submitResult_eq\<close>)+
qed

lemma run_updateProgress:
  assumes "set (issued s) \<subseteq> set ids" and "task_id t \<in> set (issued s)" and "progress_ok p"
  shows "run_to ids s (snd (executor_updateProgress env io t p (st s)))"
proof -
  let ?inp = "ProgressEventInput (task_id t) p"
  let ?w1 = "snd (updateProgress (sb_upd env) (task_id t) p (st s))"
  let ?s1 = "s\<lparr>st := ?w1, inflight := ?inp # inflight s\<rparr>"
  have step: "sys_step s ?s1" by (rule sys_step.progress_step [OF assms(2,3)])
  have first: "run_to ids s ?w1" using run_step [OF step, of ids] assms(1) by simp
  have "run_to ids ?s1 (snd (case io_call (sio_event io) (insert_event (sb_eid env) (sb_dbnow env) ?inp) (st ?s1) of
      (Inl e, w2) \<Rightarrow> (Inl e, w2) | (Inr ev, w2) \<Rightarrow> io_call (sio_publish io) (publish_event (task_id t) ev) w2))"
    using assms(1) by (intro run_bind [OF run_event]) (auto intro: run_refl intro!: run_publish_last dest: insert_event_own)
  with step have "run_to ids s (snd (case io_call (sio_event io) (insert_event (sb_eid env) (sb_dbnow env) ?inp) ?w1 of
      (Inl e, w2) \<Rightarrow> (Inl e, w2) | (Inr ev, w2) \<Rightarrow> io_call (sio_publish io) (publish_event (task_id t) ev) w2))"
    unfolding run_with_def by (auto intro: converse_rtranclp_into_rtranclp)
  moreover have "fst (updateProgress (sb_upd env) (task_id t) p (st s)) = Inr () \<or> ?w1 = st s"
    by (auto simp: updateProgress_def split: sum.split)
  ultimately show ?thesis
    using first run_refl [OF assms(1)]
    by (cases "sio_update io") (auto simp: executor_updateProgress_def split_beta split: sum.split)
qed

section \<open>Jobs\<close>

text \<open>
  What the others do while a dispatch call is under way: from every reachable state, \<open>m\<close> is the
  effect of some run of statements.
\<close>

definition others :: "uuid list \<Rightarrow> uuid list \<Rightarrow> (world \<Rightarrow> world) \<Rightarrow> bool" where
  "others ids ids' m \<longleftrightarrow> set ids \<subseteq> set ids' \<and>
     (\<forall>s. reach sys_init sys_step s \<longrightarrow> set (issued s) \<subseteq> set ids \<longrightarrow> run_to ids' s (m (st s)))"

lemma run_dispatch:
  assumes "reach sys_init sys_step s" and "set (issued s) \<subseteq> set ids" and "others ids ids' m"
  shows "run_to ids' s (snd (snd (dispatch_process env io net rnd m i tmo (st s))))"
proof -
  have sub: "set ids \<subseteq> set ids'" using assms(3) by (simp add: others_def)
  obtain r w1 where c: "io_call (dio_claim io) (claim env i tmo) (st s) = (r, w1)" by fastforce
  have w1: "run_to ids s w1"
  proof -
    have "run_to ids s (snd (io_call (dio_claim io) (claim env i tmo) (st s)))"
      using assms(2) by (intro run_io sys_step.claim_step)
    then show ?thesis by (simp add: c)
  qed
  have mean: "run_to ids' s (m w1)"
  proof (rule run_trans [OF w1])
    fix s1 assume "sys_step\<^sup>*\<^sup>* s s1" "st s1 = w1" "set (issued s1) \<subseteq> set ids"
    with assms(3) reach_steps [OF this(1) assms(1)] show "run_to ids' s1 (m w1)" by (auto simp: others_def)
  qed
  have fail: "run_to ids' s (snd (dispatch_catch env io i err (m w1)))"
    if "outcome (post url opts net rnd) = Inl err" for url opts err
  proof (rule run_trans [OF mean])
    fix s1 :: sys assume s1: "st s1 = m w1" "set (issued s1) \<subseteq> set ids'"
    from run_step [OF sys_step.dispatch_failed [OF post_exn [OF that], of s1 env io i], of ids'] s1
    show "run_to ids' s1 (snd (dispatch_catch env io i err (m w1)))" by simp
  qed
  show ?thesis
    using run_mono [OF w1 sub] mean fail
    by (auto simp: dispatch_process_def c Let_def split: sum.split option.split prod.split)
      (metis snd_conv)
qed

lemma batch_stored:
  assumes "io_call v (expireTimedOutTasksBatch env n) (w :: world) = (Inr (c, evs), w')"
  shows "set evs \<subseteq> set (task_events w')"
proof -
  have "expireTimedOutTasksBatch env n w = (Inr (c, evs), w')" using assms by (cases v) (simp_all split: prod.splits)
  then show ?thesis
    by (auto simp: expireTimedOutTasksBatch_def Let_def dest: events_insert_rows_Inr split: sum.splits prod.splits if_splits)
qed

lemma io_publish_events [simp]: "task_events (snd (io_call v (publish_event i ev) w)) = task_events w"
  by (cases v) (simp_all add: publish_event_def)

lemma run_publish_all:
  "set (issued s) \<subseteq> set ids \<Longrightarrow> set es \<subseteq> set (task_events (st s)) \<Longrightarrow> run_to ids s (publish_all v es (st s))"
proof (induction es arbitrary: v s)
  case Nil
  then show ?case by (simp add: run_refl)
next
  case (Cons e es)
  show ?case
    unfolding publish_all.simps
  proof (rule run_trans)
    show "run_to ids s (snd (io_call (v 0) (publish_event (ev_taskId e) e) (st s)))"
      using Cons.prems by (intro run_publish_last) simp_all
    fix s1 :: sys
    assume s1: "st s1 = snd (io_call (v 0) (publish_event (ev_taskId e) e) (st s))" "set (issued s1) \<subseteq> set ids"
    have "set es \<subseteq> set (task_events (st s1))" using Cons.prems by (simp add: s1(1))
    from Cons.IH [OF s1(2) this] have "run_to ids s1 (publish_all (v \<circ> Suc) es (st s1))" .
    then show "run_to ids s1 (publish_all (v \<circ> Suc) es (snd (io_call (v 0) (publish_event (ev_taskId e) e) (st s))))"
      by (simp add: s1)
  qed
qed

lemma run_sweep_loop:
  "set (issued s) \<subseteq> set ids \<Longrightarrow> w = st s \<Longrightarrow> run_to ids s (snd (sweep_loop env k n w))"
proof (induction env k n w arbitrary: s rule: sweep_loop.induct)
  case (1 env k n w)
  let ?p = "io_call (sw_io (env k)) (expireTimedOutTasksBatch (env k) SWEEP_BATCH_SIZE) w"
  have first: "run_to ids s (snd ?p)"
    unfolding 1(3) using 1(2) by (intro run_io sys_step.sweep_step)
  obtain r w1 where p: "?p = (r, w1)" by fastforce
  show ?case
  proof (cases "\<exists>c evs. r = Inr (c, evs) \<and> c \<noteq> 0")
    case False
    then show ?thesis using first by (subst sweep_loop.simps) (auto simp: p split: sum.split)
  next
    case True
    then obtain c evs where r: "r = Inr (c, evs)" "c \<noteq> 0" by blast
    have "run_to ids s (publish_all (sw_publish (env k)) evs w1)"
    proof (rule run_trans [OF first])
      fix s1 :: sys assume "st s1 = snd ?p" "set (issued s1) \<subseteq> set ids"
      then show "run_to ids s1 (publish_all (sw_publish (env k)) evs w1)"
        using run_publish_all [of s1 ids evs "sw_publish (env k)"] batch_stored p r(1) by simp
    qed
    then have "run_to ids s (snd (sweep_loop env (Suc k) (n + c) (publish_all (sw_publish (env k)) evs w1)))"
      by (rule run_trans) (metis 1(1) p r)
    then show ?thesis using r by (subst sweep_loop.simps) (simp add: p)
  qed
qed

lemma run_retention_loop:
  "set (issued s) \<subseteq> set ids \<Longrightarrow> w = st s \<Longrightarrow> run_to ids s (snd (retention_loop v cutoff k tot w))"
proof (induction v cutoff k tot w arbitrary: s rule: retention_loop.induct)
  case (1 v cutoff k tot w)
  let ?ids = "retention_ids cutoff (tasks w)"
  have idle: "run_to ids s w" unfolding 1(3) by (rule run_refl [OF 1(2)])
  have "run_to ids s (snd (delete_batch ?ids w))"
    unfolding 1(3) using run_step [OF sys_step.retention_step [OF refl, of s cutoff], of ids] 1(2) by simp
  then have first: "run_to ids s (snd (io_call (snd (v k)) (delete_batch ?ids) w))"
    by (rule io_call_preserves [where P = "run_to ids s", OF idle])
  obtain r w1 where p: "io_call (snd (v k)) (delete_batch ?ids) w = (r, w1)" by fastforce
  have rec: "run_to ids s (snd (retention_loop v cutoff (Suc k) (fst tot + a, snd tot + b) w1))"
    if "fst (v k) = Done" "?ids \<noteq> []" "r = Inr (a, b)" "RETENTION_DELETE_BATCH_SIZE \<le> length ?ids" for a b
    using first by (rule run_trans) (use 1(1) p that in fastforce)
  show ?case
    using idle first rec by (subst retention_loop.simps) (auto simp: p Let_def split: sum.split)
qed

section \<open>The system of handlers\<close>

text \<open>
  One step is one request handler or job. The identifier of a new row is one the database has not
  issued before, and a body has passed its schema; everything else about the request and the
  environment is arbitrary.
\<close>

inductive handler_step :: "world \<times> uuid list \<Rightarrow> world \<times> uuid list \<Rightarrow> bool" where
  h_create: "ce_id env \<notin> set ids \<Longrightarrow> create_ok dto \<Longrightarrow>
     handler_step (w, ids) (snd (create_handler env io protocol host dto w), ce_id env # ids)"
| h_cancel: "handler_step (w, ids) (snd (cancel env io i w), ids)"
| h_result: "result_ok dto \<Longrightarrow> handler_step (w, ids) (snd (submitResult_handler uuid_in v env io req dto w), ids)"
| h_progress: "progress_ok p \<Longrightarrow> handler_step (w, ids) (snd (updateProgress_handler uuid_in v env io req p w), ids)"
| h_dispatch: "others ids ids' m \<Longrightarrow>
     handler_step (w, ids) (snd (snd (dispatch_process env io net rnd m i tmo w)), ids')"
| h_sweep: "handler_step (w, ids) (snd (sweep_process env w), ids)"
| h_retention: "handler_step (w, ids) (snd (deleteOldData back v now days w), ids)"

definition handler_init :: "world \<times> uuid list \<Rightarrow> bool" where
  "handler_init c \<longleftrightarrow> c = (empty_world, [])"

definition covers :: "sys \<Rightarrow> world \<times> uuid list \<Rightarrow> bool" where
  "covers s c \<longleftrightarrow> st s = fst c \<and> set (issued s) \<subseteq> set (snd c)"

lemma guard_issued:
  assumes "reach sys_init sys_step s" and "callback_canActivate uuid_in v req (st s) = Inr t"
  shows "task_id t \<in> set (issued s)"
proof -
  have "known_ids s" using run.invar_reach [OF assms(1)] by (simp add: sys_inv_def)
  moreover have "\<exists>i. findById i (st s) = Some t"
    using assms(2) by (auto simp: callback_canActivate_def split: option.splits sum.splits if_splits)
  then have "t \<in> set (tasks (st s))" by (auto simp: findById_def dest: find_row_SomeD)
  ultimately show ?thesis by (auto simp: known_ids_def)
qed

lemma run_handler:
  assumes "handler_step c c'" and "reach sys_init sys_step s" and "covers s c"
  shows "run_to (snd c') s (fst c')"
  using assms(1,3)
proof cases
  case (h_create env ids dto w io protocol host)
  then show ?thesis
    using assms(3) run_create [of env ids s dto io]
    by (auto simp: covers_def create_handler_def intro: run_mono [OF run_refl])
next
  case (h_result dto w ids uuid_in v env io req)
  then show ?thesis
    using assms(3) run_submitResult [of s ids dto env io]
    by (auto simp: covers_def submitResult_handler_def split: sum.split intro: run_refl)
next
  case (h_progress p w ids uuid_in v env io req)
  then show ?thesis
    using assms(3) run_updateProgress [of s ids _ p env io] guard_issued [OF assms(2), of uuid_in v req]
    by (auto simp: covers_def updateProgress_handler_def split: sum.split intro: run_refl)
next
  case (h_cancel w ids env io i)
  then show ?thesis using assms(3) run_cancel [of s ids env io i] by (simp add: covers_def)
next
  case (h_dispatch ids ids' m w env io net rnd i tmo)
  then show ?thesis using run_dispatch [OF assms(2), of ids ids' m env io net rnd i tmo] assms(3) by (simp add: covers_def)
next
  case (h_sweep w ids env)
  then show ?thesis using run_sweep_loop [of s ids w env 0 0] assms(3) by (simp add: covers_def sweep_process_def)
next
  case (h_retention w ids bk v now days)
  then show ?thesis
    using run_retention_loop [of s ids w v "bk now days" 0 "(0, 0)"] assms(3)
    by (simp add: covers_def deleteOldData_def)
qed

interpretation handlers: simulated_system handler_init handler_step sys_init sys_step covers
proof unfold_locales
  show "\<exists>a. sys_init a \<and> covers a c" if "handler_init c" for c
    using that by (auto simp: handler_init_def sys_init_def covers_def)
  show "\<exists>a'. sys_step\<^sup>*\<^sup>* a a' \<and> covers a' c'"
    if "reach sys_init sys_step a" "covers a c" "handler_step c c'" for a c c'
    using run_handler [OF that(3,1,2)] by (auto simp: run_with_def covers_def)
qed

text \<open>
  The request handlers and jobs refine the transition system of single statements: whatever
  sequence of whole requests and jobs is run from the empty stores, with every call failing or
  succeeding as it may and others at work during dispatch calls, the stores go through states that a
  run of the statements of \<open>sys_step\<close> goes through. So what is proved of every interleaving
  (one ending per task, final outcomes, the state diagram) holds of the program's own handlers.
\<close>

theorem handlers_refine_statements:
  assumes "reach handler_init handler_step (w, ids)" and "handler_step\<^sup>*\<^sup>* (w, ids) (w', ids')"
  shows "\<exists>s s'. reach sys_init sys_step s \<and> st s = w \<and> sys_step\<^sup>*\<^sup>* s s' \<and> st s' = w'"
proof -
  from handlers.covered [OF assms(1)] obtain s where s: "reach sys_init sys_step s" "covers s (w, ids)" by blast
  from handlers.path_covered [OF this assms(2)] obtain s' where "sys_step\<^sup>*\<^sup>* s s'" "covers s' (w', ids')" by blast
  with s show ?thesis by (auto simp: covers_def)
qed

theorem handlers_refine_statements_witness:
  "\<exists>s s'. reach sys_init sys_step s \<and> st s = empty_world \<and> sys_step\<^sup>*\<^sup>* s s'
    \<and> st s' = snd (create_handler sample_env all_done ''http'' (Some ''h'') sample_dto empty_world)"
proof -
  have "handler_step\<^sup>*\<^sup>* (empty_world, [])
      (snd (create_handler sample_env all_done ''http'' (Some ''h'') sample_dto empty_world), [ce_id sample_env])"
    by (intro r_into_rtranclp h_create) (simp_all add: create_ok_def sample_dto_def)
  moreover have "reach handler_init handler_step (empty_world, [])"
    by (rule reach_init) (simp add: handler_init_def)
  ultimately show ?thesis by (intro handlers_refine_statements)
qed

end
