(* ===== verification/Notifiers.thy ===== *)
theory Notifiers
  imports DispatchProcessor
begin

text \<open>
  The two best-effort workers, \<^verbatim>\<open>src/modules/executor/workers/cancel.processor.ts\<close> and
  \<^verbatim>\<open>src/modules/delivery/workers/webhook.processor.ts\<close>: each looks the task up and posts a
  notification. They write to no store; the result is the job's outcome and the call made, if any.
\<close>

section \<open>Cancel notification\<close>

definition cancel_call :: "uuid \<Rightarrow> string \<Rightarrow> task \<Rightarrow> http_call" where
  "cancel_call i url t =
     \<lparr> call_url = url,
       call_body = JObj [(''taskId'', JStr i)],
       call_headers = [(''Authorization'', bearer (callbackToken t))],
       call_opts = default_opts\<lparr>attempts := 2, baseDelayMs := 1000\<rparr> \<rparr>"

definition cancel_process ::
  "io \<Rightarrow> (nat \<Rightarrow> exchange) \<Rightarrow> (nat \<Rightarrow> rat) \<Rightarrow> string \<Rightarrow> world \<Rightarrow> (exn + unit) \<times> http_call option" where
  "cancel_process v net rnd i w =
     (case fst (io_call v (find_task (db_uuid i)) w) of
        Inl e \<Rightarrow> (Inl e, None)
      | Inr None \<Rightarrow> (Inr (), None)
      | Inr (Some t) \<Rightarrow>
          (case cancelUrl t of
             None \<Rightarrow> (Inr (), None)
           | Some url \<Rightarrow>
               if url = [] then (Inr (), None)
               else (let c = cancel_call i url t
                     in case outcome (post (call_url c) (call_opts c) net rnd) of
                          Inr _ \<Rightarrow> (Inr (), Some c)
                        | Inl (NonRetryableError _ _) \<Rightarrow> (Inr (), Some c)
                        | Inl _ \<Rightarrow> (Inr (), Some c))))"

section \<open>Webhook delivery\<close>

definition webhook_payload :: "task \<Rightarrow> json" where
  "webhook_payload t =
     JObj ([(''taskId'', JStr (task_id t)), (''status'', JStr (status_name (status t)))] @
           (case result t of None \<Rightarrow> [] | Some JNull \<Rightarrow> [] | Some r \<Rightarrow> [(''result'', r)]) @
           (case error t of None \<Rightarrow> [] | Some e \<Rightarrow> [(''error'', task_error_json e)]))"

definition webhook_call :: "string \<Rightarrow> task \<Rightarrow> http_call" where
  "webhook_call url t =
     \<lparr> call_url = url, call_body = webhook_payload t, call_headers = [],
       call_opts = default_opts\<lparr>attempts := 5, baseDelayMs := 1000, maxDelayMs := 60000\<rparr> \<rparr>"

definition webhook_process ::
  "io \<Rightarrow> (nat \<Rightarrow> exchange) \<Rightarrow> (nat \<Rightarrow> rat) \<Rightarrow> uuid \<Rightarrow> world \<Rightarrow> (exn + unit) \<times> http_call option" where
  "webhook_process v net rnd i w =
     (case fst (io_call v (find_task i) w) of
        Inl e \<Rightarrow> (Inl e, None)
      | Inr None \<Rightarrow> (Inr (), None)
      | Inr (Some t) \<Rightarrow>
          (case webhookUrl t of
             None \<Rightarrow> (Inr (), None)
           | Some url \<Rightarrow>
               if url = [] then (Inr (), None)
               else (let c = webhook_call url t
                     in case outcome (post (call_url c) (call_opts c) net rnd) of
                          Inr _ \<Rightarrow> (Inr (), Some c)
                        | Inl (NonRetryableError _ _) \<Rightarrow> (Inr (), Some c)
                        | Inl (DispatchFailedError _ _ _ _) \<Rightarrow> (Inr (), Some c)
                        | Inl e \<Rightarrow> (Inl e, Some c))))"

section \<open>Neither ever fails once the row is read\<close>

text \<open>Every outcome of the call ends the webhook job normally.\<close>

lemma webhook_outcome:
  "(case outcome (post url opts net rnd) of
      Inr _ \<Rightarrow> (Inr (), Some c) | Inl (NonRetryableError _ _) \<Rightarrow> (Inr (), Some c)
    | Inl (DispatchFailedError _ _ _ _) \<Rightarrow> (Inr (), Some c) | Inl e \<Rightarrow> (Inl e, Some c)) = (Inr (), Some c)"
  for c :: http_call
  by (rule client.send_cases [of url opts net rnd]) simp_all

lemma webhook_process_row:
  "findById i w = Some t \<Longrightarrow> webhookUrl t = Some url \<Longrightarrow> url \<noteq> [] \<Longrightarrow>
   webhook_process Done net rnd i w = (Inr (), Some (webhook_call url t))"
  by (simp add: webhook_process_def find_task_def Let_def webhook_outcome)

text \<open>
  The notification workers are best-effort: once the lookup succeeded, the job never fails,
  whatever the receiver does, so the queue never repeats it; the call is made exactly when the task
  exists and has a URL of that kind. In particular the branch of the webhook worker that rethrows
  an unexpected error of the call is never taken. A failed lookup makes no call and fails the job.
\<close>

theorem notifiers_never_fail:
  "cancel_process Done net rnd s w =
     (Inr (), case findById (db_uuid s) w of
                None \<Rightarrow> None
              | Some t \<Rightarrow> if truthy (cancelUrl t) then Some (cancel_call s (the (cancelUrl t)) t) else None)
   \<and> webhook_process Done net rnd i w =
     (Inr (), case findById i w of
                None \<Rightarrow> None
              | Some t \<Rightarrow> if truthy (webhookUrl t) then Some (webhook_call (the (webhookUrl t)) t) else None)
   \<and> (v \<noteq> Done \<longrightarrow> cancel_process v net rnd s w = (Inl InfraError, None)
                 \<and> webhook_process v net rnd i w = (Inl InfraError, None))"
proof -
  have cancel: "cancel_process Done net rnd s w =
     (Inr (), case findById (db_uuid s) w of
                None \<Rightarrow> None
              | Some t \<Rightarrow> if truthy (cancelUrl t) then Some (cancel_call s (the (cancelUrl t)) t) else None)"
    by (auto simp: cancel_process_def find_task_def Let_def split: option.split sum.split exn.split)
  have "webhook_process Done net rnd i w =
     (Inr (), case findById i w of
                None \<Rightarrow> None
              | Some t \<Rightarrow> if truthy (webhookUrl t) then Some (webhook_call (the (webhookUrl t)) t) else None)"
    by (auto simp: webhook_process_def find_task_def Let_def webhook_outcome split: option.split)
  moreover have "v \<noteq> Done \<Longrightarrow> cancel_process v net rnd s w = (Inl InfraError, None)
      \<and> webhook_process v net rnd i w = (Inl InfraError, None)"
    by (cases v) (simp_all add: cancel_process_def webhook_process_def)
  ultimately show ?thesis using cancel by blast
qed

theorem notifiers_never_fail_witness:
  "webhook_process Fail_After rejecting (\<lambda>_. 0) ''t'' (sample_world [sample_row ''t'' COMPLETED]) = (Inl InfraError, None)
   \<and> fst (cancel_process Done rejecting (\<lambda>_. 0) ''t'' (sample_world [sample_row ''t'' CANCELLED])) = Inr ()"
  using notifiers_never_fail [of rejecting "\<lambda>_. 0" "''t''" "sample_world [sample_row ''t'' COMPLETED]" "''t''" Fail_After]
    notifiers_never_fail [of rejecting "\<lambda>_. 0" "''t''" "sample_world [sample_row ''t'' CANCELLED]" "''t''" Done]
  by simp

end
