(* ===== verification/Workers.thy ===== *)
theory Workers
  imports Handlers Notifiers
begin

text \<open>
  The registration of the BullMQ workers (\<open>onModuleInit\<close> of the five processors of
  \<^verbatim>\<open>src/modules/*/workers\<close>): which queue each one consumes, how many jobs it runs at a time, and
  the repeatable jobs of the two maintenance workers. A job arrives as untyped data that the worker
  casts to its own interface; \<open>run_job\<close> is that cast followed by the body of the worker.
\<close>

section \<open>Registration\<close>

record schedule =
  sch_id :: string
  sch_pattern :: string
  sch_tz :: string
  sch_job :: string
  sch_attempts :: int

record worker =
  wk_queue :: string
  wk_concurrency :: nat
  wk_schedule :: "schedule option"

definition dispatch_worker :: worker where
  "dispatch_worker = \<lparr>wk_queue = ''dispatch'', wk_concurrency = 10, wk_schedule = None\<rparr>"

definition cancel_worker :: worker where
  "cancel_worker = \<lparr>wk_queue = ''cancel'', wk_concurrency = 5, wk_schedule = None\<rparr>"

definition webhook_worker :: worker where
  "webhook_worker = \<lparr>wk_queue = ''webhook'', wk_concurrency = 20, wk_schedule = None\<rparr>"

definition sweeper_worker :: "string \<Rightarrow> worker" where
  "sweeper_worker timeoutSweeperCron =
     \<lparr> wk_queue = ''maintenance-timeout-sweep'', wk_concurrency = 1,
       wk_schedule = Some \<lparr> sch_id = ''timeout-sweep'', sch_pattern = timeoutSweeperCron,
                            sch_tz = ''UTC'', sch_job = ''sweep'', sch_attempts = 1 \<rparr> \<rparr>"

definition retention_worker :: "string \<Rightarrow> worker" where
  "retention_worker dataRetentionCron =
     \<lparr> wk_queue = ''maintenance-data-retention'', wk_concurrency = 1,
       wk_schedule = Some \<lparr> sch_id = ''data-retention'', sch_pattern = dataRetentionCron,
                            sch_tz = ''UTC'', sch_job = ''retain'', sch_attempts = 1 \<rparr> \<rparr>"

section \<open>Running a job\<close>

text \<open>
  \<open>None\<close> stands for a job no worker consumes, or whose data lacks a field that its worker reads.
\<close>

definition run_job ::
  "dispatch_env \<Rightarrow> dispatch_io \<Rightarrow> io \<Rightarrow> (nat \<Rightarrow> exchange) \<Rightarrow> (nat \<Rightarrow> rat) \<Rightarrow> (world \<Rightarrow> world)
     \<Rightarrow> string \<Rightarrow> job_data \<Rightarrow> world \<Rightarrow> ((exn + unit) \<times> http_call option \<times> world) option" where
  "run_job env io v net rnd meanwhile q d w =
     (if q = wk_queue dispatch_worker
      then (case d of
              DispatchJobData i tmo \<Rightarrow>
                Some (dispatch_process env io net rnd meanwhile i tmo w)
            | TaskJobData _ \<Rightarrow> None)
      else if q = wk_queue cancel_worker
      then (case cancel_process v net rnd (job_taskId d) w of (r, c) \<Rightarrow> Some (r, c, meanwhile w))
      else if q = wk_queue webhook_worker
      then (case webhook_process v net rnd (job_taskId d) w of (r, c) \<Rightarrow> Some (r, c, meanwhile w))
      else None)"

lemma run_job_Some:
  "run_job env io v net rnd m (wk_queue dispatch_worker) (DispatchJobData i tmo) w \<noteq> None"
  "run_job env io v net rnd m (wk_queue cancel_worker) (TaskJobData i) w \<noteq> None"
  "run_job env io v net rnd m (wk_queue webhook_worker) (TaskJobData i) w \<noteq> None"
  by (simp_all add: run_job_def dispatch_worker_def cancel_worker_def webhook_worker_def split_beta)

text \<open>The body of the retention worker: it only logs the two counts.\<close>

definition retention_process ::
  "(time \<Rightarrow> int \<Rightarrow> time) \<Rightarrow> (nat \<Rightarrow> io \<times> io) \<Rightarrow> time \<Rightarrow> int \<Rightarrow> world \<Rightarrow> (exn + unit) \<times> world" where
  "retention_process back v now dataRetentionDays w =
     (case deleteOldData back v now dataRetentionDays w of
        (Inl e, w1) \<Rightarrow> (Inl e, w1)
      | (Inr (deletedEventsCount, deletedTasksCount), w1) \<Rightarrow> (Inr (), w1))"

section \<open>Every job reaches a worker that understands it\<close>

definition job_typed :: "string \<Rightarrow> bull_job \<Rightarrow> bool" where
  "job_typed q j \<longleftrightarrow> bj_name j = q \<and>
     ((q = wk_queue dispatch_worker \<and> (\<exists>i tmo. bj_data j = DispatchJobData i tmo) \<and> bj_attempts j = 1)
    \<or> (q \<in> {wk_queue cancel_worker, wk_queue webhook_worker} \<and> (\<exists>i. bj_data j = TaskJobData i) \<and> bj_attempts j = 3))"

definition jobs_typed :: "sys \<Rightarrow> bool" where
  "jobs_typed s \<longleftrightarrow> (\<forall>q. \<forall>j \<in> set (jobs q (st s)). job_typed q j)"

lemma stored_job_simps [simp]:
  "bj_name (stored_job j opts) = job_name j" "bj_data (stored_job j opts) = job_data j"
  "bj_attempts (stored_job j opts) = (case opt_attempts opts of None \<Rightarrow> 3 | Some n \<Rightarrow> n)"
  by (simp_all add: stored_job_def)

lemma enqueued_typed: "enqueued q j opts \<Longrightarrow> job_typed q (stored_job j opts)"
  unfolding enqueued_def
  by (elim disjE exE conjE; hypsubst)
    (simp_all add: job_typed_def dispatch_worker_def cancel_worker_def
      webhook_worker_def DISPATCH_QUEUE_def dispatch_job_def webhook_job_def no_options_def)

lemma jobs_enqueue_job:
  "jobs m (snd (enqueue_job v q j opts w)) =
     (if m = q \<and> v \<noteq> Fail_Before then jobs m w @ [stored_job j opts] else jobs m w)"
  using bull.enq_own [where n = q and v = v and j = j and opts = opts and q = "bull w"]
    bull.enq_other [where m = m and n = q and v = v and j = j and opts = opts and q = "bull w"]
  by (cases "m = q") (auto simp: enqueue_job_def split: prod.split)

lemma bull_dispatch_catch [simp]: "bull (snd (dispatch_catch env io i err w)) = bull w"
proof -
  have upd: "bull (snd (io_call v (updateStatus u i frm to x) w)) = bull w" for v u frm to x
    by (rule io_call_preserves) simp_all
  then show ?thesis
    by (cases err) (simp_all add: dispatch_catch_def Let_def split_beta split: sum.split)
qed

lemma bull_statements [simp]:
  "bull (snd (cancelTask now upd eid dbnow i w)) = bull w"
  "bull (snd (expireTimedOutTasksBatch env n w)) = bull w"
  "bull (snd (delete_batch ids w)) = bull w"
  "bull (snd (claim denv i tmo w)) = bull w"
  "bull (snd (occupy_slot now k ttl w)) = bull w"
  "bull (snd (commit_slot now k i w)) = bull w"
  "bull (snd (release_slot k w)) = bull w"
  "bull (snd (publish_event i ev w)) = bull w"
  "bull (snd (insert_event eid now inp w)) = bull w"
  for w :: world
  by (simp_all add: cancelTask_def expireTimedOutTasksBatch_def delete_batch_def claim_def world_defs Let_def
      split: sum.split list.split prod.split)

lemma bull_step:
  "sys_step s s' \<Longrightarrow> bull (st s') = bull (st s)
     \<or> (\<exists>q j opts v. enqueued q j opts \<and> st s' = snd (enqueue_job v q j opts (st s)))"
proof (induction rule: sys_step.induct)
  case (create_insert env s dto t w)
  then show ?case using repo_frames(2) [of "ce_id env" "ce_dbnow env" "create_values env dto" "st s"] by simp
next
  case (report dto env i s t w)
  then show ?case
    using repo_frames(10) [of "sb_upd env" i "[PROCESSING]" "dto_status dto" "(dto_patch dto)\<lparr>set_completedAt := Some (Some (sb_now env))\<rparr>" "st s"] by simp
next
  case (event_insert inp s eid now ev w)
  then show ?case using bull_statements(9) [of eid now inp "st s"] by simp
next
  case (cancel_step now upd eid dbnow i s r w)
  then show ?case using bull_statements(1) [of now upd eid dbnow "db_uuid i" "st s"] by simp
next
  case (enqueue_step q j opts s v)
  then show ?case by (intro disjI2) auto
qed simp_all

lemma jobs_typed_step: "sys_step s s' \<Longrightarrow> jobs_typed s \<Longrightarrow> jobs_typed s'"
  using bull_step [of s s'] enqueued_typed
  by (auto simp: jobs_typed_def jobs_enqueue_job split: if_splits)

interpretation typed: inductive_invariant sys_init sys_step jobs_typed
proof unfold_locales
  show "jobs_typed s" if "sys_init s" for s
    using that by (simp add: sys_init_def jobs_typed_def empty_world_def empty_queues_def)
  show "jobs_typed s'" if "jobs_typed s" "sys_step s s'" for s s'
    using that(2,1) by (rule jobs_typed_step)
qed

text \<open>
  A stored job is on a queue that a registered worker consumes, and its data has the fields that worker
  reads, in every state of the transition system.
\<close>

lemma stored_job_runs:
  assumes "reach sys_init sys_step s" and "j \<in> set (jobs q (st s))"
  shows "bj_name j = q \<and> q \<in> wk_queue ` {dispatch_worker, cancel_worker, webhook_worker}
    \<and> bj_attempts j = (if q = wk_queue dispatch_worker then 1 else 3)
    \<and> run_job env io v net rnd meanwhile q (bj_data j) w \<noteq> None"
proof -
  have "job_typed q j" using typed.invar_reach [OF assms(1)] assms(2) by (simp add: jobs_typed_def)
  moreover have "wk_queue dispatch_worker \<notin> {wk_queue cancel_worker, wk_queue webhook_worker}"
    by (simp add: dispatch_worker_def cancel_worker_def webhook_worker_def)
  ultimately show ?thesis
    using run_job_Some unfolding job_typed_def by (elim conjE disjE exE) auto
qed

end
