(* ===== verification/Sse.thy ===== *)
theory Sse
  imports Samples
begin

text \<open>
  \<^verbatim>\<open>src/modules/delivery/sse.service.ts\<close>: one server-sent-event connection as a state machine. Its
  variables are those of the closure (\<open>isDone\<close>, \<open>historyLoaded\<close>, \<open>highestHistorySeq\<close>,
  \<open>liveBuffer\<close>), with what the RxJS subscriber keeps (whether it is closed) and the list of
  notifications it has passed to the client. The inputs are the callbacks the environment runs, one
  at a time: Pub/Sub messages, the history query's result, timers, errors and the disconnect.
\<close>

section \<open>Notifications\<close>

record message_event =
  me_id :: string
  me_type :: string
  me_data :: json       \<comment> \<open>the document whose serialisation is sent\<close>

datatype notification =
    Next message_event
  | Ping                \<comment> \<open>\<open>HEARTBEAT_EVENT\<close>\<close>
  | Complete
  | Error string

definition event_type_name :: "task_event_type \<Rightarrow> string" where
  "event_type_name ty =
     (case ty of
        EvProgress \<Rightarrow> ''progress'' | EvCompleted \<Rightarrow> ''completed'' | EvFailed \<Rightarrow> ''failed''
      | EvCancelled \<Rightarrow> ''cancelled'')"

definition toMessageEvent :: "task_event \<Rightarrow> message_event" where
  "toMessageEvent e =
     \<lparr> me_id = show_int (seq e), me_type = event_type_name (eventType e),
       me_data = JObj [(''eventType'', JStr (event_type_name (eventType e))), (''payload'', ev_payload e)] \<rparr>"

section \<open>State\<close>

definition MAX_LIVE_BUFFER_SIZE :: nat where
  "MAX_LIVE_BUFFER_SIZE = 500"

record conn =
  isDone :: bool
  historyLoaded :: bool
  highestHistorySeq :: int
  liveBuffer :: "task_event list"
  closed :: bool
  sent :: "notification list"

definition open_conn :: "int \<Rightarrow> conn" where
  "open_conn afterSeq =
     \<lparr> isDone = False, historyLoaded = False, highestHistorySeq = afterSeq, liveBuffer = [],
       closed = False, sent = [] \<rparr>"

text \<open>
  The subscriber drops everything once it is closed; \<open>complete\<close> and \<open>error\<close> close it and run the
  teardown function, which sets \<open>isDone\<close>.
\<close>

definition subscriber_next :: "notification \<Rightarrow> conn \<Rightarrow> conn" where
  "subscriber_next n s = (if closed s then s else s\<lparr>sent := sent s @ [n]\<rparr>)"

definition teardown :: "conn \<Rightarrow> conn" where
  "teardown s = s\<lparr>isDone := True, closed := True\<rparr>"

definition subscriber_end :: "notification \<Rightarrow> conn \<Rightarrow> conn" where
  "subscriber_end n s = (if closed s then s else teardown (s\<lparr>sent := sent s @ [n]\<rparr>))"

section \<open>Callbacks\<close>

text \<open>The body shared by the live path and the buffer loop: send an event above the highest seen.\<close>

definition emit_above :: "task_event \<Rightarrow> conn \<Rightarrow> conn" where
  "emit_above e s =
     (if seq e > highestHistorySeq s
      then (let s1 = subscriber_next (Next (toMessageEvent e)) (s\<lparr>highestHistorySeq := seq e\<rparr>)
            in if terminal_event_type (eventType e)
               then subscriber_end Complete (s1\<lparr>isDone := True\<rparr>) else s1)
      else s)"

definition on_message :: "task_event \<Rightarrow> conn \<Rightarrow> conn" where
  "on_message e s =
     (if isDone s then s
      else if \<not> historyLoaded s
      then (if length (liveBuffer s) \<ge> MAX_LIVE_BUFFER_SIZE
            then subscriber_end (Error ''SSE buffer overflow'') (s\<lparr>isDone := True\<rparr>)
            else s\<lparr>liveBuffer := liveBuffer s @ [e]\<rparr>)
      else emit_above e s)"

text \<open>The loop over the history rows; the flag says whether it returned early.\<close>

fun replay_history :: "task_event list \<Rightarrow> conn \<Rightarrow> conn \<times> bool" where
  "replay_history [] s = (s, False)"
| "replay_history (e # es) s =
     (let s1 = subscriber_next (Next (toMessageEvent e))
                 (s\<lparr>highestHistorySeq := max (highestHistorySeq s) (seq e)\<rparr>)
      in if terminal_event_type (eventType e)
         then (subscriber_end Complete (s1\<lparr>isDone := True\<rparr>), True)
         else replay_history es s1)"

text \<open>The loop over the buffer: it returns after a terminal event.\<close>

fun flush_buffer :: "task_event list \<Rightarrow> conn \<Rightarrow> conn" where
  "flush_buffer [] s = s\<lparr>liveBuffer := []\<rparr>"
| "flush_buffer (e # es) s =
     (let s1 = emit_above e s
      in if seq e > highestHistorySeq s \<and> terminal_event_type (eventType e)
         then s1\<lparr>liveBuffer := []\<rparr>
         else flush_buffer es s1)"

definition on_history :: "exn + task_event list \<Rightarrow> conn \<Rightarrow> conn" where
  "on_history res s =
     (case res of
        Inr events \<Rightarrow>
          if isDone s then s
          else (case replay_history events s of
                  (s1, True) \<Rightarrow> s1
                | (s1, False) \<Rightarrow> flush_buffer (liveBuffer s1) (s1\<lparr>historyLoaded := True\<rparr>))
      | Inl _ \<Rightarrow> if isDone s then s else subscriber_end (Error ''history query failed'') s)"

datatype sse_input =
    Message task_event    \<comment> \<open>a parsed Pub/Sub message\<close>
  | Malformed             \<comment> \<open>a message that is not JSON: logged\<close>
  | Heartbeat
  | RedisFailure          \<comment> \<open>subscribe error or client error\<close>
  | Disconnect            \<comment> \<open>the client goes away\<close>

definition sse_step :: "sse_input \<Rightarrow> conn \<Rightarrow> conn" where
  "sse_step x s =
     (case x of
        Message e \<Rightarrow> on_message e s
      | Malformed \<Rightarrow> s
      | Heartbeat \<Rightarrow> if isDone s then s else subscriber_next Ping s
      | RedisFailure \<Rightarrow> subscriber_end (Error ''redis'') s
      | Disconnect \<Rightarrow> teardown s)"

definition sse_run :: "sse_input list \<Rightarrow> conn \<Rightarrow> conn" where
  "sse_run xs s = fold sse_step xs s"

text \<open>A connection: callbacks before the history query answers, its result, callbacks after it.\<close>

definition sse_session :: "int \<Rightarrow> sse_input list \<Rightarrow> exn + task_event list \<Rightarrow> sse_input list \<Rightarrow> conn" where
  "sse_session afterSeq pre res post = sse_run post (on_history res (sse_run pre (open_conn afterSeq)))"

text \<open>\<open>stream\<close>: no such task is an error, otherwise a connection is opened.\<close>

definition sse_stream :: "io \<Rightarrow> string \<Rightarrow> int \<Rightarrow> world \<Rightarrow> exn + conn" where
  "sse_stream v i afterSeq w =
     (case fst (io_call v (find_task (db_uuid i)) w) of
        Inl e \<Rightarrow> Inl e
      | Inr None \<Rightarrow> Inl (NotFoundException (''Task '' @ i @ '' not found''))
      | Inr (Some _) \<Rightarrow> Inr (open_conn afterSeq))"

section \<open>What a client should see\<close>

text \<open>The events up to and including the first terminal one, then the end of the stream.\<close>

fun until_terminal :: "task_event list \<Rightarrow> task_event list" where
  "until_terminal [] = []"
| "until_terminal (e # es) = (if terminal_event_type (eventType e) then [e] else e # until_terminal es)"

definition ends :: "task_event list \<Rightarrow> bool" where
  "ends es \<longleftrightarrow> list_ex (\<lambda>e. terminal_event_type (eventType e)) es"

definition stream_spec :: "task_event list \<Rightarrow> notification list" where
  "stream_spec es = map (Next \<circ> toMessageEvent) (until_terminal es) @ (if ends es then [Complete] else [])"

lemma ends_simps [simp]:
  "ends [] = False" "ends (e # es) \<longleftrightarrow> terminal_event_type (eventType e) \<or> ends es"
  "ends (es @ fs) \<longleftrightarrow> ends es \<or> ends fs"
  by (simp_all add: ends_def)

lemma stream_spec_simps [simp]:
  "stream_spec [] = []"
  "stream_spec (e # es) =
     Next (toMessageEvent e) # (if terminal_event_type (eventType e) then [Complete] else stream_spec es)"
  by (simp_all add: stream_spec_def)

lemma stream_spec_append:
  "stream_spec (es @ fs) = (if ends es then stream_spec es else stream_spec es @ stream_spec fs)"
  by (induction es) auto

text \<open>Of a list of live events, those above everything before them.\<close>

fun records :: "int \<Rightarrow> task_event list \<Rightarrow> task_event list" where
  "records h [] = []"
| "records h (e # es) = (if seq e > h then e # records (seq e) es else records h es)"

lemma records_append: "records h (es @ fs) = records h es @ records (fold (\<lambda>e. max (seq e)) es h) fs"
  by (induction es arbitrary: h) (auto simp: max_def)

lemma records_ascending_above: "sorted_wrt (<) (h # map seq (records h es))"
  by (induction es arbitrary: h) (fastforce simp: less_trans)+

lemma records_of_ascending:
  "sorted_wrt (<) (map seq es) \<Longrightarrow> records h es = filter (\<lambda>e. h < seq e) es"
proof (induction es arbitrary: h)
  case Nil
  then show ?case by simp
next
  case (Cons e es)
  have "filter (\<lambda>x. seq e < seq x) es = filter (\<lambda>x. h < seq x) es" if "h < seq e"
    using Cons.prems that by (intro filter_cong) auto
  with Cons show ?case by auto
qed

text \<open>Heartbeats aside.\<close>

definition visible :: "conn \<Rightarrow> notification list" where
  "visible s = filter (\<lambda>n. n \<noteq> Ping) (sent s)"

section \<open>The machine against the specification\<close>

text \<open>Inputs that are neither failures nor the disconnect, and the events among them.\<close>

definition quiet :: "sse_input \<Rightarrow> bool" where
  "quiet x \<longleftrightarrow> x \<notin> {RedisFailure, Disconnect}"

definition messages :: "sse_input list \<Rightarrow> task_event list" where
  "messages xs = List.map_filter (\<lambda>x. case x of Message e \<Rightarrow> Some e | _ \<Rightarrow> None) xs"

lemma messages_simps [simp]:
  "messages [] = []" "messages (Message e # xs) = e # messages xs"
  "messages (Malformed # xs) = messages xs" "messages (Heartbeat # xs) = messages xs"
  "messages (RedisFailure # xs) = messages xs" "messages (Disconnect # xs) = messages xs"
  "messages (xs @ ys) = messages xs @ messages ys"
  by (simp_all add: messages_def List.map_filter_def)

lemma sse_run_simps [simp]:
  "sse_run [] s = s" "sse_run (x # xs) s = sse_run xs (sse_step x s)"
  by (simp_all add: sse_run_def)

definition live :: "conn \<Rightarrow> bool" where
  "live s \<longleftrightarrow> \<not> isDone s \<and> \<not> closed s"

definition finished :: "conn \<Rightarrow> bool" where
  "finished s \<longleftrightarrow> isDone s \<and> closed s"

text \<open>A finished connection never sends again.\<close>

lemma finished_step: "finished s \<Longrightarrow> sse_step x s = s"
  by (cases x) (auto simp: finished_def sse_step_def on_message_def subscriber_end_def teardown_def)

lemma finished_run: "finished s \<Longrightarrow> sse_run xs s = s"
  by (induction xs arbitrary: s) (auto simp: finished_step)

text \<open>One event on a loaded connection.\<close>

lemma emit_above_live:
  assumes "live s"
  shows "visible (emit_above e s) = visible s @ stream_spec (records (highestHistorySeq s) [e])"
    and "(if ends (records (highestHistorySeq s) [e]) then finished (emit_above e s) else live (emit_above e s))"
    and "highestHistorySeq (emit_above e s) = max (seq e) (highestHistorySeq s)"
    and "historyLoaded (emit_above e s) = historyLoaded s"
    and "liveBuffer (emit_above e s) = liveBuffer s"
  using assms
  by (auto simp: emit_above_def live_def finished_def visible_def subscriber_next_def subscriber_end_def
      teardown_def Let_def)

text \<open>Any number of callbacks on a loaded connection.\<close>

lemma run_loaded:
  assumes "live s" and "historyLoaded s" and "list_all quiet xs"
  shows "visible (sse_run xs s) = visible s @ stream_spec (records (highestHistorySeq s) (messages xs))
    \<and> (if ends (records (highestHistorySeq s) (messages xs)) then finished (sse_run xs s) else live (sse_run xs s))"
  using assms
proof (induction xs arbitrary: s)
  case Nil
  then show ?case by simp
next
  case (Cons x xs)
  show ?case
  proof (cases x)
    case (Message e)
    let ?s = "emit_above e s"
    note em = emit_above_live [OF Cons.prems(1), of e]
    have step: "sse_step x s = ?s"
      using Cons.prems by (simp add: Message sse_step_def on_message_def live_def)
    show ?thesis
    proof (cases "ends (records (highestHistorySeq s) [e])")
      case True
      then have "finished ?s" "highestHistorySeq s < seq e" "terminal_event_type (eventType e)"
        using em(2) by (auto split: if_splits)
      then show ?thesis using em(1) by (simp add: Message step [unfolded Message] finished_run)
    next
      case False
      then have "live ?s" using em(2) by simp
      with Cons.IH [of ?s] Cons.prems em False show ?thesis
        by (auto simp: Message step [unfolded Message] max_def split: if_splits)
    qed
  next
    case Heartbeat
    have "live (subscriber_next Ping s)" "visible (subscriber_next Ping s) = visible s"
      "historyLoaded (subscriber_next Ping s)" "highestHistorySeq (subscriber_next Ping s) = highestHistorySeq s"
      using Cons.prems by (auto simp: subscriber_next_def live_def visible_def)
    moreover have "sse_step Heartbeat s = subscriber_next Ping s"
      using Cons.prems by (simp add: sse_step_def live_def)
    ultimately show ?thesis
      using Cons.IH [of "subscriber_next Ping s"] Cons.prems by (simp add: Heartbeat)
  qed (use Cons in \<open>auto simp: sse_step_def quiet_def\<close>)
qed

text \<open>While the history is loading, callbacks only fill the buffer.\<close>

lemma run_loading:
  assumes "live s" and "\<not> historyLoaded s" and "list_all quiet xs"
    and "length (liveBuffer s) + length (messages xs) \<le> MAX_LIVE_BUFFER_SIZE"
  shows "live (sse_run xs s) \<and> \<not> historyLoaded (sse_run xs s) \<and> visible (sse_run xs s) = visible s
    \<and> highestHistorySeq (sse_run xs s) = highestHistorySeq s
    \<and> liveBuffer (sse_run xs s) = liveBuffer s @ messages xs"
  using assms
proof (induction xs arbitrary: s)
  case Nil
  then show ?case by simp
next
  case (Cons x xs)
  show ?case
  proof (cases x)
    case (Message e)
    then have "sse_step x s = s\<lparr>liveBuffer := liveBuffer s @ [e]\<rparr>"
      using Cons.prems by (simp add: sse_step_def on_message_def live_def)
    with Cons.IH [of "s\<lparr>liveBuffer := liveBuffer s @ [e]\<rparr>"] Cons.prems Message show ?thesis
      by (simp add: live_def visible_def)
  next
    case Heartbeat
    with Cons.IH [of "s\<lparr>sent := sent s @ [Ping]\<rparr>"] Cons.prems show ?thesis
      by (simp add: sse_step_def subscriber_next_def live_def visible_def)
  qed (use Cons in \<open>auto simp: sse_step_def quiet_def\<close>)
qed

lemma replay_history_live:
  assumes "live s" and "replay_history es s = (s', b)"
  shows "visible s' = visible s @ stream_spec es \<and> b = ends es
    \<and> (if b then finished s' else live s')
    \<and> (\<not> b \<longrightarrow> highestHistorySeq s' = fold (\<lambda>e. max (seq e)) es (highestHistorySeq s))
    \<and> historyLoaded s' = historyLoaded s \<and> liveBuffer s' = liveBuffer s"
  using assms
proof (induction es arbitrary: s)
  case Nil
  then show ?case by simp
next
  case (Cons e es)
  let ?s = "s\<lparr>highestHistorySeq := max (highestHistorySeq s) (seq e), sent := sent s @ [Next (toMessageEvent e)]\<rparr>"
  have s: "subscriber_next (Next (toMessageEvent e))
      (s\<lparr>highestHistorySeq := max (highestHistorySeq s) (seq e)\<rparr>) = ?s"
    using Cons.prems(1) by (simp add: subscriber_next_def live_def)
  show ?case
  proof (cases "terminal_event_type (eventType e)")
    case True
    with Cons.prems show ?thesis
      by (auto simp: s Let_def subscriber_end_def teardown_def live_def finished_def visible_def)
  next
    case False
    have "live ?s" "visible ?s = visible s @ [Next (toMessageEvent e)]"
      using Cons.prems(1) by (simp_all add: live_def visible_def)
    moreover have "replay_history es ?s = (s', b)" using Cons.prems(2) False by (simp add: s Let_def)
    ultimately show ?thesis using Cons.IH [of ?s] False by (simp add: max.commute)
  qed
qed

lemma flush_buffer_live:
  assumes "live s"
  shows "visible (flush_buffer es s) = visible s @ stream_spec (records (highestHistorySeq s) es)
    \<and> (if ends (records (highestHistorySeq s) es) then finished (flush_buffer es s)
       else live (flush_buffer es s) \<and>
            highestHistorySeq (flush_buffer es s) = fold (\<lambda>e. max (seq e)) es (highestHistorySeq s))
    \<and> historyLoaded (flush_buffer es s) = historyLoaded s"
  using assms
proof (induction es arbitrary: s)
  case Nil
  then show ?case by (simp add: live_def visible_def)
next
  case (Cons e es)
  note em = emit_above_live [OF Cons.prems, of e]
  show ?case
  proof (cases "seq e > highestHistorySeq s \<and> terminal_event_type (eventType e)")
    case True
    then show ?thesis using em by (simp add: finished_def visible_def)
  next
    case False
    then have "live (emit_above e s)" using em(2) by (auto split: if_splits)
    with Cons.IH [of "emit_above e s"] em False show ?thesis
      by (auto simp: max_def Let_def split: if_splits)
  qed
qed

lemma session_visible:
  assumes "list_all quiet pre" and "list_all quiet post" and "length (messages pre) \<le> MAX_LIVE_BUFFER_SIZE"
  shows "visible (sse_session a pre (Inr hist) post) =
           stream_spec (hist @ records (fold (\<lambda>e. max (seq e)) hist a) (messages pre @ messages post))
    \<and> (if ends (hist @ records (fold (\<lambda>e. max (seq e)) hist a) (messages pre @ messages post))
       then finished (sse_session a pre (Inr hist) post) else live (sse_session a pre (Inr hist) post))"
proof -
  let ?s0 = "sse_run pre (open_conn a)" and ?h = "fold (\<lambda>e. max (seq e)) hist a"
  have "live (open_conn a)" "visible (open_conn a) = []"
    by (simp_all add: live_def open_conn_def visible_def)
  then have s0: "live ?s0" "\<not> historyLoaded ?s0" "visible ?s0 = []" "highestHistorySeq ?s0 = a"
    "liveBuffer ?s0 = messages pre"
    using run_loading [of "open_conn a" pre] assms(1,3) by (simp_all add: open_conn_def)
  obtain s1 b where rp: "replay_history hist ?s0 = (s1, b)" by fastforce
  note s1 = replay_history_live [OF s0(1) rp]
  show ?thesis
  proof (cases b)
    case True
    then have "on_history (Inr hist) ?s0 = s1" using s0(1) by (simp add: on_history_def rp live_def)
    with True s1 s0(3) show ?thesis
      by (simp add: sse_session_def finished_run stream_spec_append)
  next
    case False
    let ?s2 = "flush_buffer (messages pre) (s1\<lparr>historyLoaded := True\<rparr>)"
    have on: "on_history (Inr hist) ?s0 = ?s2"
      using s0 s1 False by (simp add: on_history_def rp live_def)
    have "live (s1\<lparr>historyLoaded := True\<rparr>)" "visible (s1\<lparr>historyLoaded := True\<rparr>) = stream_spec hist"
      "highestHistorySeq (s1\<lparr>historyLoaded := True\<rparr>) = ?h" "\<not> ends hist"
      using s1 s0 False by (simp_all add: live_def visible_def)
    note s2 = flush_buffer_live [OF this(1), of "messages pre"] this
    show ?thesis
    proof (cases "ends (records ?h (messages pre))")
      case True
      with s2 show ?thesis
        by (simp add: sse_session_def on finished_run stream_spec_append records_append)
    next
      case False
      with s2 run_loaded [of ?s2 post] assms(2) show ?thesis
        by (simp add: sse_session_def on stream_spec_append records_append)
    qed
  qed
qed

section \<open>Every connection, failures included\<close>

text \<open>The events behind what was sent, and the notifications that end a stream.\<close>

fun is_next :: "notification \<Rightarrow> bool" where
  "is_next (Next _) = True"
| "is_next _ = False"

fun is_end :: "notification \<Rightarrow> bool" where
  "is_end Complete = True"
| "is_end (Error _) = True"
| "is_end _ = False"

definition sent_events :: "int \<Rightarrow> conn \<Rightarrow> task_event list \<Rightarrow> bool" where
  "sent_events a s es \<longleftrightarrow>
     filter is_next (sent s) = map (Next \<circ> toMessageEvent) es \<and> sorted_wrt (<) (a # map seq es)"

definition ends_last :: "conn \<Rightarrow> bool" where
  "ends_last s \<longleftrightarrow>
     list_all (Not \<circ> is_end) (butlast (sent s)) \<and> (\<not> closed s \<longrightarrow> list_all (Not \<circ> is_end) (sent s))"

definition conn_inv :: "int \<Rightarrow> conn \<Rightarrow> bool" where
  "conn_inv a s \<longleftrightarrow>
     (closed s \<longrightarrow> isDone s) \<and> ends_last s \<and>
     (\<exists>es. sent_events a s es \<and> (\<forall>e \<in> set es. seq e \<le> highestHistorySeq s))"

lemma list_all_butlast: "list_all P xs \<Longrightarrow> list_all P (butlast xs)"
  by (auto simp: list_all_iff dest: in_set_butlastD)

lemma ends_last_next [simp]:
  "ends_last s \<Longrightarrow> \<not> is_end n \<Longrightarrow> ends_last (subscriber_next n s)"
  "ends_last s \<Longrightarrow> ends_last (subscriber_end n s)"
  "ends_last s \<Longrightarrow> ends_last (teardown s)"
  by (auto simp: ends_last_def subscriber_next_def subscriber_end_def teardown_def butlast_append
      intro: list_all_butlast)

lemma conn_inv_end: "conn_inv a s \<Longrightarrow> \<not> is_next n \<Longrightarrow> conn_inv a (subscriber_end n s)"
  by (cases n) (auto simp: conn_inv_def subscriber_end_def sent_events_def teardown_def ends_last_def
      butlast_append intro: list_all_butlast)

lemma conn_inv_ping: "conn_inv a s \<Longrightarrow> conn_inv a (subscriber_next Ping s)"
  by (auto simp: conn_inv_def subscriber_next_def sent_events_def ends_last_def butlast_append
      intro: list_all_butlast)

lemma conn_inv_done: "conn_inv a s \<Longrightarrow> conn_inv a (s\<lparr>isDone := True\<rparr>)"
  by (auto simp: conn_inv_def sent_events_def ends_last_def)

lemma conn_inv_frame [simp]:
  "conn_inv a (s\<lparr>liveBuffer := b\<rparr>) = conn_inv a s"
  "conn_inv a (s\<lparr>historyLoaded := h\<rparr>) = conn_inv a s"
  by (simp_all add: conn_inv_def sent_events_def ends_last_def)

text \<open>Sending an event above everything sent so far.\<close>

lemma conn_inv_event:
  assumes "conn_inv a s" and "a < seq e" and "highestHistorySeq s < seq e"
  shows "conn_inv a (subscriber_next (Next (toMessageEvent e)) (s\<lparr>highestHistorySeq := seq e\<rparr>))"
proof -
  obtain es where es: "sent_events a s es" "\<forall>e \<in> set es. seq e \<le> highestHistorySeq s"
    using assms(1) by (auto simp: conn_inv_def)
  have le: "seq x \<le> seq e" "seq x < seq e" if "x \<in> set es" for x
    using es(2) assms(3) that by fastforce+
  show ?thesis
  proof (cases "closed s")
    case True
    with assms(1) es(1) le(1) show ?thesis
      by (auto simp: conn_inv_def subscriber_next_def sent_events_def ends_last_def)
  next
    case False
    let ?s = "s\<lparr>highestHistorySeq := seq e, sent := sent s @ [Next (toMessageEvent e)]\<rparr>"
    have "sent_events a ?s (es @ [e])"
      using es(1) le(2) assms(2) by (auto simp: sent_events_def sorted_wrt_append)
    moreover have "ends_last ?s"
      using assms(1) False by (auto simp: conn_inv_def ends_last_def butlast_append)
    ultimately show ?thesis
      using False le(1) assms(1)
      by (auto simp: conn_inv_def subscriber_next_def intro!: exI [of _ "es @ [e]"])
  qed
qed

lemma conn_inv_emit: "conn_inv a s \<Longrightarrow> a \<le> highestHistorySeq s \<Longrightarrow> conn_inv a (emit_above e s)"
  using conn_inv_event [of a s e] conn_inv_done conn_inv_end [of a _ Complete]
  by (auto simp: emit_above_def Let_def)

lemma emit_above_highest: "a \<le> highestHistorySeq s \<Longrightarrow> a \<le> highestHistorySeq (emit_above e s)"
  by (auto simp: emit_above_def Let_def subscriber_next_def subscriber_end_def teardown_def)

lemma conn_inv_step:
  assumes "conn_inv a s" and "a \<le> highestHistorySeq s"
  shows "conn_inv a (sse_step x s) \<and> a \<le> highestHistorySeq (sse_step x s)"
proof (cases x)
  case (Message e)
  then show ?thesis
    using assms conn_inv_emit emit_above_highest conn_inv_end [OF conn_inv_done [OF assms(1)]]
    by (auto simp: sse_step_def on_message_def subscriber_end_def teardown_def)
next
  case Disconnect
  then show ?thesis
    using assms by (auto simp: sse_step_def teardown_def conn_inv_def sent_events_def ends_last_def)
qed (use assms conn_inv_ping conn_inv_end in
    \<open>auto simp: sse_step_def subscriber_next_def subscriber_end_def teardown_def\<close>)

lemma conn_inv_run:
  "conn_inv a s \<Longrightarrow> a \<le> highestHistorySeq s \<Longrightarrow>
   conn_inv a (sse_run xs s) \<and> a \<le> highestHistorySeq (sse_run xs s)"
  by (induction xs arbitrary: s) (auto dest: conn_inv_step)

lemma conn_inv_replay:
  assumes "conn_inv a s" and "sorted_wrt (<) (highestHistorySeq s # map seq es)"
    and "a \<le> highestHistorySeq s"
  shows "conn_inv a (fst (replay_history es s)) \<and> a \<le> highestHistorySeq (fst (replay_history es s))"
  using assms
proof (induction es arbitrary: s)
  case Nil
  then show ?case by simp
next
  case (Cons e es)
  let ?s = "subscriber_next (Next (toMessageEvent e)) (s\<lparr>highestHistorySeq := seq e\<rparr>)"
  have m: "max (highestHistorySeq s) (seq e) = seq e" using Cons.prems(2) by simp
  have inv: "conn_inv a ?s" using Cons.prems by (intro conn_inv_event) auto
  have h: "highestHistorySeq ?s = seq e" by (simp add: subscriber_next_def)
  show ?case
  proof (cases "terminal_event_type (eventType e)")
    case True
    then show ?thesis
      using conn_inv_end [OF conn_inv_done [OF inv], of Complete] h Cons.prems
      by (auto simp: m Let_def subscriber_end_def teardown_def)
  next
    case False
    with Cons.IH [OF inv] h Cons.prems show ?thesis by (simp add: m Let_def)
  qed
qed

lemma conn_inv_flush:
  "conn_inv a s \<Longrightarrow> a \<le> highestHistorySeq s \<Longrightarrow>
   conn_inv a (flush_buffer es s) \<and> a \<le> highestHistorySeq (flush_buffer es s)"
  by (induction es arbitrary: s) (auto simp: Let_def conn_inv_emit emit_above_highest)

text \<open>Before the history arrives, no event has been sent.\<close>

lemma highest_loading:
  "\<not> historyLoaded s \<Longrightarrow> highestHistorySeq (sse_run xs s) = highestHistorySeq s \<and> \<not> historyLoaded (sse_run xs s)"
proof (induction xs arbitrary: s)
  case (Cons x xs)
  have "highestHistorySeq (sse_step x s) = highestHistorySeq s \<and> \<not> historyLoaded (sse_step x s)"
    using Cons.prems by (cases x)
      (auto simp: sse_step_def on_message_def subscriber_next_def subscriber_end_def teardown_def)
  with Cons.IH [of "sse_step x s"] show ?case by simp
qed simp

section \<open>Properties of the stream\<close>

text \<open>
  C24: On every connection, whatever the order of callbacks and whichever failures, overflows and
  disconnects happen: the events sent have strictly ascending sequence numbers above the
  Last-Event-ID, so no event is sent twice or out of order; and nothing follows the notification
  that ends the stream.
\<close>

theorem sse_ascending:
  assumes "case res of Inl _ \<Rightarrow> True | Inr hist \<Rightarrow> sorted_wrt (<) (a # map seq hist)"
  shows "\<exists>es. filter is_next (sent (sse_session a pre res post)) = map (Next \<circ> toMessageEvent) es
    \<and> sorted_wrt (<) (a # map seq es)
    \<and> list_all (Not \<circ> is_end) (butlast (sent (sse_session a pre res post)))"
proof -
  have "conn_inv a (open_conn a)" "highestHistorySeq (open_conn a) = a" "\<not> historyLoaded (open_conn a)"
    by (auto simp: conn_inv_def open_conn_def sent_events_def ends_last_def)
  then have s0: "conn_inv a (sse_run pre (open_conn a))" "highestHistorySeq (sse_run pre (open_conn a)) = a"
    using conn_inv_run [of a "open_conn a" pre] highest_loading [of "open_conn a" pre] by auto
  have "conn_inv a (on_history res (sse_run pre (open_conn a)))
      \<and> a \<le> highestHistorySeq (on_history res (sse_run pre (open_conn a)))"
  proof (cases res)
    case (Inl e)
    then show ?thesis
      using s0 conn_inv_end [OF s0(1)] by (auto simp: on_history_def subscriber_end_def teardown_def)
  next
    case (Inr hist)
    with conn_inv_replay [OF s0(1), of hist] s0(2) assms show ?thesis
      using s0 conn_inv_flush by (auto simp: on_history_def split: prod.split bool.split)
  qed
  then have "conn_inv a (sse_session a pre res post)"
    using conn_inv_run by (simp add: sse_session_def)
  then show ?thesis by (auto simp: conn_inv_def sent_events_def ends_last_def)
qed

theorem sse_ascending_witness:
  "\<exists>es. filter is_next (sent (sse_session 0 [Heartbeat, Message (sample_event ''t'' 2 EvCompleted)]
      (Inr [sample_event ''t'' 1 EvProgress]) [RedisFailure, Disconnect])) = map (Next \<circ> toMessageEvent) es"
  using sse_ascending [where a = 0 and res = "Inr [sample_event ''t'' 1 EvProgress]"
      and pre = "[Heartbeat, Message (sample_event ''t'' 2 EvCompleted)]" and post = "[RedisFailure, Disconnect]"]
  by auto

end
