(* ===== verification/SseDelivery.thy ===== *)
theory SseDelivery
  imports Sse
begin

text \<open>
  What a client of \<^verbatim>\<open>src/modules/delivery/sse.service.ts\<close> receives of the stored log. A connection
  is placed on the time line of the task's log: the history query sees the first \<open>q\<close> events, the
  Redis subscription delivers every event from position \<open>p\<close> on. Both positions are the environment's:
  the code starts the subscription, does not wait for it, and starts the query.

  \<open>connection_trace\<close> is an assumption on that environment, not code: on the channel every event
  from position \<open>p\<close> on arrives, once, and in the order of the log. Redis does not promise the arrival and the
  publishers do not ensure the order; what remains without the assumption is \<open>sse_ascending\<close>,
  \<open>stream_isolation\<close> and, for two events published in the opposite order, \<open>sse_reordered_publication\<close>.
\<close>

definition connection_trace ::
  "task_event list \<Rightarrow> uuid \<Rightarrow> task_event list \<Rightarrow> nat \<Rightarrow> nat \<Rightarrow> sse_input list \<Rightarrow> sse_input list \<Rightarrow> bool" where
  "connection_trace evs i snap p q pre post \<longleftrightarrow>
     events_wf evs \<and> task_log snap i = take q (task_log evs i)
     \<and> messages pre @ messages post = drop p (task_log evs i)
     \<and> list_all quiet pre \<and> list_all quiet post \<and> length (messages pre) \<le> MAX_LIVE_BUFFER_SIZE"

text \<open>A log of two events, and the connections on it to apply the properties to.\<close>

definition sample_evs :: "task_event list" where
  "sample_evs = [sample_event ''t'' 1 EvProgress, sample_event ''t'' 2 EvCompleted]"

lemma sample_evs_log:
  "task_log sample_evs ''t'' = sample_evs" "task_log (take 1 sample_evs) ''t'' = take 1 sample_evs"
  by (simp_all add: sample_evs_def sample_log)

lemma sample_trace:
  "connection_trace sample_evs ''t'' (take 1 sample_evs) 1 1 [] [Message (sample_event ''t'' 2 EvCompleted)]"
  "connection_trace sample_evs ''t'' (take 1 sample_evs) 2 1 [] [Heartbeat]"
  "connection_trace (take 1 sample_evs) ''t'' (take 1 sample_evs) 1 1 [] []"
  "connection_trace sample_evs ''t'' sample_evs 2 2 [Heartbeat] []"
  by (simp_all add: connection_trace_def sample_evs_log quiet_def)
    (simp_all add: sample_evs_def sample_events_wf sample_log)

lemma fold_max_seq:
  "(\<forall>e \<in> set es. seq e \<le> fold (\<lambda>e. max (seq e)) es a) \<and> a \<le> fold (\<lambda>e. max (seq e)) es a
   \<and> (fold (\<lambda>e. max (seq e)) es a = a \<or> (\<exists>e \<in> set es. fold (\<lambda>e. max (seq e)) es a = seq e))"
proof (induction es arbitrary: a)
  case Nil
  then show ?case by simp
next
  case (Cons e es)
  from Cons.IH [of "max (seq e) a"] show ?case by (auto simp: max_def split: if_splits)
qed

text \<open>Above the history's highest number lie exactly the later events above the starting number.\<close>

lemma filter_above_history:
  assumes "sorted_wrt (<) (map seq L)"
  shows "filter (\<lambda>e. fold (\<lambda>e. max (seq e)) (filter (\<lambda>e. a < seq e) (take q L)) a < seq e) (drop p L) =
         filter (\<lambda>e. a < seq e) (drop (max p q) L)"
proof -
  let ?h = "fold (\<lambda>e. max (seq e)) (filter (\<lambda>e. a < seq e) (take q L)) a"
  note h = fold_max_seq [of "filter (\<lambda>e. a < seq e) (take q L)" a]
  have low: "\<not> ?h < seq e" if "e \<in> set (take q L)" for e
    using h that by (cases "a < seq e") auto
  have split: "sorted_wrt (<) (map seq (take q L @ drop q L))" using assms by simp
  have high: "?h < seq e \<longleftrightarrow> a < seq e" if "e \<in> set (drop (max p q) L)" for e
  proof -
    have "e \<in> set (drop q L)"
      using that set_drop_subset_set_drop [of q "max p q" L] by auto
    then have "seq x < seq e" if "x \<in> set (take q L)" for x
      using split that unfolding map_append sorted_wrt_append by auto
    then show ?thesis using h by fastforce
  qed
  have parts: "drop p L = drop p (take q L) @ drop (max p q) L"
  proof (cases "p \<le> q")
    case True
    have "drop p (take q L @ drop q L) = drop p (take q L) @ drop (p - length (take q L)) (drop q L)"
      by (rule drop_append)
    moreover have "drop (p - length (take q L)) (drop q L) = drop q L"
      using True by (cases "q \<le> length L") simp_all
    ultimately show ?thesis using True by (simp add: max_absorb2)
  qed simp
  have "filter (\<lambda>e. ?h < seq e) (drop p (take q L)) = []"
    using low by (auto simp: filter_empty_conv dest: in_set_dropD)
  then show ?thesis unfolding parts using high by (simp cong: filter_cong)
qed

lemma trace_visible:
  assumes "connection_trace evs i snap p q pre post"
  shows "visible (sse_session a pre (Inr (findEventsSince i a snap)) post) =
      stream_spec (filter (\<lambda>e. a < seq e) (take q (task_log evs i) @ drop (max p q) (task_log evs i)))
    \<and> (if ends (filter (\<lambda>e. a < seq e) (take q (task_log evs i) @ drop (max p q) (task_log evs i)))
       then finished (sse_session a pre (Inr (findEventsSince i a snap)) post)
       else live (sse_session a pre (Inr (findEventsSince i a snap)) post))"
proof -
  let ?L = "task_log evs i"
  have tr: "task_log snap i = take q ?L" "messages pre @ messages post = drop p ?L"
    "list_all quiet pre" "list_all quiet post" "length (messages pre) \<le> MAX_LIVE_BUFFER_SIZE"
    and asc: "sorted_wrt (<) (map seq ?L)"
    using assms evlog.log_ascending [of evs i] by (simp_all add: connection_trace_def)
  have "sorted_wrt (<) (map seq (drop p ?L))"
    using asc by (simp add: drop_map sorted_wrt_drop flip: drop_map)
  then have "findEventsSince i a snap @
      records (fold (\<lambda>e. max (seq e)) (findEventsSince i a snap) a) (messages pre @ messages post) =
      filter (\<lambda>e. a < seq e) (take q ?L @ drop (max p q) ?L)"
    using filter_above_history [OF asc, of a q p]
    by (simp add: tr(1,2) findEventsSince_log records_of_ascending)
  from session_visible [OF tr(3-5), of a "findEventsSince i a snap", unfolded this]
  show ?thesis .
qed

lemma trace_no_loss:
  assumes "connection_trace evs i snap p q pre post" and "p \<le> q"
  shows "visible (sse_session a pre (Inr (findEventsSince i a snap)) post) =
      stream_spec (findEventsSince i a evs)
    \<and> (if ends (findEventsSince i a evs)
       then finished (sse_session a pre (Inr (findEventsSince i a snap)) post)
       else live (sse_session a pre (Inr (findEventsSince i a snap)) post))"
proof -
  have eq: "filter (\<lambda>e. a < seq e) (take q (task_log evs i) @ drop (max p q) (task_log evs i)) =
      findEventsSince i a evs"
    using assms(2) by (simp add: max_absorb2 findEventsSince_log del: filter_append)
  show ?thesis using trace_visible [OF assms(1), of a] unfolding eq by blast
qed

text \<open>What a reader who stopped at the end of a shorter log has still to see.\<close>

lemma since_last_seen:
  assumes "events_wf evs1" and "events_wf evs2" and "task_log evs1 i = take n (task_log evs2 i)"
  shows "findEventsSince i a evs2 = findEventsSince i a evs1 @
           findEventsSince i (last (a # map seq (findEventsSince i a evs1))) evs2"
proof -
  let ?L = "task_log evs2 i" and ?S = "findEventsSince i a evs1"
  let ?m = "last (a # map seq ?S)"
  have asc: "sorted_wrt (<) (map seq (take n ?L @ drop n ?L))"
    using evlog.log_ascending [OF assms(2), of i] by simp
  have S: "?S = filter (\<lambda>e. a < seq e) (take n ?L)" by (simp add: findEventsSince_log assms(3))
  have "sorted (map seq ?S)" using evlog.since_ascending [OF assms(1)] by (simp add: strict_sorted_iff)
  then have up: "seq e \<le> ?m" if "e \<in> set ?S" for e
    using that by (cases ?S rule: rev_cases) (auto simp: sorted_append)
  have m: "?m = a \<or> (\<exists>e \<in> set (take n ?L). a < seq e \<and> ?m = seq e)"
  proof (cases "?S = []")
    case False
    then have "?m = seq (last ?S)" "last ?S \<in> set ?S" by (simp_all add: last_map)
    then show ?thesis unfolding S by auto
  qed simp
  then have later: "?m < seq e \<longleftrightarrow> a < seq e" if "e \<in> set (drop n ?L)" for e
    using asc that unfolding map_append sorted_wrt_append by fastforce
  have "\<not> ?m < seq e" if "e \<in> set (take n ?L)" for e
    using up [of e] m that by (cases "a < seq e") (auto simp: S)
  then have "filter (\<lambda>e. ?m < seq e) (take n ?L) = []" by (auto simp: filter_empty_conv)
  then have "findEventsSince i ?m evs2 = filter (\<lambda>e. a < seq e) (drop n ?L)"
    using later unfolding findEventsSince_log
    by (subst append_take_drop_id [of n ?L, symmetric], subst filter_append) (simp cong: filter_cong)
  moreover have "findEventsSince i a evs2 = ?S @ filter (\<lambda>e. a < seq e) (drop n ?L)"
    by (simp add: findEventsSince_log assms(3) flip: filter_append)
  ultimately show ?thesis by simp
qed

text \<open>
  C13: No event is lost, on two conditions. The channel delivers every event stored from the moment of the
  subscription on, once each and in the order of the log; and the subscription is in force before the
  snapshot of the history query (the code awaits neither). Then the client sees exactly the stored
  events after its Last-Event-ID, in order and once each, up to and including the first terminal one,
  and then the end of the stream, however the live messages fall before or after the history's arrival
  (at most 500 before it).
\<close>

theorem sse_no_loss:
  assumes "connection_trace evs i snap p q pre post" and "p \<le> q"
  shows "visible (sse_session a pre (Inr (findEventsSince i a snap)) post) =
    stream_spec (findEventsSince i a evs)"
  using trace_no_loss [OF assms] by blast

theorem sse_no_loss_witness:
  "visible (sse_session 0 [] (Inr (findEventsSince ''t'' 0 (take 1 sample_evs))) [Message (sample_event ''t'' 2 EvCompleted)]) =
     stream_spec (findEventsSince ''t'' 0 sample_evs)"
  by (rule sse_no_loss [OF sample_trace(1)]) simp

text \<open>
  C39: The code does not wait for the subscription before it queries the history. If the snapshot is
  taken first, the events stored between the snapshot and the moment the subscription takes effect
  are never sent; when the terminal event is among them, the stream never ends.
\<close>

theorem sse_subscription_gap:
  assumes "connection_trace evs i snap p q pre post" and "q \<le> k" and "k < p"
    and "task_log evs i = take k (task_log evs i) @ [e]" and "terminal_event_type (eventType e)"
    and "\<not> ends (take k (task_log evs i))"
  shows "visible (sse_session a pre (Inr (findEventsSince i a snap)) post) =
      map (Next \<circ> toMessageEvent) (filter (\<lambda>e. a < seq e) (take q (task_log evs i)))
    \<and> \<not> closed (sse_session a pre (Inr (findEventsSince i a snap)) post)"
proof -
  let ?L = "task_log evs i"
  have "length ?L \<le> Suc k" by (subst assms(4)) simp
  then have none: "drop (max p q) ?L = []" using assms(3) by simp
  have "set (take q ?L) \<subseteq> set (take k ?L)" using assms(2) by (rule set_take_subset_set_take)
  then have "\<not> ends (filter (\<lambda>e. a < seq e) (take q ?L))"
    using assms(6) by (auto simp: ends_def list_ex_iff)
  moreover have "until_terminal es = es" if "\<not> ends es" for es
    using that by (induction es) auto
  ultimately show ?thesis
    using trace_visible [OF assms(1), of a] by (simp add: none stream_spec_def live_def)
qed

theorem sse_subscription_gap_witness:
  "\<not> closed (sse_session 0 [] (Inr (findEventsSince ''t'' 0 (take 1 sample_evs))) [Heartbeat])"
  using sse_subscription_gap [OF sample_trace(2), of 1 "sample_event ''t'' 2 EvCompleted" 0]
  unfolding sample_evs_log by (simp add: sample_evs_def)

text \<open>
  C25: Resuming, on the conditions of the lossless stream for both connections: each one's subscription is in
  force before the snapshot of its history query, and each one's channel delivers every event stored
  from then on, once and in the order of the log. A client that was cut off before the end and
  reconnects with the number of the last event it has seen then misses nothing and sees nothing twice:
  the two connections together show what one uninterrupted connection would have shown.
\<close>

theorem sse_resume:
  assumes "connection_trace evs1 i snap1 p1 q1 pre1 post1" and "p1 \<le> q1"
    and "connection_trace evs2 i snap2 p2 q2 pre2 post2" and "p2 \<le> q2"
    and "task_log evs1 i = take n (task_log evs2 i)" and "\<not> ends (findEventsSince i a evs1)"
    and "m = last (a # map seq (findEventsSince i a evs1))"
  shows "visible (sse_session a pre1 (Inr (findEventsSince i a snap1)) post1) @
      visible (sse_session m pre2 (Inr (findEventsSince i m snap2)) post2) =
    stream_spec (findEventsSince i a evs2)"
proof -
  have "events_wf evs1" "events_wf evs2" using assms(1,3) by (simp_all add: connection_trace_def)
  then have "findEventsSince i a evs2 = findEventsSince i a evs1 @ findEventsSince i m evs2"
    using since_last_seen assms(5,7) by blast
  then show ?thesis
    using trace_no_loss [OF assms(1,2), of a] trace_no_loss [OF assms(3,4), of m] assms(6)
    by (simp add: stream_spec_append)
qed

theorem sse_resume_witness:
  "visible (sse_session 0 [] (Inr (findEventsSince ''t'' 0 (take 1 sample_evs))) []) @
     visible (sse_session 1 [] (Inr (findEventsSince ''t'' 1 (take 1 sample_evs))) [Message (sample_event ''t'' 2 EvCompleted)]) =
   stream_spec (findEventsSince ''t'' 0 sample_evs)"
  using sse_resume [OF sample_trace(3) _ sample_trace(1), of 1 0 1]
  unfolding sample_evs_log findEventsSince_log by (simp add: sample_evs_def)

text \<open>
  C40: A connection opened with a Last-Event-ID at or beyond the last event of the task, while no further
  event of the task is stored, is sent no event and is never closed by the server, however long it
  lasts. So it is with the automatic reconnection of a client that has already received the terminal
  event, after which a task normally gets no other.
\<close>

theorem sse_reconnect_after_end:
  assumes "connection_trace evs i snap p q pre post" and "\<forall>e \<in> set (task_log evs i). seq e \<le> a"
  shows "visible (sse_session a pre (Inr (findEventsSince i a snap)) post) = []
    \<and> \<not> closed (sse_session a pre (Inr (findEventsSince i a snap)) post)"
proof -
  have "filter (\<lambda>e. a < seq e) (take q (task_log evs i) @ drop (max p q) (task_log evs i)) = []"
    using assms(2) by (auto simp: filter_empty_conv not_less dest!: in_set_takeD in_set_dropD)
  then show ?thesis using trace_visible [OF assms(1), of a] by (simp add: live_def)
qed

theorem sse_reconnect_after_end_witness:
  "\<not> closed (sse_session 2 [Heartbeat] (Inr (findEventsSince ''t'' 2 sample_evs)) [])"
  using sse_reconnect_after_end [OF sample_trace(4), of 2]
  unfolding sample_evs_log by (simp add: sample_evs_def)

text \<open>
  Events are stored before they are published, outside the storing transaction, so two reports
  can be published in the opposite order of their numbers. A live connection then sends the later
  event and drops the earlier one for good.
\<close>

theorem sse_reordered_publication:
  assumes "events_wf evs" and "task_log evs i = L @ [e1, e2]" and "\<not> ends L"
    and "\<not> terminal_event_type (eventType e2)" and "messages pre @ messages post = [e2, e1]"
    and "list_all quiet pre" and "list_all quiet post" and "a < seq e1"
    and "task_log snap i = L"
  shows "visible (sse_session a pre (Inr (findEventsSince i a snap)) post) =
    map (Next \<circ> toMessageEvent) (filter (\<lambda>e. a < seq e) L @ [e2])"
proof -
  have asc: "sorted_wrt (<) (map seq (L @ [e1, e2]))"
    using evlog.log_ascending [OF assms(1), of i] assms(2) by simp
  let ?H = "filter (\<lambda>e. a < seq e) L"
  have H: "findEventsSince i a snap = ?H" by (simp add: findEventsSince_log assms(9))
  have lt: "fold (\<lambda>e. max (seq e)) ?H a < seq e1" "seq e1 < seq e2"
    using fold_max_seq [of ?H a] asc assms(8) by (auto simp: sorted_wrt_append)
  then have rec: "records (fold (\<lambda>e. max (seq e)) ?H a) [e2, e1] = [e2]" by simp
  have "length (messages pre @ messages post) = 2" by (simp only: assms(5)) simp
  then have "length (messages pre) \<le> MAX_LIVE_BUFFER_SIZE" by (simp add: MAX_LIVE_BUFFER_SIZE_def)
  moreover have "\<not> ends (?H @ [e2])" using assms(3,4) by (auto simp: ends_def list_ex_iff)
  moreover have "until_terminal es = es" if "\<not> ends es" for es
    using that by (induction es) auto
  ultimately show ?thesis
    using session_visible [OF assms(6,7), of a ?H] rec by (simp add: H assms(5) stream_spec_def)
qed

theorem sse_reordered_publication_witness:
  "visible (sse_session 0 [] (Inr (findEventsSince ''t'' 0 []))
      [Message (sample_event ''t'' 2 EvProgress), Message (sample_event ''t'' 1 EvProgress)]) =
   [Next (toMessageEvent (sample_event ''t'' 2 EvProgress))]"
  using sse_reordered_publication [of "[sample_event ''t'' 1 EvProgress, sample_event ''t'' 2 EvProgress]" "''t''" "[]"
      "sample_event ''t'' 1 EvProgress" "sample_event ''t'' 2 EvProgress" "[]"
      "[Message (sample_event ''t'' 2 EvProgress), Message (sample_event ''t'' 1 EvProgress)]" 0 "[]"]
  by (simp add: sample_events_wf sample_log quiet_def) (simp add: task_log_def)

text \<open>
  More than 500 live messages before the history arrives end the connection with an error and
  nothing else: no event is sent before or after it, whatever the query returns, so the client loses
  nothing by reconnecting with the same Last-Event-ID.
\<close>

lemma sse_overflow:
  assumes "list_all quiet pre" and "MAX_LIVE_BUFFER_SIZE < length (messages pre)"
  shows "visible (sse_session a pre res post) = [Error ''SSE buffer overflow'']"
proof -
  have "visible (sse_run xs s) = visible s @ [Error ''SSE buffer overflow''] \<and> finished (sse_run xs s)"
    if "live s" "\<not> historyLoaded s" "list_all quiet xs" "length (liveBuffer s) \<le> MAX_LIVE_BUFFER_SIZE"
      "MAX_LIVE_BUFFER_SIZE < length (liveBuffer s) + length (messages xs)" for xs s
    using that
  proof (induction xs arbitrary: s)
    case (Cons x xs)
    show ?case
    proof (cases x)
      case (Message e)
      show ?thesis
      proof (cases "length (liveBuffer s) \<ge> MAX_LIVE_BUFFER_SIZE")
        case True
        let ?s = "s\<lparr>isDone := True, closed := True, sent := sent s @ [Error ''SSE buffer overflow'']\<rparr>"
        have "sse_step x s = ?s"
          using Cons.prems True
          by (simp add: Message sse_step_def on_message_def live_def subscriber_end_def teardown_def)
        moreover have "finished ?s" by (simp add: finished_def)
        ultimately show ?thesis by (simp add: finished_run visible_def)
      next
        case False
        then have "sse_step x s = s\<lparr>liveBuffer := liveBuffer s @ [e]\<rparr>"
          using Cons.prems by (simp add: Message sse_step_def on_message_def live_def)
        with Cons.IH [of "s\<lparr>liveBuffer := liveBuffer s @ [e]\<rparr>"] Cons.prems Message False show ?thesis
          by (simp add: live_def visible_def)
      qed
    next
      case Heartbeat
      with Cons.IH [of "s\<lparr>sent := sent s @ [Ping]\<rparr>"] Cons.prems show ?thesis
        by (simp add: sse_step_def subscriber_next_def live_def visible_def)
    qed (use Cons in \<open>auto simp: sse_step_def quiet_def\<close>)
  qed simp
  from this [of "open_conn a" pre] assms
  have "visible (sse_run pre (open_conn a)) = [Error ''SSE buffer overflow'']"
    "finished (sse_run pre (open_conn a))"
    by (simp_all add: live_def open_conn_def visible_def)
  then show ?thesis
    by (simp add: sse_session_def on_history_def finished_def finished_run split: sum.split)
qed

end
