(* ===== verification/Routes.thy ===== *)
theory Routes
  imports TasksService Auth Sse
begin

text \<open>
  The routes of the public API, \<^verbatim>\<open>src/modules/tasks/tasks.controller.ts\<close> and
  \<^verbatim>\<open>src/modules/delivery/stream.controller.ts\<close>: the API key guard, then the UUID pipe on the path
  parameter, then the handler, with the reading of \<open>Last-Event-ID\<close>. \<open>is_uuid\<close> is the test of
  NestJS's \<open>ParseUUIDPipe\<close>.
\<close>

section \<open>Reading Last-Event-ID\<close>

definition parseLastEventId :: "string option \<Rightarrow> int" where
  "parseLastEventId raw =
     (case raw of
        None \<Rightarrow> 0
      | Some s \<Rightarrow>
          if s = [] then 0
          else case js_Number s of
                 Finite parsed \<Rightarrow> if parsed \<ge> 0 then \<lfloor>parsed\<rfloor> else 0
               | _ \<Rightarrow> 0)"

section \<open>Routes\<close>

definition ParseUUIDPipe :: "(string \<Rightarrow> bool) \<Rightarrow> string \<Rightarrow> exn + uuid" where
  "ParseUUIDPipe is_uuid s =
     (if is_uuid s then Inr s else Inl (BadRequestException ''Validation failed (uuid is expected)''))"

definition api_route ::
  "string option \<Rightarrow> http_request \<Rightarrow> (world \<Rightarrow> (exn + 'a) \<times> world) \<Rightarrow> world \<Rightarrow> (exn + 'a) \<times> world" where
  "api_route key req handler w =
     (case apiKey_canActivate key req of
        Inl e \<Rightarrow> (Inl e, w)
      | Inr _ \<Rightarrow> handler w)"

definition id_route ::
  "string option \<Rightarrow> (string \<Rightarrow> bool) \<Rightarrow> http_request \<Rightarrow> (uuid \<Rightarrow> world \<Rightarrow> (exn + 'a) \<times> world)
     \<Rightarrow> world \<Rightarrow> (exn + 'a) \<times> world" where
  "id_route key is_uuid req handler =
     api_route key req (\<lambda>w.
       case ParseUUIDPipe is_uuid (case param_id req of None \<Rightarrow> [] | Some s \<Rightarrow> s) of
         Inl e \<Rightarrow> (Inl e, w)
       | Inr i \<Rightarrow> handler i w)"

definition create_route ::
  "string option \<Rightarrow> http_request \<Rightarrow> create_env \<Rightarrow> create_io \<Rightarrow> string \<Rightarrow> string option \<Rightarrow> create_task_dto
     \<Rightarrow> world \<Rightarrow> (exn + task_created) \<times> world" where
  "create_route key req env io protocol host dto =
     api_route key req (create_handler env io protocol host dto)"

definition getStatus_route ::
  "string option \<Rightarrow> (string \<Rightarrow> bool) \<Rightarrow> http_request \<Rightarrow> io \<Rightarrow> world
     \<Rightarrow> (exn + (string \<times> json) list) \<times> world" where
  "getStatus_route key is_uuid req v = id_route key is_uuid req (\<lambda>i w. (getStatus_handler v i w, w))"

definition cancel_route ::
  "string option \<Rightarrow> (string \<Rightarrow> bool) \<Rightarrow> http_request \<Rightarrow> cancel_env \<Rightarrow> cancel_io \<Rightarrow> world
     \<Rightarrow> (exn + unit) \<times> world" where
  "cancel_route key is_uuid req env io = id_route key is_uuid req (cancel env io)"

definition stream_route ::
  "string option \<Rightarrow> (string \<Rightarrow> bool) \<Rightarrow> http_request \<Rightarrow> string option \<Rightarrow> io \<Rightarrow> world
     \<Rightarrow> (exn + conn) \<times> world" where
  "stream_route key is_uuid req lastEventId v =
     id_route key is_uuid req (\<lambda>i w. (sse_stream v i (parseLastEventId lastEventId) w, w))"

lemmas route_defs [handler_defs] =
  create_route_def getStatus_route_def cancel_route_def stream_route_def

section \<open>Refusals\<close>

lemma apiKey_refused:
  assumes "key \<notin> {None, Some []}" and "providedKey req \<noteq> key"
  obtains m where "apiKey_canActivate key req = Inl (UnauthorizedException m)"
  using api_key_guard_iff [of key req] assms by auto

text \<open>
  The public API is closed without the key. With a key configured, a request that does not
  present it is refused with 401 on every route before anything happens: nothing is created,
  cancelled, read or streamed and no store changes; and with the key, a malformed identifier is
  refused with 400 on every route that names a task, again with no effect.
\<close>

theorem routes_refuse:
  "(key \<notin> {None, Some []} \<and> providedKey req \<noteq> key \<longrightarrow>
     (\<exists>m. create_route key req cenv cio protocol host dto w = (Inl (UnauthorizedException m), w)
        \<and> getStatus_route key is_uuid req v w = (Inl (UnauthorizedException m), w)
        \<and> cancel_route key is_uuid req nenv nio w = (Inl (UnauthorizedException m), w)
        \<and> stream_route key is_uuid req lastEventId v w = (Inl (UnauthorizedException m), w)))
   \<and> (providedKey req = key \<and> param_id req = Some i \<and> \<not> is_uuid i \<longrightarrow>
     (\<exists>m. getStatus_route key is_uuid req v w = (Inl (BadRequestException m), w)
        \<and> cancel_route key is_uuid req nenv nio w = (Inl (BadRequestException m), w)
        \<and> stream_route key is_uuid req lastEventId v w = (Inl (BadRequestException m), w)))"
proof (intro conjI impI)
  assume "key \<notin> {None, Some []} \<and> providedKey req \<noteq> key"
  then obtain m where m: "apiKey_canActivate key req = Inl (UnauthorizedException m)"
    using apiKey_refused [of key req] by blast
  show "\<exists>m. create_route key req cenv cio protocol host dto w = (Inl (UnauthorizedException m), w)
        \<and> getStatus_route key is_uuid req v w = (Inl (UnauthorizedException m), w)
        \<and> cancel_route key is_uuid req nenv nio w = (Inl (UnauthorizedException m), w)
        \<and> stream_route key is_uuid req lastEventId v w = (Inl (UnauthorizedException m), w)"
    by (intro exI [of _ m]) (simp add: route_defs id_route_def api_route_def m)
next
  assume "providedKey req = key \<and> param_id req = Some i \<and> \<not> is_uuid i"
  moreover from this have "apiKey_canActivate key req = Inr True" using api_key_guard_iff [of key req] by simp
  ultimately show "\<exists>m. getStatus_route key is_uuid req v w = (Inl (BadRequestException m), w)
        \<and> cancel_route key is_uuid req nenv nio w = (Inl (BadRequestException m), w)
        \<and> stream_route key is_uuid req lastEventId v w = (Inl (BadRequestException m), w)"
    by (simp add: route_defs id_route_def api_route_def ParseUUIDPipe_def)
qed

theorem routes_refuse_witness:
  "\<exists>m. cancel_route (Some ''k'') (\<lambda>_. True)
        \<lparr>hdr_xApiKey = Some ''wrong'', hdr_authorization = None, param_id = Some ''t''\<rparr>
        \<lparr>cn_now = 0, cn_upd = 0, cn_dbnow = 0, cn_eid = ''e''\<rparr> cancel_ok (sample_world [sample_row ''t'' PENDING]) =
      (Inl (UnauthorizedException m), sample_world [sample_row ''t'' PENDING])"
  using routes_refuse [of "Some ''k''"
      "\<lparr>hdr_xApiKey = Some ''wrong'', hdr_authorization = None, param_id = Some ''t''\<rparr>" sample_env all_done
      "''http''" None sample_dto "sample_world [sample_row ''t'' PENDING]" "\<lambda>_. True" Done
      "\<lparr>cn_now = 0, cn_upd = 0, cn_dbnow = 0, cn_eid = ''e''\<rparr>" cancel_ok None "''t''"]
  by (auto simp: providedKey_def)

section \<open>Resuming a stream\<close>

lemma parseLastEventId_nonneg: "0 \<le> parseLastEventId raw"
  by (auto simp: parseLastEventId_def split: option.split js_number.split)

lemma parse_show_int:
  assumes "0 \<le> n" and "n < 2 ^ 53"
  shows "parseLastEventId (Some (show_int n)) = n"
proof -
  obtain k where k: "n = int k" using assms(1) nonneg_int_cases by blast
  then have "js_Number (show_nat k) = Finite (of_nat k)" using assms(2) by (intro js_Number_show_nat) simp
  then show ?thesis using show_nat_digits [of k] by (simp add: parseLastEventId_def show_int_def k)
qed

text \<open>
  The identifier a client receives with an event is read back as that event's number: after
  formatting it as the event's \<open>id\<close> and parsing it from \<open>Last-Event-ID\<close>, a reconnection of an
  existing task starts right after the event, and no other, for every number below \<open>2 ^ 53\<close>. A header
  that is missing or no number starts from the beginning; none is ever read as a negative number.
\<close>

theorem last_event_id_roundtrip:
  assumes "0 \<le> seq e" and "seq e < 2 ^ 53"
    and "providedKey req = key" and "param_id req = Some i" and "is_uuid i" and "findById (db_uuid i) w = Some t"
  shows "stream_route key is_uuid req (Some (me_id (toMessageEvent e))) Done w = (Inr (open_conn (seq e)), w)
    \<and> stream_route key is_uuid req (if absent then None else Some raw) Done w =
        (Inr (open_conn (if absent \<or> js_Number raw = NaN then 0 else parseLastEventId (Some raw))), w)
    \<and> 0 \<le> parseLastEventId (Some raw)"
proof -
  have "apiKey_canActivate key req = Inr True" using assms(3) api_key_guard_iff [of key req] by simp
  then have "stream_route key is_uuid req h Done w = (Inr (open_conn (parseLastEventId h)), w)" for h
    using assms(4-6) by (simp add: route_defs id_route_def api_route_def ParseUUIDPipe_def sse_stream_def find_task_def)
  moreover have "parseLastEventId (Some (me_id (toMessageEvent e))) = seq e"
    using parse_show_int [OF assms(1,2)] by (simp add: toMessageEvent_def)
  moreover have "parseLastEventId None = 0" "js_Number raw = NaN \<Longrightarrow> parseLastEventId (Some raw) = 0"
    by (simp_all add: parseLastEventId_def)
  ultimately show ?thesis using parseLastEventId_nonneg [of "Some raw"] by simp
qed

theorem last_event_id_roundtrip_witness:
  "fst (stream_route None (\<lambda>_. True) \<lparr>hdr_xApiKey = None, hdr_authorization = None, param_id = Some ''t''\<rparr>
      (Some (me_id (toMessageEvent (sample_event ''t'' 7 EvProgress)))) Done (sample_world [sample_row ''t'' PROCESSING]))
   = Inr (open_conn 7)"
  using last_event_id_roundtrip [of "sample_event ''t'' 7 EvProgress"
      "\<lparr>hdr_xApiKey = None, hdr_authorization = None, param_id = Some ''t''\<rparr>" None "''t''" "\<lambda>_. True"
      "sample_world [sample_row ''t'' PROCESSING]" "sample_row ''t'' PROCESSING" True "[]"]
  by (simp add: providedKey_def sample_event_def db_uuid_def lower_ascii_def)

text \<open>
  Texts that are no event identifier can still be numbers: a hexadecimal literal or an exponent
  skips events instead of replaying all.
\<close>

lemma parse_odd_ids: "parseLastEventId (Some ''0x10'') = 16" "parseLastEventId (Some ''1e2'') = 100"
proof -
  have "parse_radix ''0x10'' = Some 16" "js_trim ''0x10'' = ''0x10''"
    by (simp_all add: parse_radix_def radix_of_def lower_ascii_def radix_digit_def is_digit_def js_trim_def js_space_def)
  then show "parseLastEventId (Some ''0x10'') = 16"
    using to_double_nat [of 16] by (simp add: parseLastEventId_def js_Number_def)
  have "parse_radix ''1e2'' = None" "js_trim ''1e2'' = ''1e2''" "parse_sign ''1e2'' = (1, ''1e2'')"
    "parse_decimal ''1e2'' = Some 100"
    by (simp_all add: parse_radix_def radix_of_def lower_ascii_def is_digit_def js_trim_def js_space_def parse_sign_def
        parse_decimal_def decimal_value_def parse_exponent_def digits_value_def digit_value_def scale_def)
  then show "parseLastEventId (Some ''1e2'') = 100"
    using to_double_nat [of 100] by (simp add: parseLastEventId_def js_Number_def)
qed

end
