(* ===== verification/ExceptionFilter.thy ===== *)
theory ExceptionFilter
  imports JsText
begin

text \<open>
  \<^verbatim>\<open>src/common/exceptions/zod-exception.filter.ts\<close>: what a client is told about an exception. The
  filter sees a NestJS exception, a validation error with its issues (nested ones for unions), or
  anything else.
\<close>

section \<open>Validation issues\<close>

datatype path_segment = Key string | Index int

definition segment_text :: "path_segment \<Rightarrow> string" where
  "segment_text p = (case p of Key k \<Rightarrow> k | Index n \<Rightarrow> show_int n)"

text \<open>An issue as Zod reports it: code, path, message, and the issues of each branch of a union.\<close>

datatype raw_issue = RawIssue string "path_segment list" string "raw_issue list list option"

datatype validation_issue =
  ValidationIssue (field: string) (message: string) (issue_code: string)
    (unionErrors: "validation_issue list list option")

text \<open>The key under which the filter remembers an issue while it goes through the branches.\<close>

definition issue_key :: "validation_issue \<Rightarrow> string" where
  "issue_key i = field i @ ''|'' @ issue_code i @ ''|'' @ message i"

text \<open>\<open>branch.filter(..)\<close> with the set \<open>seen\<close>, and the pass over the branches that shares it.\<close>

fun dedup_branch :: "string set \<Rightarrow> validation_issue list \<Rightarrow> validation_issue list \<times> string set" where
  "dedup_branch seen [] = ([], seen)"
| "dedup_branch seen (i # is) =
     (if issue_key i \<in> seen then dedup_branch seen is
      else case dedup_branch (insert (issue_key i) seen) is of (r, seen') \<Rightarrow> (i # r, seen'))"

fun dedup_branches :: "string set \<Rightarrow> validation_issue list list \<Rightarrow> validation_issue list list" where
  "dedup_branches seen [] = []"
| "dedup_branches seen (b # bs) =
     (case dedup_branch seen b of (r, seen') \<Rightarrow> r # dedup_branches seen' bs)"

definition union_branches :: "validation_issue list list \<Rightarrow> validation_issue list list" where
  "union_branches branches = filter (\<lambda>b. length b > 0) (dedup_branches {} branches)"

fun formatIssue :: "raw_issue \<Rightarrow> validation_issue" where
  "formatIssue (RawIssue code path msg errors) =
     ValidationIssue (if length path > 0 then join_with ''.'' (map segment_text path) else ''(root)'') msg code
       (if code = ''invalid_union''
        then map_option (\<lambda>bs. union_branches (map (map formatIssue) bs)) errors
        else None)"

section \<open>Exceptions\<close>

text \<open>
  The response of a NestJS exception is a text, or an object whose \<open>message\<close> is a text, a list of
  texts or absent.
\<close>

datatype response_message = MsgText string | MsgList "string list"

datatype http_response =
    ResponseText string
  | ResponseObject "response_message option"

datatype thrown =
    ThrownHttp nat http_response string   \<comment> \<open>status, \<open>getResponse()\<close>, \<open>message\<close>\<close>
  | ThrownZod "raw_issue list"
  | ThrownOther

text \<open>A NestJS exception built with a text has that text as its message.\<close>

definition thrown_of :: "exn \<Rightarrow> thrown" where
  "thrown_of e =
     (case e of
        HttpException st m \<Rightarrow> ThrownHttp st (ResponseObject (Some (MsgText m))) m
      | _ \<Rightarrow> ThrownOther)"

definition message_text :: "response_message \<Rightarrow> string" where
  "message_text m = (case m of MsgText s \<Rightarrow> s | MsgList ss \<Rightarrow> join_with '','' ss)"

record resolved =
  res_status :: nat
  res_message :: string
  res_issues :: "validation_issue list option"

definition resolveException :: "thrown \<Rightarrow> resolved" where
  "resolveException x =
     (case x of
        ThrownHttp st res m \<Rightarrow>
          \<lparr> res_status = st,
            res_message = (case res of
                             ResponseObject (Some rm) \<Rightarrow> message_text rm
                           | ResponseObject None \<Rightarrow> m
                           | ResponseText _ \<Rightarrow> m),
            res_issues = None \<rparr>
      | ThrownZod issues \<Rightarrow>
          \<lparr>res_status = 400, res_message = ''Validation failed'', res_issues = Some (map formatIssue issues)\<rparr>
      | ThrownOther \<Rightarrow>
          \<lparr>res_status = 500, res_message = ''Internal server error'', res_issues = None\<rparr>)"

definition statusToText :: "nat \<Rightarrow> string" where
  "statusToText st =
     (case map_of [(400, ''Bad Request''), (401, ''Unauthorized''), (403, ''Forbidden''), (404, ''Not Found''),
                   (409, ''Conflict''), (422, ''Unprocessable Entity''), (429, ''Too Many Requests''),
                   (500, ''Internal Server Error''), (502, ''Bad Gateway''), (503, ''Service Unavailable'')] st of
        Some s \<Rightarrow> s
      | None \<Rightarrow> ''HTTP '' @ show_nat st)"

record error_body =
  statusCode :: nat
  error_text :: string
  error_message :: string
  error_path :: string
  timestamp :: time
  issues :: "validation_issue list option"

datatype log_level = LogError | LogWarn | LogInfo | LogDebug | LogTrace

text \<open>\<open>catch\<close>: the level of the log line, the status of the response and its body.\<close>

definition filter_catch :: "time \<Rightarrow> string \<Rightarrow> thrown \<Rightarrow> log_level \<times> nat \<times> error_body" where
  "filter_catch now url x =
     (let r = resolveException x
      in (if res_status r \<ge> 500 then LogError else LogWarn, res_status r,
          \<lparr> statusCode = res_status r, error_text = statusToText (res_status r), error_message = res_message r,
            error_path = url, timestamp = now, issues = res_issues r \<rparr>))"

section \<open>Deduplication\<close>

text \<open>The first occurrence of each element.\<close>

fun firsts :: "'a set \<Rightarrow> 'a list \<Rightarrow> 'a list" where
  "firsts seen [] = []"
| "firsts seen (x # xs) = (if x \<in> seen then firsts seen xs else x # firsts (insert x seen) xs)"

lemma firsts_append: "firsts seen (xs @ ys) = firsts seen xs @ firsts (seen \<union> set xs) ys"
  by (induction xs arbitrary: seen) (auto simp: insert_absorb)

lemma firsts_set: "set (firsts seen xs) = set xs - seen"
  by (induction xs arbitrary: seen) auto

lemma firsts_distinct: "distinct (firsts seen xs)"
  by (induction xs arbitrary: seen) (auto simp: firsts_set)

lemma dedup_branch_eq:
  "map issue_key (fst (dedup_branch seen is)) = firsts seen (map issue_key is)
   \<and> snd (dedup_branch seen is) = seen \<union> set (map issue_key is)
   \<and> set (fst (dedup_branch seen is)) \<subseteq> set is"
  by (induction seen "is" rule: dedup_branch.induct) (auto simp: insert_absorb split_beta)

lemma dedup_branches_eq:
  "map issue_key (concat (dedup_branches seen bs)) = firsts seen (map issue_key (concat bs))
   \<and> set (concat (dedup_branches seen bs)) \<subseteq> set (concat bs)"
proof (induction bs arbitrary: seen)
  case (Cons b bs)
  show ?case
    using dedup_branch_eq [of seen b] Cons.IH [of "snd (dedup_branch seen b)"]
    by (auto simp: split_beta firsts_append)
qed simp

lemma concat_nonempty: "concat (filter (\<lambda>b. b \<noteq> []) bs) = concat bs"
  by (induction bs) auto

lemma union_branches_eq:
  "map issue_key (concat (union_branches bs)) = firsts {} (map issue_key (concat bs))"
  "set (concat (union_branches bs)) \<subseteq> set (concat bs)"
  "[] \<notin> set (union_branches bs)"
  using dedup_branches_eq [of "{}" bs] by (simp_all add: union_branches_def concat_nonempty)

text \<open>
  What the filter reports of a failed union. Going through the branches in order, it keeps the
  first issue of every combination of field, code and message and drops the later ones; no branch
  without issues is reported, no issue is made up, and no combination is reported twice or lost.
\<close>

theorem union_issues_once:
  "let bs' = map (map formatIssue) bs in
   \<exists>u. unionErrors (formatIssue (RawIssue ''invalid_union'' path msg (Some bs))) = Some u
    \<and> map issue_key (concat u) = firsts {} (map issue_key (concat bs'))
    \<and> distinct (map issue_key (concat u)) \<and> set (map issue_key (concat u)) = set (map issue_key (concat bs'))
    \<and> set (concat u) \<subseteq> set (concat bs') \<and> [] \<notin> set u"
  by (simp only: Let_def formatIssue.simps validation_issue.sel if_True option.map option.inject
      simp_thms union_branches_eq firsts_distinct firsts_set Diff_empty)

text \<open>The key is not injective: a bar in a field name can hide an issue of another field.\<close>

lemma issue_key_collision:
  "issue_key (ValidationIssue ''a|b'' ''m'' ''c'' None) = issue_key (ValidationIssue ''a'' ''m'' ''b|c'' None)"
  by (simp add: issue_key_def)

section \<open>What a client learns\<close>

text \<open>
  The error response. A NestJS exception is reported with its own status and message. Every other
  exception a handler can raise (a failed statement, a lost connection, a plain error) is reported
  as one and the same 500 response, whatever the exception says, so no internal text reaches a
  client. The status of the response is the one in the body, with issues only for validation
  errors, and it is logged as an error exactly from 500 on.
\<close>

theorem error_response:
  "(\<forall>st m. filter_catch now url (thrown_of (HttpException st m)) =
      (if st \<ge> 500 then LogError else LogWarn, st,
       \<lparr>statusCode = st, error_text = statusToText st, error_message = m, error_path = url,
        timestamp = now, issues = None\<rparr>))
   \<and> ((\<forall>st m. e \<noteq> HttpException st m) \<longrightarrow>
      filter_catch now url (thrown_of e) =
        (LogError, 500,
         \<lparr>statusCode = 500, error_text = ''Internal Server Error'', error_message = ''Internal server error'',
          error_path = url, timestamp = now, issues = None\<rparr>))
   \<and> (case filter_catch now url x of (lvl, st, b) \<Rightarrow>
        statusCode b = st \<and> (lvl = LogError \<longleftrightarrow> st \<ge> 500)
        \<and> (issues b \<noteq> None \<longleftrightarrow> (\<exists>is. x = ThrownZod is)))"
proof (intro conjI allI impI)
  show "filter_catch now url (thrown_of (HttpException st m)) =
      (if st \<ge> 500 then LogError else LogWarn, st,
       \<lparr>statusCode = st, error_text = statusToText st, error_message = m, error_path = url,
        timestamp = now, issues = None\<rparr>)" for st m
    by (simp add: filter_catch_def thrown_of_def resolveException_def message_text_def Let_def)
  show "filter_catch now url (thrown_of e) =
        (LogError, 500,
         \<lparr>statusCode = 500, error_text = ''Internal Server Error'', error_message = ''Internal server error'',
          error_path = url, timestamp = now, issues = None\<rparr>)" if "\<forall>st m. e \<noteq> HttpException st m"
    using that by (cases e) (simp_all add: filter_catch_def thrown_of_def resolveException_def statusToText_def Let_def)
  show "case filter_catch now url x of (lvl, st, b) \<Rightarrow>
        statusCode b = st \<and> (lvl = LogError \<longleftrightarrow> st \<ge> 500)
        \<and> (issues b \<noteq> None \<longleftrightarrow> (\<exists>is. x = ThrownZod is))"
    by (cases x) (simp_all add: filter_catch_def resolveException_def Let_def)
qed

theorem error_response_witness:
  "filter_catch 0 ''/tasks'' (thrown_of InfraError) = filter_catch 0 ''/tasks'' (thrown_of (PlainError ''secret''))"
  using error_response [of 0 "''/tasks''" InfraError ThrownOther]
    error_response [of 0 "''/tasks''" "PlainError ''secret''" ThrownOther] by auto

end
