(* ===== verification/RequestBody.thy ===== *)
theory RequestBody
  imports ExceptionFilter
begin

text \<open>
  \<^verbatim>\<open>src/common/decorators/parse.decorators.ts\<close>: validation of the body, the query and the path
  parameters. Zod is not part of the repository: a schema is a value of any type, \<open>strict\<close> is its
  method of that name (\<open>None\<close> for a schema without one, such as a union) and \<open>parse\<close> what parsing
  a value with it yields. The state is what the module keeps: the schemas marked by
  \<open>allowUnknown\<close>, and the cache of strict schemas, a \<open>WeakMap\<close>, from which the garbage collector
  may take entries at any time.
\<close>

datatype parse_result =
    Parsed json
  | ZodError "raw_issue list"
  | OtherError

record 's schema_state =
  skip_strict :: "'s set"
  strict_cache :: "'s \<Rightarrow> 's option"

definition no_schemas :: "'s schema_state" where
  "no_schemas = \<lparr>skip_strict = {}, strict_cache = (\<lambda>_. None)\<rparr>"

section \<open>Operations\<close>

definition allowUnknown :: "'s \<Rightarrow> 's schema_state \<Rightarrow> 's \<times> 's schema_state" where
  "allowUnknown schema s = (schema, s\<lparr>skip_strict := insert schema (skip_strict s)\<rparr>)"

definition getStrictSchema :: "('s \<Rightarrow> 's option) \<Rightarrow> 's \<Rightarrow> 's schema_state \<Rightarrow> 's \<times> 's schema_state" where
  "getStrictSchema strict schema s =
     (if schema \<in> skip_strict s then (schema, s)
      else case strict schema of
             None \<Rightarrow> (schema, s)
           | Some fresh \<Rightarrow>
               (case strict_cache s schema of
                  Some cached \<Rightarrow> (cached, s)
                | None \<Rightarrow> (fresh, s\<lparr>strict_cache := (strict_cache s)(schema \<mapsto> fresh)\<rparr>)))"

text \<open>A validation error is passed on, any other error becomes 400.\<close>

definition parse_or_throw :: "parse_result \<Rightarrow> thrown + json" where
  "parse_or_throw r =
     (case r of
        Parsed v \<Rightarrow> Inr v
      | ZodError is \<Rightarrow> Inl (ThrownZod is)
      | OtherError \<Rightarrow> Inl (thrown_of (BadRequestException ''Validation failed'')))"

definition ParseBody ::
  "('s \<Rightarrow> 's option) \<Rightarrow> ('s \<Rightarrow> json \<Rightarrow> parse_result) \<Rightarrow> 's \<Rightarrow> json \<Rightarrow> 's schema_state
     \<Rightarrow> (thrown + json) \<times> 's schema_state" where
  "ParseBody strict parse schema body s =
     (case getStrictSchema strict schema s of (sc, s') \<Rightarrow> (parse_or_throw (parse sc body), s'))"

definition ParseQuery :: "('s \<Rightarrow> json \<Rightarrow> parse_result) \<Rightarrow> 's \<Rightarrow> json \<Rightarrow> thrown + json" where
  "ParseQuery parse schema query = parse_or_throw (parse schema query)"

definition ParseParams :: "('s \<Rightarrow> json \<Rightarrow> parse_result) \<Rightarrow> 's \<Rightarrow> json \<Rightarrow> thrown + json" where
  "ParseParams parse schema params = parse_or_throw (parse schema params)"

section \<open>The cache is only a cache\<close>

text \<open>
  What happens to the module: requests with a body, schemas marked, entries collected. The run
  returns the answers to the requests.
\<close>

datatype 's module_event =
    Body 's json
  | Allow 's
  | Collect "'s set"

fun module_run ::
  "('s \<Rightarrow> 's option) \<Rightarrow> ('s \<Rightarrow> json \<Rightarrow> parse_result) \<Rightarrow> 's module_event list \<Rightarrow> 's schema_state
     \<Rightarrow> (thrown + json) list" where
  "module_run strict parse [] s = []"
| "module_run strict parse (Body sc v # evs) s =
     (case ParseBody strict parse sc v s of (r, s') \<Rightarrow> r # module_run strict parse evs s')"
| "module_run strict parse (Allow sc # evs) s = module_run strict parse evs (snd (allowUnknown sc s))"
| "module_run strict parse (Collect S # evs) s =
     module_run strict parse evs (s\<lparr>strict_cache := (\<lambda>sc. if sc \<in> S then None else strict_cache s sc)\<rparr>)"

text \<open>Without a cache: the strict form is made anew for each request.\<close>

fun direct_run ::
  "('s \<Rightarrow> 's option) \<Rightarrow> ('s \<Rightarrow> json \<Rightarrow> parse_result) \<Rightarrow> 's module_event list \<Rightarrow> 's set \<Rightarrow> (thrown + json) list" where
  "direct_run strict parse [] skip = []"
| "direct_run strict parse (Body sc v # evs) skip =
     parse_or_throw (parse (if sc \<in> skip then sc else case strict sc of None \<Rightarrow> sc | Some f \<Rightarrow> f) v)
       # direct_run strict parse evs skip"
| "direct_run strict parse (Allow sc # evs) skip = direct_run strict parse evs (insert sc skip)"
| "direct_run strict parse (Collect S # evs) skip = direct_run strict parse evs skip"

definition cache_ok :: "('s \<Rightarrow> 's option) \<Rightarrow> 's schema_state \<Rightarrow> bool" where
  "cache_ok strict s \<longleftrightarrow> (\<forall>sc c. strict_cache s sc = Some c \<longrightarrow> strict sc = Some c)"

lemma getStrictSchema_eq:
  assumes "cache_ok strict s"
  shows "fst (getStrictSchema strict sc s) =
      (if sc \<in> skip_strict s then sc else case strict sc of None \<Rightarrow> sc | Some f \<Rightarrow> f)"
    and "cache_ok strict (snd (getStrictSchema strict sc s))"
    and "skip_strict (snd (getStrictSchema strict sc s)) = skip_strict s"
  using assms by (auto simp: getStrictSchema_def cache_ok_def split: option.splits)

lemma module_run_eq:
  "cache_ok strict s \<Longrightarrow> module_run strict parse evs s = direct_run strict parse evs (skip_strict s)"
proof (induction strict parse evs s rule: module_run.induct)
  case (2 strict parse sc v evs s)
  then show ?case
    using getStrictSchema_eq [OF 2(2), of sc] by (simp add: ParseBody_def split_beta)
next
  case (3 strict parse sc evs s)
  then show ?case by (simp add: allowUnknown_def cache_ok_def)
next
  case (4 strict parse S evs s)
  then show ?case by (simp add: cache_ok_def)
qed simp

text \<open>
  The cache of strict schemas never shows. Starting empty, whatever sequence of requests,
  of schemas marked as open and of garbage collections follows, every body is judged as if its
  strict schema were made anew for it: by the strict form of its schema, or by the schema itself
  when that has none or has been marked by then. A body that does not match is a validation error
  with its issues, and any other failure of the parser is a 400.
\<close>

theorem strict_cache_transparent:
  "module_run strict parse evs no_schemas = direct_run strict parse evs {}
   \<and> (\<forall>sc v s. fst (ParseBody strict parse sc v s) \<in> range Inr \<union> range (Inl \<circ> ThrownZod)
        \<union> {Inl (ThrownHttp 400 (ResponseObject (Some (MsgText ''Validation failed''))) ''Validation failed'')})"
  using module_run_eq [of strict no_schemas parse evs]
  by (auto simp: no_schemas_def cache_ok_def ParseBody_def parse_or_throw_def thrown_of_def split_beta
      split: parse_result.split)

end
