(* ===== verification/Connections.thy ===== *)
theory Connections
  imports ExceptionFilter
begin

text \<open>
  Configuration and the connections made from it: \<^verbatim>\<open>src/config/env.schema.ts\<close> (its cross-field rule),
  \<^verbatim>\<open>app.config.ts\<close>, \<^verbatim>\<open>redis.factory.ts\<close>, \<^verbatim>\<open>libs/redis/cluster-nodes.util.ts\<close>, the constructor and
  \<open>createIsolatedClient\<close> of \<^verbatim>\<open>libs/redis/redis.service.ts\<close>, and \<open>createBullMqConnection\<close> with the
  start-up probe of \<^verbatim>\<open>libs/queue/bullmq.adapter.ts\<close>. A connection is the description ioredis is
  given; opening it is outside the model.
\<close>

section \<open>Cluster nodes\<close>

record cluster_node =
  node_host :: string
  node_port :: int

definition parse_node :: "string \<Rightarrow> exn + cluster_node" where
  "parse_node entry =
     (let e = js_trim entry; pieces = split_on (CHR '':'') e;
          host = hd pieces;
          portStr = (case tl pieces of [] \<Rightarrow> None | p # _ \<Rightarrow> Some p);
          port = (if truthy portStr then parseInt (the portStr) else Some 6379);
          bad = Inl (PlainError (''Invalid cluster node entry: '' @ [CHR 0x22] @ e @ [CHR 0x22]))
      in case port of
           None \<Rightarrow> bad
         | Some p \<Rightarrow>
             if host = [] \<or> p < 1 \<or> p > 65535 then bad
             else Inr \<lparr>node_host = host, node_port = p\<rparr>)"

text \<open>\<open>map\<close> with a callback that may throw: the first exception ends it.\<close>

fun parse_nodes :: "string list \<Rightarrow> exn + cluster_node list" where
  "parse_nodes [] = Inr []"
| "parse_nodes (e # es) =
     (case parse_node e of
        Inl x \<Rightarrow> Inl x
      | Inr n \<Rightarrow> (case parse_nodes es of Inl x \<Rightarrow> Inl x | Inr ns \<Rightarrow> Inr (n # ns)))"

definition parseClusterNodes :: "string \<Rightarrow> exn + cluster_node list" where
  "parseClusterNodes raw = parse_nodes (split_on (CHR '','') raw)"

text \<open>The notation the operator writes.\<close>

definition node_text :: "cluster_node \<Rightarrow> string" where
  "node_text n = node_host n @ '':'' @ show_int (node_port n)"

definition node_ok :: "cluster_node \<Rightarrow> bool" where
  "node_ok n \<longleftrightarrow> node_host n \<noteq> [] \<and> 1 \<le> node_port n \<and> node_port n \<le> 65535"

definition plain_host :: "string \<Rightarrow> bool" where
  "plain_host h \<longleftrightarrow> CHR '':'' \<notin> set h \<and> CHR '','' \<notin> set h \<and> \<not> js_space (hd h)"

lemma parse_node_ok: "parse_node e = Inr n \<Longrightarrow> node_ok n"
  by (auto simp: parse_node_def node_ok_def Let_def split: option.splits if_splits)

lemma parse_nodes_ok: "parse_nodes es = Inr ns \<Longrightarrow> list_all node_ok ns \<and> length ns = length es"
  by (induction es arbitrary: ns) (auto split: sum.splits dest: parse_node_ok)

lemma show_nat_no_sep:
  "CHR '':'' \<notin> set (show_nat k)" "CHR '','' \<notin> set (show_nat k)"
  using show_nat_digits [of k] by (auto simp: list_all_iff is_digit_def)

lemma parse_node_text:
  assumes "node_ok n" and "plain_host (node_host n)"
  shows "parse_node (node_text n) = Inr n"
proof -
  obtain k where k: "node_port n = int k" using assms(1) nonneg_int_cases [of "node_port n"] by (auto simp: node_ok_def)
  have node_eq: "node_text n = node_host n @ CHR '':'' # show_nat k" by (simp add: node_text_def show_int_def k)
  have ds: "show_nat k \<noteq> []" "list_all is_digit (show_nat k)" using show_nat_digits by blast+
  then have "\<not> js_space (last (show_nat k))" by (simp add: list_all_iff js_space_not_digit)
  then have "js_trim (node_text n) = node_text n"
    using assms ds(1) by (intro js_trim_id) (auto simp: node_eq node_ok_def plain_host_def)
  moreover have "split_on (CHR '':'') (node_text n) = [node_host n, show_nat k]"
    using assms(2) show_nat_no_sep [of k] by (simp add: node_eq split_on_append split_on_no_sep plain_host_def)
  ultimately show ?thesis
    using assms(1) ds(1) by (simp add: parse_node_def node_ok_def parseInt_show_nat k [symmetric])
qed

lemma parse_nodes_map:
  "\<forall>n \<in> set ns. parse_node (f n) = Inr n \<Longrightarrow> parse_nodes (map f ns) = Inr ns"
  by (induction ns) auto

text \<open>
  C32: Cluster node lists. What the operator writes as \<open>host:port\<close> pairs separated by commas is read
  back exactly, for every non-empty list of valid nodes; and whatever text is accepted, there is one
  node per entry, each with a non-empty host and a port between 1 and 65535.
\<close>

theorem cluster_nodes_roundtrip:
  "(ns \<noteq> [] \<and> list_all (\<lambda>n. node_ok n \<and> plain_host (node_host n)) ns \<longrightarrow>
      parseClusterNodes (join_with '','' (map node_text ns)) = Inr ns)
   \<and> (parseClusterNodes raw = Inr ms \<longrightarrow>
      list_all node_ok ms \<and> length ms = length (split_on (CHR '','') raw))"
proof (intro conjI impI)
  assume ns: "ns \<noteq> [] \<and> list_all (\<lambda>n. node_ok n \<and> plain_host (node_host n)) ns"
  have "CHR '','' \<notin> set (node_text n)" if "n \<in> set ns" for n
    using that ns show_nat_no_sep by (auto simp: list_all_iff node_text_def plain_host_def show_int_def node_ok_def)
  then have "split_on (CHR '','') (join_with '','' (map node_text ns)) = map node_text ns"
    using ns by (intro split_on_join) auto
  then show "parseClusterNodes (join_with '','' (map node_text ns)) = Inr ns"
    using ns by (simp add: parseClusterNodes_def parse_nodes_map parse_node_text list_all_iff)
qed (use parse_nodes_ok in \<open>auto simp: parseClusterNodes_def\<close>)

theorem cluster_nodes_roundtrip_witness:
  "parseClusterNodes ''redis-1:6379,redis-2:7000'' =
     Inr [\<lparr>node_host = ''redis-1'', node_port = 6379\<rparr>, \<lparr>node_host = ''redis-2'', node_port = 7000\<rparr>]"
  using cluster_nodes_roundtrip [of "[\<lparr>node_host = ''redis-1'', node_port = 6379\<rparr>, \<lparr>node_host = ''redis-2'', node_port = 7000\<rparr>]" "[]" "[]"]
  by (simp add: node_text_def node_ok_def plain_host_def js_space_def show_int_def show_nat.simps char_of_def bit_0)

text \<open>Two spellings that are accepted although they are no such list.\<close>

lemma lenient_entries:
  "parse_node ''redis:6379abc'' = Inr \<lparr>node_host = ''redis'', node_port = 6379\<rparr>"
  "parse_node ''redis:1:2'' = Inr \<lparr>node_host = ''redis'', node_port = 1\<rparr>"
  by (simp_all add: parse_node_def js_trim_def js_space_def parseInt_def parse_sign_def is_digit_def
      digits_value_def digit_value_def Let_def)

section \<open>Configuration\<close>

text \<open>
  The variables after their own schemas have been applied, with defaults and conversions: that part
  is Zod's, so it is a function \<open>parse_fields\<close> from the process environment. The cross-field rule
  of \<open>superRefine\<close> is the code's.
\<close>

record env =
  NODE_ENV :: string
  PORT :: int
  PROXY_API_KEY :: "string option"
  DATABASE_URL :: string
  REDIS_HOST :: string
  REDIS_PORT :: int
  REDIS_PASSWORD :: "string option"
  REDIS_DB :: int
  REDIS_CLUSTER_MODE :: bool
  REDIS_CLUSTER_NODES :: "string option"
  RATE_LIMIT_ENABLED :: bool
  RATE_LIMIT_CAPACITY :: int
  DATA_RETENTION_DAYS :: int
  TIMEOUT_SWEEPER_CRON :: string
  DATA_RETENTION_CRON :: string

definition superRefine :: "env \<Rightarrow> raw_issue list" where
  "superRefine data =
     (if REDIS_CLUSTER_MODE data \<and> \<not> truthy (REDIS_CLUSTER_NODES data)
      then [RawIssue ''custom'' [Key ''REDIS_CLUSTER_NODES'']
              ''REDIS_CLUSTER_NODES is required when REDIS_CLUSTER_MODE=true'' None]
      else [])"

record queue_config =
  qc_host :: string
  qc_port :: int
  qc_password :: "string option"
  qc_db :: "int option"
  qc_clusterMode :: bool
  qc_clusterNodes :: "string option"

record app_config =
  app_env :: string
  app_port :: int
  app_proxyApiKey :: "string option"
  database_url :: string
  redis_config :: queue_config
  rateLimit_enabled :: bool
  rateLimit_capacity :: int
  dataRetentionDays :: int
  timeoutSweeperCron :: string
  dataRetentionCron :: string

definition EnvSchema_parse ::
  "((string \<Rightarrow> string option) \<Rightarrow> raw_issue list + env) \<Rightarrow> (string \<Rightarrow> string option) \<Rightarrow> raw_issue list + env" where
  "EnvSchema_parse parse_fields process_env =
     (case parse_fields process_env of
        Inl is \<Rightarrow> Inl is
      | Inr data \<Rightarrow> if superRefine data = [] then Inr data else Inl (superRefine data))"

definition appConfig ::
  "((string \<Rightarrow> string option) \<Rightarrow> raw_issue list + env) \<Rightarrow> (string \<Rightarrow> string option)
     \<Rightarrow> raw_issue list + app_config" where
  "appConfig parse_fields process_env =
     (case EnvSchema_parse parse_fields process_env of
        Inl is \<Rightarrow> Inl is
      | Inr e \<Rightarrow>
          Inr \<lparr> app_env = NODE_ENV e, app_port = PORT e, app_proxyApiKey = PROXY_API_KEY e,
                database_url = DATABASE_URL e,
                redis_config =
                  \<lparr> qc_host = REDIS_HOST e, qc_port = REDIS_PORT e, qc_password = REDIS_PASSWORD e,
                    qc_db = Some (REDIS_DB e), qc_clusterMode = REDIS_CLUSTER_MODE e,
                    qc_clusterNodes = REDIS_CLUSTER_NODES e \<rparr>,
                rateLimit_enabled = RATE_LIMIT_ENABLED e, rateLimit_capacity = RATE_LIMIT_CAPACITY e,
                dataRetentionDays = DATA_RETENTION_DAYS e, timeoutSweeperCron = TIMEOUT_SWEEPER_CRON e,
                dataRetentionCron = DATA_RETENTION_CRON e \<rparr>)"

section \<open>Connections\<close>

record redis_options =
  ro_host :: string
  ro_port :: int
  ro_password :: "string option"
  ro_db :: "int option"
  ro_clusterMode :: "bool option"
  ro_clusterNodes :: "string option"

text \<open>The spreads \<open>...(password ? { password } : {})\<close> leave an empty value out.\<close>

definition buildRedisOptions :: "app_config \<Rightarrow> redis_options" where
  "buildRedisOptions cfg =
     (let r = redis_config cfg
      in \<lparr> ro_host = qc_host r, ro_port = qc_port r,
           ro_password = (if truthy (qc_password r) then qc_password r else None),
           ro_db = qc_db r, ro_clusterMode = Some (qc_clusterMode r),
           ro_clusterNodes = (if truthy (qc_clusterNodes r) then qc_clusterNodes r else None) \<rparr>)"

datatype connection =
    Single string int "string option" "int option"
  | ClusterOf "cluster_node list" "string option" "int option"

definition createBullMqConnection :: "queue_config \<Rightarrow> exn + connection" where
  "createBullMqConnection config =
     (let db = Some (case qc_db config of None \<Rightarrow> 0 | Some d \<Rightarrow> d)
      in if qc_clusterMode config
         then (if \<not> truthy (qc_clusterNodes config)
               then Inl (PlainError ''REDIS_CLUSTER_NODES must be provided when clusterMode is true'')
               else case parseClusterNodes (the (qc_clusterNodes config)) of
                      Inl e \<Rightarrow> Inl e
                    | Inr ns \<Rightarrow> Inr (ClusterOf ns (qc_password config) db))
         else Inr (Single (qc_host config) (qc_port config) (qc_password config) db))"

text \<open>
  A \<open>RedisService\<close> keeps its mode and its client; the options of the last service constructed stay
  in a variable of the module, which \<open>createIsolatedClient\<close> reads.
\<close>

record redis_service =
  rs_isCluster :: bool
  rs_client :: connection

definition new_RedisService :: "redis_options \<Rightarrow> (exn + redis_service) \<times> redis_options option" where
  "new_RedisService options =
     (let isCluster = (ro_clusterMode options = Some True)
      in ((if isCluster
           then (if \<not> truthy (ro_clusterNodes options)
                 then Inl (PlainError ''REDIS_CLUSTER_NODES must be provided when REDIS_CLUSTER_MODE is true'')
                 else case parseClusterNodes (the (ro_clusterNodes options)) of
                        Inl e \<Rightarrow> Inl e
                      | Inr ns \<Rightarrow> Inr \<lparr>rs_isCluster = True,
                                      rs_client = ClusterOf ns (ro_password options) (ro_db options)\<rparr>)
           else Inr \<lparr>rs_isCluster = False,
                     rs_client = Single (ro_host options) (ro_port options) (ro_password options) (ro_db options)\<rparr>),
          Some options))"

definition createIsolatedClient :: "redis_options option \<Rightarrow> redis_service \<Rightarrow> exn + connection" where
  "createIsolatedClient storedOptions self =
     (case storedOptions of
        None \<Rightarrow> Inl (PlainError ''RedisService not yet initialized'')
      | Some opts \<Rightarrow>
          if rs_isCluster self
          then (if \<not> truthy (ro_clusterNodes opts)
                then Inl (PlainError ''REDIS_CLUSTER_NODES must be provided when clusterMode is true'')
                else case parseClusterNodes (the (ro_clusterNodes opts)) of
                       Inl e \<Rightarrow> Inl e
                     | Inr ns \<Rightarrow> Inr (ClusterOf ns (ro_password opts) (ro_db opts)))
          else Inr (rs_client self))"

text \<open>
  The start-up probe of the queue adapter: \<open>answers\<close> is \<open>None\<close> when the server answers the probe and
  otherwise the text of the error; \<open>closes\<close> says whether the connection can be closed: a rejected
  close replaces the outcome.
\<close>

definition adapter_onModuleInit :: "queue_config \<Rightarrow> string option \<Rightarrow> io \<Rightarrow> exn + unit" where
  "adapter_onModuleInit config answers closes =
     (let finally_quit = (\<lambda>r. if closes = Done then r else Inl InfraError)
      in if qc_clusterMode config
         then (case createBullMqConnection config of
                 Inl e \<Rightarrow> Inl e
               | Inr _ \<Rightarrow>
                   finally_quit (case answers of None \<Rightarrow> Inr ()
                     | Some err \<Rightarrow> Inl (PlainError (''[BullMqAdapter] Cannot connect to Redis cluster: '' @ err))))
         else finally_quit (case answers of None \<Rightarrow> Inr ()
                | Some err \<Rightarrow> Inl (PlainError (''[BullMqAdapter] Cannot connect to Redis: '' @ err))))"

lemma probe_outcome:
  "adapter_onModuleInit config answers closes = Inr () \<longleftrightarrow> answers = None \<and> closes = Done
     \<and> (qc_clusterMode config \<longrightarrow> (\<exists>c. createBullMqConnection config = Inr c))"
  by (auto simp: adapter_onModuleInit_def Let_def split: option.split sum.split)

section \<open>All parts connect to the same place\<close>

text \<open>Equal up to an empty password, which no server takes for one.\<close>

fun same_server :: "connection \<Rightarrow> connection \<Rightarrow> bool" where
  "same_server (Single h p pw db) (Single h' p' pw' db') \<longleftrightarrow>
     h = h' \<and> p = p' \<and> db = db' \<and> (pw = pw' \<or> \<not> truthy pw \<and> \<not> truthy pw')"
| "same_server (ClusterOf ns pw db) (ClusterOf ns' pw' db') \<longleftrightarrow>
     ns = ns' \<and> db = db' \<and> (pw = pw' \<or> \<not> truthy pw \<and> \<not> truthy pw')"
| "same_server _ _ \<longleftrightarrow> False"

text \<open>
  One configuration, one Redis. From a configuration that \<open>appConfig\<close> accepts, the service's
  client, its isolated clients for event streams and the connections of queues and workers are all
  made for the same server or the same cluster, or they all fail, with the same error, because an
  entry of the node list is malformed; that the list is missing altogether never shows up as late
  as that. In particular a single server never fails to be described.
\<close>

theorem one_redis:
  assumes "appConfig parse_fields process_env = Inr cfg"
    and "new_RedisService (buildRedisOptions cfg) = (svc, stored)"
  shows "case svc of
      Inr self \<Rightarrow> \<exists>c. createIsolatedClient stored self = Inr (rs_client self)
        \<and> createBullMqConnection (redis_config cfg) = Inr c \<and> same_server (rs_client self) c
    | Inl e \<Rightarrow> createBullMqConnection (redis_config cfg) = Inl e \<and> qc_clusterMode (redis_config cfg)
        \<and> (\<exists>nodes. qc_clusterNodes (redis_config cfg) = Some nodes \<and> parseClusterNodes nodes = Inl e)"
proof -
  have nodes: "qc_clusterMode (redis_config cfg) \<Longrightarrow> truthy (qc_clusterNodes (redis_config cfg))"
    and db: "\<exists>d. qc_db (redis_config cfg) = Some d"
    using assms(1) by (auto simp: appConfig_def EnvSchema_parse_def superRefine_def split: sum.splits if_splits)
  show ?thesis
    using nodes db assms(2)
    by (cases "qc_clusterMode (redis_config cfg)"; cases "qc_clusterNodes (redis_config cfg)")
      (auto simp: new_RedisService_def createIsolatedClient_def createBullMqConnection_def buildRedisOptions_def
        Let_def split: sum.splits)
qed

definition sample_vars :: env where
  "sample_vars =
     \<lparr> NODE_ENV = ''production'', PORT = 8080, PROXY_API_KEY = None, DATABASE_URL = ''postgres://db'',
       REDIS_HOST = ''localhost'', REDIS_PORT = 6379, REDIS_PASSWORD = Some [], REDIS_DB = 0,
       REDIS_CLUSTER_MODE = False, REDIS_CLUSTER_NODES = None, RATE_LIMIT_ENABLED = False,
       RATE_LIMIT_CAPACITY = 1000, DATA_RETENTION_DAYS = 30, TIMEOUT_SWEEPER_CRON = ''* * * * *'',
       DATA_RETENTION_CRON = ''0 3 * * *'' \<rparr>"

theorem one_redis_witness:
  "\<exists>cfg self c. appConfig (\<lambda>_. Inr sample_vars) (\<lambda>_. None) = Inr cfg
     \<and> fst (new_RedisService (buildRedisOptions cfg)) = Inr self
     \<and> createBullMqConnection (redis_config cfg) = Inr c \<and> same_server (rs_client self) c"
proof -
  obtain cfg where cfg: "appConfig (\<lambda>_. Inr sample_vars) (\<lambda>_. None) = Inr cfg"
    and mode: "\<not> qc_clusterMode (redis_config cfg)"
    by (simp add: appConfig_def EnvSchema_parse_def superRefine_def sample_vars_def)
  then obtain self stored where svc: "new_RedisService (buildRedisOptions cfg) = (Inr self, stored)"
    by (simp add: new_RedisService_def buildRedisOptions_def Let_def)
  show ?thesis using one_redis [OF cfg svc] cfg svc by auto
qed

end
