(* ===== verification/RedisService.thy ===== *)
theory RedisService
  imports Connections Idempotency
begin

text \<open>
  The commands of \<^verbatim>\<open>libs/redis/redis.service.ts\<close> on a store of keys with expiry, and its key scan.
  A scan asks the server for one page after the other until the server answers with the cursor
  \<open>0\<close>. How the server pages is not the code's: the \<open>k\<close>-th call with a cursor is answered by
  \<open>scan k cursor\<close>, \<open>None\<close> being a rejected call. Nothing in the code bounds the number of pages, so
  the loop is a partial function whose value is \<open>None\<close> when it never ends.
\<close>

section \<open>Commands\<close>

definition redis_get :: "time \<Rightarrow> string \<Rightarrow> redis_keys \<Rightarrow> string option" where
  "redis_get now key m = map_option slot_value (redis_live now m key)"

text \<open>\<open>SET key value [EX ttl]\<close>: the server rejects an expiry that is not positive.\<close>

definition redis_set :: "time \<Rightarrow> string \<Rightarrow> string \<Rightarrow> int option \<Rightarrow> redis_keys \<Rightarrow> (exn + string) \<times> redis_keys" where
  "redis_set now key v ttlSeconds m =
     (case ttlSeconds of
        None \<Rightarrow> (Inr ''OK'', m(key \<mapsto> \<lparr>slot_value = v, slot_expiry = None\<rparr>))
      | Some ttl \<Rightarrow>
          if ttl \<le> 0 then (Inl InfraError, m)
          else (Inr ''OK'', m(key \<mapsto> \<lparr>slot_value = v, slot_expiry = Some (now + ttl * 1000)\<rparr>)))"

definition redis_del_count :: "time \<Rightarrow> string \<Rightarrow> redis_keys \<Rightarrow> int \<times> redis_keys" where
  "redis_del_count now key m = (if redis_live now m key = None then 0 else 1, redis_del key m)"

definition redis_expire :: "time \<Rightarrow> string \<Rightarrow> int \<Rightarrow> redis_keys \<Rightarrow> int \<times> redis_keys" where
  "redis_expire now key ttlSeconds m =
     (case redis_live now m key of
        None \<Rightarrow> (0, m)
      | Some v \<Rightarrow>
          if ttlSeconds \<le> 0 then (1, redis_del key m)
          else (1, m(key \<mapsto> v\<lparr>slot_expiry := Some (now + ttlSeconds * 1000)\<rparr>)))"

lemma get_after_set:
  assumes "redis_set now key v ttl m = (Inr r, m')"
  shows "redis_get t key m' = (case ttl of None \<Rightarrow> Some v | Some n \<Rightarrow> if t < now + n * 1000 then Some v else None)"
    and "k \<noteq> key \<Longrightarrow> redis_get t k m' = redis_get t k m"
  using assms by (auto simp: redis_set_def redis_get_def redis_live_def split: option.splits if_splits)

lemma get_after_del: "redis_get t key (snd (redis_del_count now key m)) = None"
  by (simp add: redis_del_count_def redis_del_def redis_get_def redis_live_def)

section \<open>Scanning keys\<close>

type_synonym scan_node = "nat \<Rightarrow> string \<Rightarrow> (string \<times> string list) option"

partial_function (option) scan_loop ::
  "scan_node \<Rightarrow> nat \<Rightarrow> string \<Rightarrow> string list \<Rightarrow> (exn + string list) option" where
  "scan_loop scan k cursor keys =
     (case scan k cursor of
        None \<Rightarrow> Some (Inl InfraError)
      | Some (cursor', page) \<Rightarrow>
          if cursor' \<noteq> ''0'' then scan_loop scan (Suc k) cursor' (keys @ page)
          else Some (Inr (keys @ page)))"

definition scanSingleKeys :: "scan_node \<Rightarrow> (exn + string list) option" where
  "scanSingleKeys scan = scan_loop scan 0 ''0'' []"

text \<open>
  \<open>Promise.all\<close> over the master nodes: rejected as soon as one scan is, never settled if a scan
  never ends, and else the pages of all nodes in their order.
\<close>

definition scanClusterKeys :: "scan_node list \<Rightarrow> (exn + string list) option" where
  "scanClusterKeys masters =
     (let results = map scanSingleKeys masters
      in if Some (Inl InfraError) \<in> set results then Some (Inl InfraError)
         else if None \<in> set results then None
         else Some (Inr (concat (map (\<lambda>r. case r of Some (Inr ks) \<Rightarrow> ks | _ \<Rightarrow> []) results))))"

definition scanKeys :: "bool \<Rightarrow> scan_node list \<Rightarrow> scan_node \<Rightarrow> (exn + string list) option" where
  "scanKeys isCluster masters single = (if isCluster then scanClusterKeys masters else scanSingleKeys single)"

section \<open>When a scan ends, and with what\<close>

text \<open>The cursor of call \<open>k\<close>, its answer, and whether the loop goes on after it.\<close>

primrec cursor_at :: "scan_node \<Rightarrow> nat \<Rightarrow> string" where
  "cursor_at scan 0 = ''0''"
| "cursor_at scan (Suc k) = (case scan k (cursor_at scan k) of None \<Rightarrow> ''0'' | Some (c, _) \<Rightarrow> c)"

definition page_at :: "scan_node \<Rightarrow> nat \<Rightarrow> string list" where
  "page_at scan k = (case scan k (cursor_at scan k) of None \<Rightarrow> [] | Some (_, ks) \<Rightarrow> ks)"

definition goes_on :: "scan_node \<Rightarrow> nat \<Rightarrow> bool" where
  "goes_on scan k \<longleftrightarrow> (case scan k (cursor_at scan k) of None \<Rightarrow> False | Some (c, _) \<Rightarrow> c \<noteq> ''0'')"

lemma scan_loop_step:
  "goes_on scan k \<Longrightarrow> scan_loop scan k (cursor_at scan k) ks =
     scan_loop scan (Suc k) (cursor_at scan (Suc k)) (ks @ page_at scan k)"
  by (subst scan_loop.simps) (auto simp: goes_on_def page_at_def split: option.splits)

lemma scan_loop_stop:
  "\<not> goes_on scan k \<Longrightarrow> scan_loop scan k (cursor_at scan k) ks =
     Some (if scan k (cursor_at scan k) = None then Inl InfraError else Inr (ks @ page_at scan k))"
  by (subst scan_loop.simps) (auto simp: goes_on_def page_at_def split: option.splits)

lemma scan_loop_ends:
  assumes "\<forall>j < n. goes_on scan (k + j)" and "\<not> goes_on scan (k + n)"
  shows "scan_loop scan k (cursor_at scan k) ks =
    Some (if scan (k + n) (cursor_at scan (k + n)) = None then Inl InfraError
          else Inr (ks @ concat (map (page_at scan) [k..<Suc (k + n)])))"
  using assms
proof (induction n arbitrary: k ks)
  case 0
  then show ?case by (simp add: scan_loop_stop)
next
  case (Suc n)
  have first: "goes_on scan k" using Suc.prems(1) by (metis add.right_neutral zero_less_Suc)
  have "\<forall>j < n. goes_on scan (Suc k + j)" using Suc.prems(1) by auto
  moreover have "\<not> goes_on scan (Suc k + n)" using Suc.prems(2) by simp
  ultimately have "scan_loop scan (Suc k) (cursor_at scan (Suc k)) (ks @ page_at scan k) =
      Some (if scan (k + Suc n) (cursor_at scan (k + Suc n)) = None then Inl InfraError
            else Inr ((ks @ page_at scan k) @ concat (map (page_at scan) [Suc k..<Suc (k + Suc n)])))"
    using Suc.IH [of "Suc k" "ks @ page_at scan k"] by (simp only: add_Suc add_Suc_right simp_thms)
  moreover have "[k..<Suc (k + Suc n)] = k # [Suc k..<Suc (k + Suc n)]" by (rule upt_conv_Cons) simp
  ultimately show ?case
    by (simp only: scan_loop_step [OF first] list.map concat.simps append_assoc)
qed

lemma scan_loop_Some:
  assumes "scan_loop scan k c ks = Some r"
  shows "c = cursor_at scan k \<longrightarrow> (\<exists>n \<ge> k. \<not> goes_on scan n)"
proof (rule scan_loop.raw_induct [OF _ assms, where P = "\<lambda>scan k c ks r. c = cursor_at scan k \<longrightarrow> (\<exists>n \<ge> k. \<not> goes_on scan n)"],
    rule impI)
  fix loop :: "scan_node \<Rightarrow> nat \<Rightarrow> string \<Rightarrow> string list \<Rightarrow> (exn + string list) option" and scan k c ks r
  assume IH: "\<And>scan k c ks r. loop scan k c ks = Some r \<Longrightarrow> c = cursor_at scan k \<longrightarrow> (\<exists>n \<ge> k. \<not> goes_on scan n)"
    and run: "(case scan k c of None \<Rightarrow> Some (Inl InfraError)
      | Some (c', page) \<Rightarrow> if c' \<noteq> ''0'' then loop scan (Suc k) c' (ks @ page) else Some (Inr (ks @ page))) = Some r"
    and c: "c = cursor_at scan k"
  show "\<exists>n \<ge> k. \<not> goes_on scan n"
  proof (cases "goes_on scan k")
    case True
    then obtain c' page where "scan k c = Some (c', page)" "c' \<noteq> ''0''"
      using c by (auto simp: goes_on_def split: option.splits)
    then have "loop scan (Suc k) c' (ks @ page) = Some r" "c' = cursor_at scan (Suc k)"
      using run c by simp_all
    with IH [of scan "Suc k" c'] show ?thesis by (meson Suc_leD)
  qed auto
qed

text \<open>
  C33: A scan of one node ends exactly when the server does: if the first answer that is rejected or
  carries the cursor \<open>0\<close> is the one to call \<open>n\<close>, the scan returns after that call, with the pages of
  all calls in their order, or the rejection; and if the server never gives such an answer, the scan
  never returns, whatever it is sent.
\<close>

theorem scan_ends_with_server:
  "(\<forall>n. (\<forall>j < n. goes_on scan j) \<and> \<not> goes_on scan n \<longrightarrow>
      scanSingleKeys scan =
        Some (if scan n (cursor_at scan n) = None then Inl InfraError
              else Inr (concat (map (page_at scan) [0..<Suc n]))))
   \<and> (scanSingleKeys scan = None \<longleftrightarrow> (\<forall>n. goes_on scan n))"
proof (intro conjI allI impI)
  have ends: "scanSingleKeys scan =
        Some (if scan n (cursor_at scan n) = None then Inl InfraError
              else Inr (concat (map (page_at scan) [0..<Suc n])))"
    if "(\<forall>j < n. goes_on scan j) \<and> \<not> goes_on scan n" for n
    using scan_loop_ends [of n scan 0 "[]"] that by (simp add: scanSingleKeys_def)
  then show "scanSingleKeys scan =
        Some (if scan n (cursor_at scan n) = None then Inl InfraError
              else Inr (concat (map (page_at scan) [0..<Suc n])))"
    if "(\<forall>j < n. goes_on scan j) \<and> \<not> goes_on scan n" for n using that by blast
  have "scanSingleKeys scan \<noteq> None" if "\<not> goes_on scan n" for n
  proof -
    define m where "m = (LEAST n. \<not> goes_on scan n)"
    have "\<not> goes_on scan m" "\<forall>j < m. goes_on scan j"
      using LeastI [of "\<lambda>n. \<not> goes_on scan n", OF that] not_less_Least [of _ "\<lambda>n. \<not> goes_on scan n"]
      unfolding m_def by blast+
    then show ?thesis using ends [of m] by simp
  qed
  moreover have "\<exists>n. \<not> goes_on scan n" if "scanSingleKeys scan \<noteq> None"
    using that scan_loop_Some [of scan 0 "''0''" "[]"] by (auto simp: scanSingleKeys_def)
  ultimately show "scanSingleKeys scan = None \<longleftrightarrow> (\<forall>n. goes_on scan n)" by blast
qed

theorem scan_ends_with_server_witness:
  "scanSingleKeys (\<lambda>k c. if k = 0 then Some (''17'', [''a'', ''b'']) else Some (''0'', [''c''])) = Some (Inr [''a'', ''b'', ''c''])"
proof -
  let ?scan = "\<lambda>(k::nat) (c::string). if k = 0 then Some (''17'', [''a'', ''b'']) else Some (''0'', [''c''])"
  have "(\<forall>j < 1. goes_on ?scan j) \<and> \<not> goes_on ?scan 1" by (simp add: goes_on_def)
  with scan_ends_with_server [of ?scan] have
    "scanSingleKeys ?scan = Some (if ?scan 1 (cursor_at ?scan 1) = None then Inl InfraError
       else Inr (concat (map (page_at ?scan) [0..<Suc 1])))" by blast
  then show ?thesis by (simp add: page_at_def upt_rec)
qed
end
