(* ===== verification/Middleware.thy ===== *)
theory Middleware
  imports ExceptionFilter
begin

text \<open>
  What surrounds every request: \<^verbatim>\<open>src/common/middleware/request-id.middleware.ts\<close>,
  \<^verbatim>\<open>http-logger.middleware.ts\<close> and the logger of \<^verbatim>\<open>libs/logger/logger.service.ts\<close> and
  \<^verbatim>\<open>pretty.transport.ts\<close>. Log entries are collected in a list; writing them is pino's.
\<close>

section \<open>Logger\<close>

datatype log_param = PText string | POther

record log_entry =
  le_level :: log_level
  le_context :: string
  le_trace :: "log_param option"
  le_message :: string

definition resolveContext :: "string option \<Rightarrow> log_param list \<Rightarrow> string" where
  "resolveContext globalContext params =
     (case (if params = [] then None else Some (last params)) of
        Some (PText s) \<Rightarrow> s
      | _ \<Rightarrow> (case globalContext of None \<Rightarrow> ''App'' | Some c \<Rightarrow> c))"

text \<open>\<open>log\<close>, \<open>warn\<close>, \<open>debug\<close> and \<open>verbose\<close> (pino's trace) differ in the level.\<close>

definition logger_write :: "log_level \<Rightarrow> string option \<Rightarrow> string \<Rightarrow> log_param list \<Rightarrow> log_entry" where
  "logger_write lvl globalContext msg params =
     \<lparr>le_level = lvl, le_context = resolveContext globalContext params, le_trace = None, le_message = msg\<rparr>"

definition logger_error :: "string option \<Rightarrow> string \<Rightarrow> log_param list \<Rightarrow> log_entry" where
  "logger_error globalContext msg params =
     \<lparr> le_level = LogError, le_context = resolveContext globalContext params,
       le_trace = (if length params > 1 then Some (hd params) else None), le_message = msg \<rparr>"

text \<open>The threshold handed to pino.\<close>

definition pino_level :: "bool \<Rightarrow> bool \<Rightarrow> string" where
  "pino_level isTest isProd = (if isTest then ''silent'' else if isProd then ''info'' else ''debug'')"

text \<open>
  The options the constructor hands to pino, read from the process environment, and those of the pretty
  transport. \<open>resolve\<close> makes the URL of a file beside the module.
\<close>

record pretty_options =
  pr_colorize :: bool
  pr_singleLine :: bool
  pr_levelFirst :: bool
  pr_ignore :: string
  pr_translateTime :: string
  pr_messageFormat :: string
  pr_customColors :: string

record pino_options =
  po_level :: string
  po_formatLevel :: "string \<Rightarrow> (string \<times> string) list"
  po_base :: "(string \<times> string option) list"
  po_transport :: "(string \<times> pretty_options) option"

definition esc :: "string \<Rightarrow> string" where
  "esc s = char_of (27 :: nat) # s"

definition new_AppLogger :: "(string \<Rightarrow> string option) \<Rightarrow> (string \<Rightarrow> string) \<Rightarrow> pino_options" where
  "new_AppLogger process_env resolve =
     (let isProd = process_env ''NODE_ENV'' = Some ''production'';
          isTest = process_env ''JEST_WORKER_ID'' \<noteq> None
      in \<lparr> po_level = pino_level isTest isProd,
           po_formatLevel = (\<lambda>label. [(''level'', label)]),
           po_base = [(''service'', Some ''async-long-request-proxy''), (''env'', process_env ''NODE_ENV'')],
           po_transport =
             (if \<not> isProd \<and> \<not> isTest
              then Some (resolve ''./pretty.transport.js'',
                \<lparr> pr_colorize = True, pr_singleLine = True, pr_levelFirst = True,
                  pr_ignore = ''context,service,env'',
                  pr_translateTime = ''SYS:yyyy.mm.dd, HH:MM:ss'',
                  pr_messageFormat = esc ''[33m[{context}]'' @ esc ''[37m {msg}'' @ esc ''[39m'',
                  pr_customColors = ''info:cyan,debug:blue,warn:yellow,error:red,fatal:bgRed'' \<rparr>)
              else None) \<rparr>)"

text \<open>The prettifier of the time, for a text and for any other value (\<open>stringify\<close>).\<close>

datatype 'a time_value = TimeText string | TimeOther 'a

definition prettify_time :: "('a \<Rightarrow> string) \<Rightarrow> 'a time_value \<Rightarrow> string" where
  "prettify_time stringify v =
     esc ''[32m['' @ (case v of TimeText s \<Rightarrow> s | TimeOther x \<Rightarrow> stringify x) @ '']'' @ esc ''[39m''"

text \<open>
  What pino documents of its thresholds: \<open>silent\<close> lets nothing through, \<open>info\<close> informations and all above,
  \<open>debug\<close> debug entries besides. \<open>written\<close> are the entries that pass.
\<close>

definition pino_thresholds :: "(string \<Rightarrow> log_level \<Rightarrow> bool) \<Rightarrow> bool" where
  "pino_thresholds enabled \<longleftrightarrow>
     (\<forall>l. \<not> enabled ''silent'' l
        \<and> enabled ''info'' l = (l \<in> {LogInfo, LogWarn, LogError})
        \<and> enabled ''debug'' l = (l \<in> {LogDebug, LogInfo, LogWarn, LogError}))"

definition written :: "(string \<Rightarrow> log_level \<Rightarrow> bool) \<Rightarrow> pino_options \<Rightarrow> log_entry list \<Rightarrow> log_entry list" where
  "written enabled opts es = filter (\<lambda>e. enabled (po_level opts) (le_level e)) es"

section \<open>Access log\<close>

definition STATUS_COLORS :: "char \<Rightarrow> string option" where
  "STATUS_COLORS c =
     map_of [(CHR ''2'', esc ''[32m''), (CHR ''3'', esc ''[36m''), (CHR ''4'', esc ''[33m''), (CHR ''5'', esc ''[31m'')] c"

definition formatStatus :: "bool \<Rightarrow> nat \<Rightarrow> string" where
  "formatStatus isDev st =
     (let raw = show_nat st
      in if \<not> isDev then raw
         else case STATUS_COLORS (hd raw) of
                None \<Rightarrow> raw
              | Some color \<Rightarrow> color @ raw @ esc ''[39m'')"

definition writeLog :: "nat \<Rightarrow> string \<Rightarrow> log_entry" where
  "writeLog st msg =
     (if st \<ge> 500 then logger_error (Some ''HTTP'') msg []
      else logger_write (if st \<ge> 400 then LogWarn else LogInfo) (Some ''HTTP'') msg [])"

text \<open>
  The events of a response, with its status and the clock at that time: \<open>finish\<close>, and \<open>close\<close> with
  \<open>writableEnded\<close>. The state of one request is the flag \<open>isLogged\<close> and what has been logged.
\<close>

datatype response_event =
    Finish nat time
  | Close bool nat time

record http_log =
  isLogged :: bool
  entries :: "log_entry list"

definition logRequest ::
  "bool \<Rightarrow> string \<Rightarrow> string \<Rightarrow> time \<Rightarrow> bool \<Rightarrow> nat \<Rightarrow> time \<Rightarrow> http_log \<Rightarrow> http_log" where
  "logRequest isDev verb url start aborted st now s =
     (if isLogged s then s
      else (let duration = show_int (now - start) @ ''ms'';
                msg = (if aborted then verb @ '' '' @ url @ '' ABORTED - '' @ duration
                       else verb @ '' '' @ url @ '' '' @ formatStatus isDev st @ '' - '' @ duration)
            in \<lparr> isLogged = True,
                 entries = entries s @ [if aborted then logger_write LogWarn (Some ''HTTP'') msg [] else writeLog st msg] \<rparr>))"

fun on_response_event :: "bool \<Rightarrow> string \<Rightarrow> string \<Rightarrow> time \<Rightarrow> response_event \<Rightarrow> http_log \<Rightarrow> http_log" where
  "on_response_event isDev verb url start (Finish st now) s = logRequest isDev verb url start False st now s"
| "on_response_event isDev verb url start (Close writableEnded st now) s =
     (if writableEnded then s else logRequest isDev verb url start True st now s)"

definition http_logger :: "bool \<Rightarrow> string \<Rightarrow> string \<Rightarrow> time \<Rightarrow> response_event list \<Rightarrow> log_entry list" where
  "http_logger isDev verb url start evs =
     entries (fold (on_response_event isDev verb url start) evs \<lparr>isLogged = False, entries = []\<rparr>)"

section \<open>Request identifier\<close>

text \<open>
  The header of the request is absent, a text or a list; the result is the identifier put on the
  request and on the response. \<open>generated\<close> is \<open>randomUUID()\<close>.
\<close>

datatype header_value = HAbsent | HText string | HList "string list"

definition requestId_use :: "string \<Rightarrow> header_value \<Rightarrow> string \<times> string" where
  "requestId_use generated incoming =
     (let requestId = (case incoming of HText s \<Rightarrow> if length s > 0 then s else generated | _ \<Rightarrow> generated)
      in (requestId, requestId))"

lemma requestId_nonempty:
  "generated \<noteq> [] \<Longrightarrow> fst (requestId_use generated h) \<noteq> [] \<and> snd (requestId_use generated h) = fst (requestId_use generated h)"
  by (auto simp: requestId_use_def split: header_value.split)

section \<open>One line per request\<close>

definition decides :: "response_event \<Rightarrow> bool" where
  "decides ev = (case ev of Finish _ _ \<Rightarrow> True | Close writableEnded _ _ \<Rightarrow> \<not> writableEnded)"

lemma logged_stays:
  "isLogged s \<Longrightarrow> fold (on_response_event isDev verb url start) evs s = s"
proof (induction evs)
  case (Cons ev evs)
  then show ?case by (cases ev) (simp_all add: logRequest_def)
qed simp

lemma http_logger_first:
  "http_logger isDev verb url start evs =
     (case find decides evs of
        None \<Rightarrow> []
      | Some ev \<Rightarrow> entries (on_response_event isDev verb url start ev \<lparr>isLogged = False, entries = []\<rparr>))"
proof (induction evs)
  case (Cons ev evs)
  show ?case
  proof (cases "decides ev")
    case True
    then have "isLogged (on_response_event isDev verb url start ev \<lparr>isLogged = False, entries = []\<rparr>)"
      by (cases ev) (simp_all add: decides_def logRequest_def Let_def)
    with True show ?thesis by (simp add: http_logger_def logged_stays)
  next
    case False
    then show ?thesis using Cons.IH by (cases ev) (simp_all add: decides_def http_logger_def)
  qed
qed (simp add: http_logger_def)

lemma access_entry:
  assumes "find decides evs = Some ev"
  shows "\<exists>l. http_logger isDev verb url start evs = [l] \<and> le_context l = ''HTTP'' \<and>
    le_level l = (case ev of Close _ _ _ \<Rightarrow> LogWarn
                  | Finish st _ \<Rightarrow> if st \<ge> 500 then LogError else if st \<ge> 400 then LogWarn else LogInfo)"
proof -
  have "decides ev" using assms by (auto simp: find_Some_iff)
  then show ?thesis
    using assms
    by (cases ev) (simp_all add: http_logger_first decides_def logRequest_def writeLog_def logger_write_def
        logger_error_def resolveContext_def Let_def)
qed

text \<open>
  The access log has one line per request. However often and in whatever order the response
  finishes and closes, exactly one entry is written, or none if it neither finishes nor is cut off;
  it is decided by the first of these events: a warning for a client that went away, and otherwise
  an error from status 500 on, a warning from 400 on and an information below, under the context
  \<open>HTTP\<close>.
\<close>

theorem one_access_log_line:
  "length (http_logger isDev verb url start evs) = (if list_ex decides evs then 1 else 0)
   \<and> (case find decides evs of
        None \<Rightarrow> True
      | Some ev \<Rightarrow> (\<exists>l. http_logger isDev verb url start evs = [l] \<and> le_context l = ''HTTP'' \<and>
          le_level l = (case ev of Close _ _ _ \<Rightarrow> LogWarn
                        | Finish st _ \<Rightarrow> if st \<ge> 500 then LogError else if st \<ge> 400 then LogWarn else LogInfo)))"
proof (cases "find decides evs")
  case None
  then have "\<not> list_ex decides evs" by (auto simp: find_None_iff list_ex_iff)
  moreover have "http_logger isDev verb url start evs = []" using None by (simp add: http_logger_first)
  ultimately show ?thesis using None by simp
next
  case (Some ev)
  then have "list_ex decides evs" by (auto simp: find_Some_iff list_ex_iff)
  moreover obtain l where "http_logger isDev verb url start evs = [l]" "le_context l = ''HTTP''"
    "le_level l = (case ev of Close _ _ _ \<Rightarrow> LogWarn
      | Finish st _ \<Rightarrow> if st \<ge> 500 then LogError else if st \<ge> 400 then LogWarn else LogInfo)"
    using access_entry [OF Some] by blast
  ultimately show ?thesis using Some by simp
qed

text \<open>
  No line of the access log is dropped by the threshold outside the tests, and none is written in them; the
  entries of \<open>verbose\<close> are never written. Colours are used only where the output is a console.
\<close>

lemma access_log_written:
  assumes "pino_thresholds enabled" and "opts = new_AppLogger process_env resolve"
  shows "written enabled opts (http_logger isDev verb url start evs) =
    (if process_env ''JEST_WORKER_ID'' = None then http_logger isDev verb url start evs else [])"
proof (cases "find decides evs")
  case None
  then show ?thesis by (simp add: http_logger_first written_def)
next
  case (Some ev)
  obtain l where "http_logger isDev verb url start evs = [l]" "le_level l \<in> {LogInfo, LogWarn, LogError}"
    using access_entry [OF Some, of isDev verb url start] by (cases ev) (auto split: if_splits)
  then show ?thesis
    using assms by (auto simp: written_def new_AppLogger_def pino_level_def pino_thresholds_def Let_def)
qed

lemma verbose_never_written:
  assumes "pino_thresholds enabled"
  shows "written enabled (new_AppLogger process_env resolve) [logger_write LogTrace ctx msg params] = []"
  using assms by (auto simp: written_def new_AppLogger_def pino_level_def pino_thresholds_def logger_write_def Let_def)

lemma console_only:
  "po_transport (new_AppLogger process_env resolve) \<noteq> None
     \<longleftrightarrow> po_level (new_AppLogger process_env resolve) = ''debug''"
  by (auto simp: new_AppLogger_def pino_level_def Let_def)

end
