(* ===== verification/Infrastructure.thy ===== *)
theory Infrastructure
  imports Connections
begin

text \<open>
  Probes and the database handle: \<^verbatim>\<open>libs/observability\<close> (the two health indicators and the readiness
  route) and \<^verbatim>\<open>src/database/drizzle/drizzle.service.ts\<close>.
\<close>

section \<open>Health\<close>

text \<open>
  What the pinged service does, with the time it takes: an answer, a rejection (with its message if
  it is an \<open>Error\<close>), or nothing. The result comes with the time it is there.
\<close>

datatype ping = Answers int | Rejects int "string option" | Hangs

datatype health = Up | Down string

definition isHealthy :: "string \<Rightarrow> ping \<Rightarrow> health \<times> int" where
  "isHealthy name p =
     (let late = (Down (name @ '' check timed out after 2s''), 2000)
      in case p of
           Answers t \<Rightarrow> if t < 2000 then (Up, t) else late
         | Rejects t m \<Rightarrow>
             if t < 2000 then (Down (case m of Some s \<Rightarrow> s | None \<Rightarrow> ''Unknown error''), t) else late
         | Hangs \<Rightarrow> late)"

definition postgres_isHealthy :: "ping \<Rightarrow> health \<times> int" where
  "postgres_isHealthy p = isHealthy ''PostgreSQL'' p"

definition redis_isHealthy :: "ping \<Rightarrow> health \<times> int" where
  "redis_isHealthy p = isHealthy ''Redis'' p"

text \<open>\<open>check\<close> is \<open>HealthCheckService.check\<close> of Terminus, on the results of the indicators.\<close>

definition ready :: "(health list \<Rightarrow> 'r) \<Rightarrow> ping \<Rightarrow> ping \<Rightarrow> 'r" where
  "ready check pg rd = check [fst (postgres_isHealthy pg), fst (redis_isHealthy rd)]"

lemma isHealthy_bounded:
  assumes "case p of Answers t \<Rightarrow> 0 \<le> t | Rejects t _ \<Rightarrow> 0 \<le> t | Hangs \<Rightarrow> True"
  shows "0 \<le> snd (isHealthy name p) \<and> snd (isHealthy name p) \<le> 2000
    \<and> (fst (isHealthy name p) = Up \<longleftrightarrow> (\<exists>t < 2000. p = Answers t))"
  using assms by (cases p) (auto simp: isHealthy_def Let_def)

section \<open>Database handle\<close>

text \<open>
  The service keeps the pool of connections and the client over it; both are unset at first. The
  pool is kept as soon as it is opened, the client only after the first query: \<open>answers\<close> is whether
  the server answers it. \<open>getDb\<close> returns the client, set or not. Closing a pool that was never
  opened is an exception of the language.
\<close>

record 'pool drizzle =
  drizzle_sql :: "'pool option"
  drizzle_db :: "'pool option"

definition connect :: "(string \<Rightarrow> 'pool) \<Rightarrow> io \<Rightarrow> app_config \<Rightarrow> 'pool drizzle \<Rightarrow> (exn + unit) \<times> 'pool drizzle" where
  "connect postgres answers config s =
     (let s' = s\<lparr>drizzle_sql := Some (postgres (database_url config))\<rparr>
      in if answers \<noteq> Done then (Inl InfraError, s')
         else (Inr (), s'\<lparr>drizzle_db := drizzle_sql s'\<rparr>))"

definition getDb :: "'pool drizzle \<Rightarrow> 'pool option" where
  "getDb s = drizzle_db s"

definition onApplicationShutdown :: "io \<Rightarrow> 'pool drizzle \<Rightarrow> exn + unit" where
  "onApplicationShutdown ends s =
     (case drizzle_sql s of
        None \<Rightarrow> Inl (PlainError ''Cannot read properties of undefined'')
      | Some _ \<Rightarrow> if ends \<noteq> Done then Inl InfraError else Inr ())"

lemma getDb_connect:
  "getDb (snd (connect postgres v config s)) = (if v = Done then Some (postgres (database_url config)) else getDb s)"
  by (simp add: connect_def getDb_def Let_def)

lemma shutdown_after_connect:
  "onApplicationShutdown e (snd (connect postgres v config s)) = (if e = Done then Inr () else Inl InfraError)"
  by (simp add: connect_def onApplicationShutdown_def Let_def)

end
