(* ===== verification/Schemas.thy ===== *)
theory Schemas
  imports RequestBody TasksService ExecutorService
begin

text \<open>
  The request schemas of \<^verbatim>\<open>src/modules/tasks/dto/tasks.dto.ts\<close> and
  \<^verbatim>\<open>src/modules/executor/dto/executor.dto.ts\<close>, as the terms the source builds with Zod, and what the
  handlers read from a body that has passed them. Zod itself stays a parameter; what its documentation
  promises of a body it lets through is the predicate \<open>zod_laws\<close>.
\<close>

section \<open>Schema terms\<close>

datatype string_check = MinLength nat | MaxLength nat

datatype number_check = IsInt | AtLeast int | AtMost int

datatype zod =
    ZString "string_check list"
  | ZUrl
  | ZUuid
  | ZNumber "number_check list"
  | ZLiteral string
  | ZUnknown
  | ZRecord zod zod
  | ZObject bool "(string \<times> zod) list"     \<comment> \<open>whether \<open>strict()\<close> has been applied, and the fields\<close>
  | ZUnion string "zod list"               \<comment> \<open>the discriminator and the options\<close>
  | ZOptional zod
  | ZNullable zod
  | ZDefault json zod

text \<open>\<open>shape.pick\<close>, \<open>omit\<close> and \<open>extend\<close> on the fields of an object schema.\<close>

definition pick_fields :: "string list \<Rightarrow> (string \<times> zod) list \<Rightarrow> (string \<times> zod) list" where
  "pick_fields ks fs = filter (\<lambda>(k, _). k \<in> set ks) fs"

definition omit_fields :: "string list \<Rightarrow> (string \<times> zod) list \<Rightarrow> (string \<times> zod) list" where
  "omit_fields ks fs = filter (\<lambda>(k, _). k \<notin> set ks) fs"

definition extend_fields :: "(string \<times> zod) list \<Rightarrow> (string \<times> zod) list \<Rightarrow> (string \<times> zod) list" where
  "extend_fields new fs = filter (\<lambda>(k, _). k \<notin> fst ` set new) fs @ new"

section \<open>The schemas of the program\<close>

definition TaskErrorSchema :: zod where
  "TaskErrorSchema = ZObject False
     [(''code'', ZString [MinLength 1, MaxLength 100]),
      (''message'', ZString [MinLength 1]),
      (''details'', ZOptional ZUnknown)]"

definition SubmitResultSchema :: zod where
  "SubmitResultSchema = ZUnion ''status''
     [ZObject False [(''status'', ZLiteral ''completed''), (''result'', ZRecord (ZString []) ZUnknown)],
      ZObject False [(''status'', ZLiteral ''failed''), (''error'', TaskErrorSchema)]]"

definition UpdateProgressSchema :: zod where
  "UpdateProgressSchema = ZObject False [(''progress'', ZNumber [IsInt, AtLeast 0, AtMost 100])]"

text \<open>
  \<open>insertTaskSchema\<close> and \<open>selectTaskSchema\<close> are made by drizzle-zod from the table, so their fields
  are a parameter.
\<close>

definition create_picks :: "string list" where
  "create_picks = [''type'', ''payload'', ''executorUrl'', ''cancelUrl'', ''idempotencyKey'', ''webhookUrl'',
                   ''timeoutSeconds'']"

definition create_extension :: "(string \<times> zod) list" where
  "create_extension =
     [(''executorUrl'', ZUrl),
      (''cancelUrl'', ZOptional ZUrl),
      (''webhookUrl'', ZOptional ZUrl),
      (''timeoutSeconds'', ZDefault (JNum 300 0) (ZOptional (ZNumber [IsInt, AtLeast 1, AtMost 86400])))]"

definition CreateTaskSchema :: "(string \<times> zod) list \<Rightarrow> zod" where
  "CreateTaskSchema insertTaskFields =
     ZObject False (extend_fields create_extension (pick_fields create_picks insertTaskFields))"

definition TaskCreatedResponseSchema :: zod where
  "TaskCreatedResponseSchema = ZObject False [(''taskId'', ZUuid), (''statusUrl'', ZUrl), (''streamUrl'', ZUrl)]"

definition TaskResponseSchema :: "(string \<times> zod) list \<Rightarrow> zod" where
  "TaskResponseSchema selectTaskFields = ZObject False (omit_fields [''callbackToken''] selectTaskFields)"

section \<open>What Zod promises\<close>

text \<open>A JSON number \<open>m * 2 ^ e\<close> against a whole number, and as one.\<close>

definition num_le :: "int \<Rightarrow> int \<Rightarrow> int \<Rightarrow> bool" where
  "num_le m e n \<longleftrightarrow> (if e \<ge> 0 then m * 2 ^ nat e \<le> n else m \<le> n * 2 ^ nat (- e))"

definition num_ge :: "int \<Rightarrow> int \<Rightarrow> int \<Rightarrow> bool" where
  "num_ge m e n \<longleftrightarrow> (if e \<ge> 0 then n \<le> m * 2 ^ nat e else n * 2 ^ nat (- e) \<le> m)"

definition num_int :: "int \<Rightarrow> int \<Rightarrow> int option" where
  "num_int m e =
     (if e \<ge> 0 then Some (m * 2 ^ nat e)
      else if m mod 2 ^ nat (- e) = 0 then Some (m div 2 ^ nat (- e)) else None)"

lemma num_int_bounds:
  assumes "num_int m e = Some p"
  shows "num_le m e n \<longleftrightarrow> p \<le> n" and "num_ge m e n \<longleftrightarrow> n \<le> p"
proof -
  have "m = p * 2 ^ nat (- e)" if "e < 0"
    using assms that by (auto simp: num_int_def split: if_splits)
  moreover have "p = m * 2 ^ nat e" if "e \<ge> 0" using assms that by (simp add: num_int_def)
  ultimately show "num_le m e n \<longleftrightarrow> p \<le> n" "num_ge m e n \<longleftrightarrow> n \<le> p"
    by (auto simp: num_le_def num_ge_def not_le)
qed

fun string_passes :: "string \<Rightarrow> string_check \<Rightarrow> bool" where
  "string_passes s (MinLength n) \<longleftrightarrow> n \<le> length s"
| "string_passes s (MaxLength n) \<longleftrightarrow> length s \<le> n"

fun number_passes :: "int \<Rightarrow> int \<Rightarrow> number_check \<Rightarrow> bool" where
  "number_passes m e IsInt \<longleftrightarrow> num_int m e \<noteq> None"
| "number_passes m e (AtLeast n) \<longleftrightarrow> num_ge m e n"
| "number_passes m e (AtMost n) \<longleftrightarrow> num_le m e n"

text \<open>
  \<open>lets_through sc v w\<close>: what is known of a value \<open>v\<close> that a schema has turned into \<open>w\<close>; \<open>None\<close> is an
  absent field. These are necessary conditions: Zod may refuse more (a text that is not a URL).
\<close>

fun lets_through :: "zod \<Rightarrow> json option \<Rightarrow> json option \<Rightarrow> bool" where
  "lets_through (ZString cs) v w \<longleftrightarrow> (case v of Some (JStr s) \<Rightarrow> list_all (string_passes s) cs \<and> w = v | _ \<Rightarrow> False)"
| "lets_through ZUrl v w \<longleftrightarrow> (case v of Some (JStr s) \<Rightarrow> s \<noteq> [] \<and> w = v | _ \<Rightarrow> False)"
| "lets_through ZUuid v w \<longleftrightarrow> (case v of Some (JStr s) \<Rightarrow> s \<noteq> [] \<and> w = v | _ \<Rightarrow> False)"
| "lets_through (ZNumber cs) v w \<longleftrightarrow> (case v of Some (JNum m e) \<Rightarrow> list_all (number_passes m e) cs \<and> w = v | _ \<Rightarrow> False)"
| "lets_through (ZLiteral s) v w \<longleftrightarrow> v = Some (JStr s) \<and> w = v"
| "lets_through ZUnknown v w \<longleftrightarrow> w = v"
| "lets_through (ZRecord ks x) v w \<longleftrightarrow>
     (case v of Some (JObj kvs) \<Rightarrow> (case w of Some (JObj ws) \<Rightarrow> map fst ws = map fst kvs | _ \<Rightarrow> False) | _ \<Rightarrow> False)"
| "lets_through (ZObject strict fs) v w \<longleftrightarrow>
     (case v of Some (JObj kvs) \<Rightarrow>
        (case w of Some (JObj ws) \<Rightarrow>
           (strict \<longrightarrow> list_all (\<lambda>(k, _). k \<in> fst ` set fs) kvs) \<and> list_all (\<lambda>(k, _). k \<in> fst ` set fs) ws
           \<and> list_all (\<lambda>f. lets_through (snd f) (map_of kvs (fst f)) (map_of ws (fst f))) fs
         | _ \<Rightarrow> False)
      | _ \<Rightarrow> False)"
| "lets_through (ZUnion d scs) v w \<longleftrightarrow> list_ex (\<lambda>sc. lets_through sc v w) scs"
| "lets_through (ZOptional sc) v w \<longleftrightarrow> (v = None \<and> w = None) \<or> lets_through sc v w"
| "lets_through (ZNullable sc) v w \<longleftrightarrow> (v = Some JNull \<and> w = v) \<or> lets_through sc v w"
| "lets_through (ZDefault d sc) v w \<longleftrightarrow> (if v = None then w = Some d else lets_through sc v w)"

text \<open>
  The documented behaviour the program relies on: a schema returns only what it lets through, an
  object schema has a strict form and a union has none.
\<close>

definition zod_laws :: "(zod \<Rightarrow> zod option) \<Rightarrow> (zod \<Rightarrow> json \<Rightarrow> parse_result) \<Rightarrow> bool" where
  "zod_laws strict parse \<longleftrightarrow>
     (\<forall>sc v w. parse sc v = Parsed w \<longrightarrow> lets_through sc (Some v) (Some w))
   \<and> (\<forall>b fs. strict (ZObject b fs) = Some (ZObject True fs)) \<and> (\<forall>d scs. strict (ZUnion d scs) = None)"

section \<open>What the handlers read\<close>

definition field_of :: "string \<Rightarrow> json \<Rightarrow> json option" where
  "field_of k j = (case j of JObj kvs \<Rightarrow> map_of kvs k | _ \<Rightarrow> None)"

definition text_field :: "string \<Rightarrow> json \<Rightarrow> string option" where
  "text_field k j = (case field_of k j of Some (JStr s) \<Rightarrow> Some s | _ \<Rightarrow> None)"

definition int_field :: "string \<Rightarrow> json \<Rightarrow> int option" where
  "int_field k j = (case field_of k j of Some (JNum m e) \<Rightarrow> num_int m e | _ \<Rightarrow> None)"

definition read_progress :: "json \<Rightarrow> int" where
  "read_progress j = or_default (int_field ''progress'' j) 0"

definition read_error :: "json \<Rightarrow> task_error" where
  "read_error j = \<lparr>err_code = or_default (text_field ''code'' j) [],
                   err_message = or_default (text_field ''message'' j) [],
                   err_details = field_of ''details'' j\<rparr>"

definition read_result :: "json \<Rightarrow> submit_result_dto" where
  "read_result j =
     (if text_field ''status'' j = Some ''completed''
      then ResultCompleted (or_default (field_of ''result'' j) JNull)
      else ResultFailed (read_error (or_default (field_of ''error'' j) JNull)))"

definition read_create :: "json \<Rightarrow> create_task_dto" where
  "read_create j =
     \<lparr> dto_type = or_default (text_field ''type'' j) [],
       dto_payload = field_of ''payload'' j,
       dto_executorUrl = or_default (text_field ''executorUrl'' j) [],
       dto_cancelUrl = text_field ''cancelUrl'' j,
       dto_webhookUrl = text_field ''webhookUrl'' j,
       dto_timeoutSeconds = or_default (int_field ''timeoutSeconds'' j) 0,
       dto_idempotencyKey = text_field ''idempotencyKey'' j \<rparr>"

section \<open>Bodies that have passed\<close>

lemma ParseBody_lets_through:
  assumes "zod_laws strict parse" and "cache_ok strict s" and "fst (ParseBody strict parse sc body s) = Inr j"
  shows "lets_through (if sc \<in> skip_strict s then sc else case strict sc of None \<Rightarrow> sc | Some f \<Rightarrow> f)
    (Some body) (Some j)"
proof -
  have "parse (fst (getStrictSchema strict sc s)) body = Parsed j"
    using assms(3) by (auto simp: ParseBody_def parse_or_throw_def split_beta split: parse_result.splits)
  then show ?thesis using assms(1) getStrictSchema_eq(1) [OF assms(2), of sc] by (simp add: zod_laws_def)
qed

lemma ParseBody_object:
  assumes "zod_laws strict parse" and "cache_ok strict s" and "fst (ParseBody strict parse (ZObject b fs) body s) = Inr j"
  shows "lets_through (ZObject (b \<or> ZObject b fs \<notin> skip_strict s) fs) (Some body) (Some j)"
  using ParseBody_lets_through [OF assms] assms(1)
  by (cases "ZObject b fs \<in> skip_strict s") (simp_all add: zod_laws_def del: lets_through.simps)

lemma ParseBody_union:
  assumes "zod_laws strict parse" and "cache_ok strict s" and "fst (ParseBody strict parse (ZUnion d scs) body s) = Inr j"
  obtains sc where "sc \<in> set scs" and "lets_through sc (Some body) (Some j)"
proof -
  have "lets_through (ZUnion d scs) (Some body) (Some j)"
    using ParseBody_lets_through [OF assms] assms(1) by (auto simp: zod_laws_def split: if_splits)
  then show thesis using that by (auto simp: list_ex_iff)
qed

lemma object_field:
  assumes "lets_through (ZObject b fs) (Some v) (Some w)" and "(k, sc) \<in> set fs"
  shows "lets_through sc (field_of k v) (field_of k w)"
proof -
  obtain kvs ws where o: "v = JObj kvs" "w = JObj ws" using assms(1) by (auto split: json.splits)
  have "\<forall>f \<in> set fs. lets_through (snd f) (map_of kvs (fst f)) (map_of ws (fst f))"
    using assms(1) by (simp add: list_all_iff o)
  from bspec [OF this assms(2)] show ?thesis by (simp add: field_of_def o)
qed

lemma object_keys:
  assumes "lets_through (ZObject True fs) (Some v) w"
  shows "\<exists>kvs. v = JObj kvs \<and> fst ` set kvs \<subseteq> fst ` set fs"
  using assms by (auto simp: list_all_iff split: json.splits option.splits)

text \<open>What single fields say of the readers.\<close>

lemma int_read:
  assumes "lets_through (ZNumber [IsInt, AtLeast a, AtMost b]) v (field_of k j)"
  obtains p where "int_field k j = Some p" and "a \<le> p" and "p \<le> b" and "v = field_of k j"
proof -
  obtain m e where v: "v = Some (JNum m e)" "field_of k j = v" "list_all (number_passes m e) [IsInt, AtLeast a, AtMost b]"
    using assms by (auto split: option.splits json.splits)
  then obtain p where p: "num_int m e = Some p" by auto
  show thesis
    by (rule that [of p]) (use p v num_int_bounds [OF p] in \<open>simp_all add: int_field_def\<close>)
qed

lemma text_read:
  "lets_through (ZString cs) v (field_of k j) \<Longrightarrow> \<exists>x. text_field k j = Some x \<and> list_all (string_passes x) cs"
  "lets_through ZUrl v (field_of k j) \<Longrightarrow> \<exists>x. text_field k j = Some x \<and> x \<noteq> []"
  "lets_through (ZOptional ZUrl) v (field_of k j) \<Longrightarrow> text_field k j \<noteq> Some []"
  "lets_through (ZLiteral l) v (field_of k j) \<Longrightarrow> text_field k j = Some l"
  by (auto simp: text_field_def split: option.splits json.splits)

lemma record_read:
  "lets_through (ZRecord ks sc) v (field_of k j) \<Longrightarrow> \<exists>kvs. field_of k j = Some (JObj kvs)"
  by (cases v; cases "the v"; cases "field_of k j"; cases "the (field_of k j)") auto

lemma object_read:
  "lets_through (ZObject b fs) v (field_of k j) \<Longrightarrow>
     \<exists>v' w'. v = Some v' \<and> field_of k j = Some w' \<and> lets_through (ZObject b fs) (Some v') (Some w')"
  by (cases v; cases "field_of k j"; cases "the v") auto

lemma progress_body_ok:
  assumes "zod_laws strict parse" and "cache_ok strict s"
    and "fst (ParseBody strict parse UpdateProgressSchema body s) = Inr j"
  shows "progress_ok (read_progress j) \<and> int_field ''progress'' body = Some (read_progress j)"
proof -
  have "lets_through (ZNumber [IsInt, AtLeast 0, AtMost 100]) (field_of ''progress'' body) (field_of ''progress'' j)"
    by (rule object_field [OF ParseBody_object [OF assms(1,2) assms(3) [unfolded UpdateProgressSchema_def]]]) simp
  then obtain p where "int_field ''progress'' j = Some p" "0 \<le> p" "p \<le> 100"
    "field_of ''progress'' body = field_of ''progress'' j"
    by (rule int_read)
  then show ?thesis by (simp add: read_progress_def progress_ok_def int_field_def)
qed

lemma error_body_ok:
  assumes "lets_through TaskErrorSchema (Some v) (Some w)"
  shows "result_ok (ResultFailed (read_error w))"
proof -
  note f = object_field [OF assms [unfolded TaskErrorSchema_def]]
  have "lets_through (ZString [MinLength 1, MaxLength 100]) (field_of ''code'' v) (field_of ''code'' w)"
    "lets_through (ZString [MinLength 1]) (field_of ''message'' v) (field_of ''message'' w)"
    by (rule f, simp)+
  from this [THEN text_read(1)] show ?thesis by (auto simp: result_ok_def read_error_def)
qed

lemma result_body_ok:
  assumes "zod_laws strict parse" and "cache_ok strict s"
    and "fst (ParseBody strict parse SubmitResultSchema body s) = Inr j"
  shows "result_ok (read_result j)"
proof -
  have "\<exists>sc. sc \<in> set [ZObject False [(''status'', ZLiteral ''completed''), (''result'', ZRecord (ZString []) ZUnknown)],
      ZObject False [(''status'', ZLiteral ''failed''), (''error'', TaskErrorSchema)]]
      \<and> lets_through sc (Some body) (Some j)"
    using assms(3) unfolding SubmitResultSchema_def by (rule ParseBody_union [OF assms(1,2)]) blast
  then consider
      (completed) "lets_through (ZObject False [(''status'', ZLiteral ''completed''), (''result'', ZRecord (ZString []) ZUnknown)])
        (Some body) (Some j)"
    | (failed) "lets_through (ZObject False [(''status'', ZLiteral ''failed''), (''error'', TaskErrorSchema)])
        (Some body) (Some j)"
    by (auto simp del: lets_through.simps)
  then show ?thesis
  proof cases
    case completed
    note f = object_field [OF completed]
    have "lets_through (ZLiteral ''completed'') (field_of ''status'' body) (field_of ''status'' j)"
      "lets_through (ZRecord (ZString []) ZUnknown) (field_of ''result'' body) (field_of ''result'' j)"
      by (rule f, simp)+
    from text_read(4) [OF this(1)] record_read [OF this(2)] show ?thesis
      by (auto simp: read_result_def result_ok_def)
  next
    case failed
    note f = object_field [OF failed]
    have st: "lets_through (ZLiteral ''failed'') (field_of ''status'' body) (field_of ''status'' j)"
      and er: "lets_through TaskErrorSchema (field_of ''error'' body) (field_of ''error'' j)"
      by (rule f, simp)+
    obtain v w where "field_of ''error'' j = Some w" "lets_through TaskErrorSchema (Some v) (Some w)"
      using object_read [OF er [unfolded TaskErrorSchema_def]] unfolding TaskErrorSchema_def by blast
    with error_body_ok text_read(4) [OF st] show ?thesis by (simp add: read_result_def)
  qed
qed

lemma extend_pick_keys: "fst ` set (extend_fields new (pick_fields ks fs)) \<subseteq> fst ` set new \<union> set ks"
  by (auto simp: extend_fields_def pick_fields_def)

lemma create_body_ok:
  assumes "zod_laws strict parse" and "cache_ok strict s"
    and "fst (ParseBody strict parse (CreateTaskSchema ins) body s) = Inr j"
  shows "create_ok (read_create j)"
    and "CreateTaskSchema ins \<notin> skip_strict s \<Longrightarrow> \<exists>kvs. body = JObj kvs \<and> fst ` set kvs \<subseteq> set create_picks"
    and "field_of ''timeoutSeconds'' body = None \<Longrightarrow> dto_timeoutSeconds (read_create j) = 300"
proof -
  let ?fs = "extend_fields create_extension (pick_fields create_picks ins)"
  note obj = ParseBody_object [OF assms(1,2) assms(3) [unfolded CreateTaskSchema_def]]
  have f: "lets_through sc (field_of k body) (field_of k j)" if "(k, sc) \<in> set create_extension" for k sc
    by (rule object_field [OF obj]) (use that in \<open>simp add: extend_fields_def\<close>)
  have url: "lets_through ZUrl (field_of ''executorUrl'' body) (field_of ''executorUrl'' j)"
    "lets_through (ZOptional ZUrl) (field_of ''cancelUrl'' body) (field_of ''cancelUrl'' j)"
    "lets_through (ZOptional ZUrl) (field_of ''webhookUrl'' body) (field_of ''webhookUrl'' j)"
    and num: "lets_through (ZDefault (JNum 300 0) (ZOptional (ZNumber [IsInt, AtLeast 1, AtMost 86400])))
         (field_of ''timeoutSeconds'' body) (field_of ''timeoutSeconds'' j)"
    by (rule f, simp add: create_extension_def)+
  have n300: "int_field ''timeoutSeconds'' j = Some 300" if "field_of ''timeoutSeconds'' body = None"
    using num that by (simp add: int_field_def num_int_def)
  have "\<exists>p. int_field ''timeoutSeconds'' j = Some p \<and> 1 \<le> p \<and> p \<le> 86400"
  proof (cases "field_of ''timeoutSeconds'' body")
    case (Some x)
    with num have "lets_through (ZNumber [IsInt, AtLeast 1, AtMost 86400]) (Some x) (field_of ''timeoutSeconds'' j)"
      by simp
    then show ?thesis by (rule int_read) blast
  qed (use n300 in simp)
  then show "create_ok (read_create j)"
    using text_read(2) [OF url(1)] text_read(3) [OF url(2)] text_read(3) [OF url(3)]
    by (auto simp: create_ok_def read_create_def)
  have "fst ` set create_extension \<subseteq> set create_picks"
    by (simp add: create_extension_def create_picks_def)
  then have "fst ` set ?fs \<subseteq> set create_picks"
    using extend_pick_keys [of create_extension create_picks ins] by blast
  then show "\<exists>kvs. body = JObj kvs \<and> fst ` set kvs \<subseteq> set create_picks" if "CreateTaskSchema ins \<notin> skip_strict s"
  proof -
    have "lets_through (ZObject True ?fs) (Some body) (Some j)"
      using obj that unfolding CreateTaskSchema_def by (simp only: simp_thms)
    then obtain kvs where kvs: "body = JObj kvs" "fst ` set kvs \<subseteq> fst ` set ?fs"
      using object_keys by blast
    show ?thesis
      by (intro exI conjI, rule kvs(1), rule order_trans [OF kvs(2)])
        (rule \<open>fst ` set ?fs \<subseteq> set create_picks\<close>)
  qed
  show "dto_timeoutSeconds (read_create j) = 300" if "field_of ''timeoutSeconds'' body = None"
    using n300 [OF that] by (simp add: read_create_def)
qed

section \<open>Bounds\<close>

text \<open>
  C22: What a handler may rely on, whatever the client sends: a body that has passed its schema carries a
  whole progress between 0 and 100; a result that is a JSON object, or an error with a code of 1 to
  100 characters and a message; a time limit of 1 to 86400 seconds, 300 when none is given, and no
  empty URL. A creation with any field besides the seven of its schema is refused unless the schema
  has been opened.
\<close>

theorem validated_bodies:
  assumes "zod_laws strict parse" and "cache_ok strict s"
  shows "(\<forall>j. fst (ParseBody strict parse UpdateProgressSchema body s) = Inr j \<longrightarrow>
        0 \<le> read_progress j \<and> read_progress j \<le> 100 \<and> int_field ''progress'' body = Some (read_progress j))
    \<and> (\<forall>j. fst (ParseBody strict parse SubmitResultSchema body s) = Inr j \<longrightarrow>
        (case read_result j of
           ResultCompleted r \<Rightarrow> (\<exists>kvs. r = JObj kvs)
         | ResultFailed er \<Rightarrow> 1 \<le> length (err_code er) \<and> length (err_code er) \<le> 100 \<and> 1 \<le> length (err_message er)))
    \<and> (\<forall>j. fst (ParseBody strict parse (CreateTaskSchema ins) body s) = Inr j \<longrightarrow>
        1 \<le> dto_timeoutSeconds (read_create j) \<and> dto_timeoutSeconds (read_create j) \<le> 86400
        \<and> (field_of ''timeoutSeconds'' body = None \<longrightarrow> dto_timeoutSeconds (read_create j) = 300)
        \<and> dto_executorUrl (read_create j) \<noteq> [] \<and> dto_cancelUrl (read_create j) \<noteq> Some []
        \<and> dto_webhookUrl (read_create j) \<noteq> Some []
        \<and> (CreateTaskSchema ins \<in> skip_strict s \<or>
             (\<exists>kvs. body = JObj kvs \<and> fst ` set kvs \<subseteq> {''type'', ''payload'', ''executorUrl'', ''cancelUrl'',
                ''idempotencyKey'', ''webhookUrl'', ''timeoutSeconds''})))"
proof (intro conjI allI impI)
  fix j
  assume "fst (ParseBody strict parse UpdateProgressSchema body s) = Inr j"
  from progress_body_ok [OF assms this]
  show "0 \<le> read_progress j" "read_progress j \<le> 100" "int_field ''progress'' body = Some (read_progress j)"
    by (simp_all add: progress_ok_def)
next
  fix j
  assume "fst (ParseBody strict parse SubmitResultSchema body s) = Inr j"
  from result_body_ok [OF assms this]
  show "case read_result j of
           ResultCompleted r \<Rightarrow> (\<exists>kvs. r = JObj kvs)
         | ResultFailed er \<Rightarrow> 1 \<le> length (err_code er) \<and> length (err_code er) \<le> 100 \<and> 1 \<le> length (err_message er)"
    unfolding result_ok_def .
next
  fix j
  assume p: "fst (ParseBody strict parse (CreateTaskSchema ins) body s) = Inr j"
  note ok = create_body_ok [OF assms p]
  show "1 \<le> dto_timeoutSeconds (read_create j)" "dto_timeoutSeconds (read_create j) \<le> 86400"
    "dto_executorUrl (read_create j) \<noteq> []" "dto_cancelUrl (read_create j) \<noteq> Some []"
    "dto_webhookUrl (read_create j) \<noteq> Some []"
    using ok(1) by (simp_all add: create_ok_def)
  show "dto_timeoutSeconds (read_create j) = 300" if "field_of ''timeoutSeconds'' body = None"
    using ok(3) that by simp
  show "CreateTaskSchema ins \<in> skip_strict s \<or>
             (\<exists>kvs. body = JObj kvs \<and> fst ` set kvs \<subseteq> {''type'', ''payload'', ''executorUrl'', ''cancelUrl'',
                ''idempotencyKey'', ''webhookUrl'', ''timeoutSeconds''})"
    using ok(2) unfolding create_picks_def by auto
qed

text \<open>A parser that lets one document through, for the concrete instances.\<close>

definition sample_strict :: "zod \<Rightarrow> zod option" where
  "sample_strict sc = (case sc of ZObject _ fs \<Rightarrow> Some (ZObject True fs) | _ \<Rightarrow> None)"

text \<open>
  An evaluator of schema terms that keeps Zod's promises, to apply the properties to. The outer
  option is failure, the inner one an absent field.
\<close>

definition present :: "(string \<times> json option option) list \<Rightarrow> (string \<times> json) list" where
  "present rs = List.map_filter (\<lambda>(k, r). case r of Some (Some x) \<Rightarrow> Some (k, x) | _ \<Rightarrow> None) rs"

fun zod_eval :: "zod \<Rightarrow> json option \<Rightarrow> json option option" where
  "zod_eval (ZString cs) v = (case v of Some (JStr s) \<Rightarrow> if list_all (string_passes s) cs then Some v else None | _ \<Rightarrow> None)"
| "zod_eval ZUrl v = (case v of Some (JStr s) \<Rightarrow> if s \<noteq> [] then Some v else None | _ \<Rightarrow> None)"
| "zod_eval ZUuid v = (case v of Some (JStr s) \<Rightarrow> if s \<noteq> [] then Some v else None | _ \<Rightarrow> None)"
| "zod_eval (ZNumber cs) v = (case v of Some (JNum m e) \<Rightarrow> if list_all (number_passes m e) cs then Some v else None | _ \<Rightarrow> None)"
| "zod_eval (ZLiteral s) v = (if v = Some (JStr s) then Some v else None)"
| "zod_eval ZUnknown v = Some v"
| "zod_eval (ZRecord ks sc) v =
     (case v of Some (JObj kvs) \<Rightarrow> if list_all (\<lambda>x. zod_eval sc (Some (snd x)) \<noteq> None) kvs then Some v else None | _ \<Rightarrow> None)"
| "zod_eval (ZObject strict fs) v =
     (case v of Some (JObj kvs) \<Rightarrow>
        (let rs = map (\<lambda>f. (fst f, zod_eval (snd f) (map_of kvs (fst f)))) fs
         in if distinct (map fst fs) \<and> (strict \<longrightarrow> list_all (\<lambda>(k, _). k \<in> fst ` set fs) kvs)
              \<and> list_all (\<lambda>r. snd r \<noteq> None) rs
            then Some (Some (JObj (present rs))) else None)
      | _ \<Rightarrow> None)"
| "zod_eval (ZUnion d scs) v =
     (case List.map_filter id (map (\<lambda>sc. zod_eval sc v) scs) of [] \<Rightarrow> None | w # _ \<Rightarrow> Some w)"
| "zod_eval (ZOptional sc) v = (if v = None then Some None else zod_eval sc v)"
| "zod_eval (ZNullable sc) v = (if v = Some JNull then Some v else zod_eval sc v)"
| "zod_eval (ZDefault d sc) v = (if v = None then Some (Some d) else zod_eval sc v)"

lemma present_Cons:
  "present ((k, r) # rs) = (case r of Some (Some x) \<Rightarrow> (k, x) # present rs | _ \<Rightarrow> present rs)"
  by (simp add: present_def List.map_filter_def split: option.split)

lemma present_keys: "fst ` set (present rs) \<subseteq> fst ` set rs"
  by (force simp: present_def List.map_filter_def split: option.splits)

lemma map_of_present:
  "distinct (map fst rs) \<Longrightarrow> (k, Some x) \<in> set rs \<Longrightarrow> map_of (present rs) k = x"
proof (induction rs)
  case (Cons r rs)
  obtain k' r' where r: "r = (k', r')" by fastforce
  have none: "map_of (present rs) k' = None"
    using Cons.prems(1) present_keys [of rs] by (auto simp: r map_of_eq_None_iff)
  show ?case
    using Cons none by (auto simp: r present_Cons rev_image_eqI split: option.split)
qed simp

lemma zod_eval_lets_through: "zod_eval sc v = Some w \<Longrightarrow> lets_through sc v w"
proof (induction sc v arbitrary: w rule: zod_eval.induct)
  case (8 strict fs v)
  then obtain kvs where v: "v = Some (JObj kvs)" by (auto split: option.splits json.splits)
  let ?rs = "map (\<lambda>f. (fst f, zod_eval (snd f) (map_of kvs (fst f)))) fs"
  have w: "w = Some (JObj (present ?rs))" and d: "distinct (map fst fs)"
    and st: "strict \<longrightarrow> list_all (\<lambda>(k, _). k \<in> fst ` set fs) kvs"
    and all: "\<forall>f \<in> set fs. zod_eval (snd f) (map_of kvs (fst f)) \<noteq> None"
    using 8(2) by (simp_all add: v Let_def list_all_iff split: if_splits)
  have rd: "distinct (map fst ?rs)" using d by (simp add: comp_def)
  have "lets_through (snd f) (map_of kvs (fst f)) (map_of (present ?rs) (fst f))" if f: "f \<in> set fs" for f
  proof -
    obtain x where x: "zod_eval (snd f) (map_of kvs (fst f)) = Some x" using all f by blast
    then have "(fst f, Some x) \<in> set ?rs" using f by force
    from map_of_present [OF rd this] have "map_of (present ?rs) (fst f) = x" .
    with 8(1) [OF v refl f x] show ?thesis by simp
  qed
  moreover have "fst ` set (present ?rs) \<subseteq> fst ` set fs"
    using present_keys [of ?rs] by (simp add: image_image)
  then have "list_all (\<lambda>(k, _). k \<in> fst ` set fs) (present ?rs)"
    by (simp only: list_all_iff image_subset_iff case_prod_unfold)
  ultimately show ?case using st by (simp add: v w list_all_iff)
next
  case (9 d scs v)
  have "List.map_filter id (map (\<lambda>sc. zod_eval sc v) scs) \<noteq> [] \<and>
      w \<in> set (List.map_filter id (map (\<lambda>sc. zod_eval sc v) scs))"
    using 9(2) by (auto split: list.splits)
  then obtain sc where "sc \<in> set scs" "zod_eval sc v = Some w"
    by (auto simp: List.map_filter_def)
  with 9(1) show ?case by (auto simp: list_ex_iff)
qed (auto split: option.splits json.splits if_splits)

definition sample_parse :: "zod \<Rightarrow> json \<Rightarrow> parse_result" where
  "sample_parse sc v = (case zod_eval sc (Some v) of Some (Some w) \<Rightarrow> Parsed w | _ \<Rightarrow> ZodError [])"

lemma sample_zod_laws: "zod_laws sample_strict sample_parse"
  by (auto simp: zod_laws_def sample_strict_def sample_parse_def dest: zod_eval_lets_through
      split: option.splits)

definition sample_progress :: json where
  "sample_progress = JObj [(''progress'', JNum 50 0)]"

definition sample_body :: json where
  "sample_body = JObj [(''type'', JStr ''echo''), (''executorUrl'', JStr ''http://e''), (''timeoutSeconds'', JNum 60 0)]"

definition sample_insert_fields :: "(string \<times> zod) list" where
  "sample_insert_fields = [(''id'', ZOptional ZUuid), (''type'', ZString [MaxLength 255])]"

lemmas sample_schema_defs =
  ParseBody_def getStrictSchema_def no_schemas_def sample_strict_def sample_parse_def parse_or_throw_def present_def
  List.map_filter_def num_int_def num_ge_def num_le_def

lemma sample_progress_body:
  "fst (ParseBody sample_strict sample_parse UpdateProgressSchema sample_progress no_schemas) = Inr sample_progress"
  by (simp add: sample_schema_defs UpdateProgressSchema_def sample_progress_def)

lemma sample_create_body:
  "\<exists>j. fst (ParseBody sample_strict sample_parse (CreateTaskSchema sample_insert_fields) sample_body no_schemas) = Inr j
    \<and> read_create j = \<lparr>dto_type = ''echo'', dto_payload = None, dto_executorUrl = ''http://e'', dto_cancelUrl = None,
         dto_webhookUrl = None, dto_timeoutSeconds = 60, dto_idempotencyKey = None\<rparr>"
  by (simp add: sample_schema_defs CreateTaskSchema_def sample_insert_fields_def create_picks_def create_extension_def
      pick_fields_def extend_fields_def sample_body_def read_create_def text_field_def int_field_def field_of_def)

lemma cache_ok_no_schemas [simp]: "cache_ok strict no_schemas"
  by (simp add: cache_ok_def no_schemas_def)

theorem validated_bodies_witness:
  "0 \<le> read_progress sample_progress \<and> read_progress sample_progress \<le> 100"
  using validated_bodies [OF sample_zod_laws cache_ok_no_schemas, of sample_progress] sample_progress_body by blast

end
