(* ===== verification/AppModules.thy ===== *)
theory AppModules
  imports Main
begin

text \<open>
  How the two processes are put together: the NestJS modules (\<^verbatim>\<open>src/app.module.ts\<close>,
  \<^verbatim>\<open>src/worker.module.ts\<close>, the modules under \<^verbatim>\<open>src/modules\<close>, \<^verbatim>\<open>src/database\<close>, \<^verbatim>\<open>src/config\<close> and
  \<^verbatim>\<open>libs\<close>), their controllers with the declared paths, and what is injected into what. A token stands
  for the class or symbol under which NestJS looks a dependency up.
\<close>

section \<open>Controllers\<close>

datatype verb = GET | POST | PUT | PATCH | DELETE

datatype path_part = Lit string | Param

datatype endpoint =
    Create_Task | Get_Task | Cancel_Task | Stream_Task
  | Submit_Result | Update_Progress
  | Health_Live | Health_Ready | Metrics

text \<open>A controller: the path it is declared with, and its methods.\<close>

record controller =
  base_path :: "path_part list"
  methods :: "(verb \<times> path_part list \<times> endpoint) list"

definition HealthController :: controller where
  "HealthController = \<lparr>base_path = [Lit ''health''],
     methods = [(GET, [Lit ''live''], Health_Live), (GET, [Lit ''ready''], Health_Ready)]\<rparr>"

definition MetricsController :: controller where
  "MetricsController = \<lparr>base_path = [Lit ''metrics''], methods = [(GET, [], Metrics)]\<rparr>"

definition TasksController :: controller where
  "TasksController = \<lparr>base_path = [Lit ''tasks''],
     methods = [(POST, [], Create_Task), (GET, [Param], Get_Task), (DELETE, [Param], Cancel_Task)]\<rparr>"

definition ExecutorController :: controller where
  "ExecutorController = \<lparr>base_path = [Lit ''tasks'', Param],
     methods = [(POST, [Lit ''result''], Submit_Result), (PATCH, [Lit ''progress''], Update_Progress)]\<rparr>"

definition StreamController :: controller where
  "StreamController = \<lparr>base_path = [Lit ''tasks''], methods = [(GET, [Param, Lit ''stream''], Stream_Task)]\<rparr>"

section \<open>Modules\<close>

datatype app_module =
    AppModule | WorkerModule
  | ConfigProviderModule | DrizzleModule | RedisModule | QueueModule | ObservabilityModule
  | IdempotencyModule | HttpRetryModule
  | TasksModule | ExecutorModule | DeliveryModule
  | ExecutorWorkerModule | DeliveryWorkerModule | MaintenanceModule
  | TerminusModule | PrometheusModule | HttpModule      \<comment> \<open>of third parties\<close>

datatype token =
    APP_CONFIG | DB_CONNECTION | REDIS_OPTIONS | QUEUE_CONFIG | QUEUE_ADAPTER | APP_FILTER
  | DrizzleService | RedisService | BullMqAdapter | IdempotencyService | HttpRetryService
  | PostgresHealthIndicator | RedisHealthIndicator
  | TasksRepository | EventsRepository | MaintenanceRepository
  | TasksService | ExecutorService | SseService
  | ApiKeyGuard | CallbackAuthGuard
  | DispatchProcessor | CancelProcessor | WebhookProcessor | TimeoutSweeperProcessor | DataRetentionProcessor
  | HealthCheckService | HealthIndicatorService | HttpService      \<comment> \<open>of third parties\<close>

text \<open>What a module declares: the fields of \<open>@Module\<close>, and whether it is \<open>@Global\<close>.\<close>

record module_decl =
  md_global :: bool
  md_imports :: "app_module list"
  md_controllers :: "controller list"
  md_providers :: "token list"
  md_exports :: "token list"

definition empty_decl :: module_decl where
  "empty_decl = \<lparr>md_global = False, md_imports = [], md_controllers = [], md_providers = [], md_exports = []\<rparr>"

text \<open>The two roots.\<close>

definition AppModule_decl :: module_decl where
  "AppModule_decl = empty_decl\<lparr>
     md_imports := [ConfigProviderModule, DrizzleModule, RedisModule, QueueModule, ObservabilityModule,
                    IdempotencyModule, TasksModule, ExecutorModule, DeliveryModule],
     md_providers := [APP_FILTER]\<rparr>"

definition WorkerModule_decl :: module_decl where
  "WorkerModule_decl = empty_decl\<lparr>
     md_imports := [ConfigProviderModule, DrizzleModule, RedisModule, QueueModule, HttpRetryModule,
                    ExecutorWorkerModule, DeliveryWorkerModule, MaintenanceModule]\<rparr>"

text \<open>The global modules of the infrastructure, and the one that is not.\<close>

definition ConfigProviderModule_forRoot :: module_decl where
  "ConfigProviderModule_forRoot = empty_decl\<lparr>md_global := True, md_providers := [APP_CONFIG], md_exports := [APP_CONFIG]\<rparr>"

definition DrizzleModule_decl :: module_decl where
  "DrizzleModule_decl = empty_decl\<lparr>md_global := True, md_providers := [DrizzleService, DB_CONNECTION],
     md_exports := [DB_CONNECTION, DrizzleService]\<rparr>"

definition RedisModule_forRootAsync :: module_decl where
  "RedisModule_forRootAsync = empty_decl\<lparr>md_global := True, md_providers := [REDIS_OPTIONS, RedisService],
     md_exports := [RedisService]\<rparr>"

definition QueueModule_build :: module_decl where
  "QueueModule_build = empty_decl\<lparr>md_global := True, md_providers := [QUEUE_CONFIG, BullMqAdapter, QUEUE_ADAPTER],
     md_exports := [QUEUE_ADAPTER, QUEUE_CONFIG]\<rparr>"

definition IdempotencyModule_decl :: module_decl where
  "IdempotencyModule_decl = empty_decl\<lparr>md_global := True, md_providers := [IdempotencyService],
     md_exports := [IdempotencyService]\<rparr>"

definition HttpRetryModule_decl :: module_decl where
  "HttpRetryModule_decl = empty_decl\<lparr>md_global := True, md_imports := [HttpModule], md_providers := [HttpRetryService],
     md_exports := [HttpRetryService]\<rparr>"

definition ObservabilityModule_decl :: module_decl where
  "ObservabilityModule_decl = empty_decl\<lparr>md_imports := [TerminusModule, PrometheusModule],
     md_controllers := [HealthController, MetricsController],
     md_providers := [PostgresHealthIndicator, RedisHealthIndicator]\<rparr>"

text \<open>The modules of the features, on the side of the API and on the side of the worker.\<close>

definition TasksModule_decl :: module_decl where
  "TasksModule_decl = empty_decl\<lparr>md_controllers := [TasksController],
     md_providers := [TasksService, TasksRepository, EventsRepository]\<rparr>"

definition ExecutorModule_decl :: module_decl where
  "ExecutorModule_decl = empty_decl\<lparr>md_imports := [DeliveryModule], md_controllers := [ExecutorController],
     md_providers := [TasksRepository, CallbackAuthGuard, ExecutorService]\<rparr>"

definition DeliveryModule_decl :: module_decl where
  "DeliveryModule_decl = empty_decl\<lparr>md_controllers := [StreamController],
     md_providers := [SseService, TasksRepository, EventsRepository], md_exports := [EventsRepository]\<rparr>"

definition ExecutorWorkerModule_decl :: module_decl where
  "ExecutorWorkerModule_decl = empty_decl\<lparr>
     md_providers := [TasksRepository, EventsRepository, DispatchProcessor, CancelProcessor]\<rparr>"

definition DeliveryWorkerModule_decl :: module_decl where
  "DeliveryWorkerModule_decl = empty_decl\<lparr>md_providers := [WebhookProcessor, TasksRepository, EventsRepository]\<rparr>"

definition MaintenanceModule_decl :: module_decl where
  "MaintenanceModule_decl = empty_decl\<lparr>
     md_providers := [MaintenanceRepository, EventsRepository, TimeoutSweeperProcessor, DataRetentionProcessor]\<rparr>"

text \<open>Of the modules of third parties only the services they export matter here.\<close>

fun decl_of :: "app_module \<Rightarrow> module_decl" where
  "decl_of AppModule = AppModule_decl"
| "decl_of WorkerModule = WorkerModule_decl"
| "decl_of ConfigProviderModule = ConfigProviderModule_forRoot"
| "decl_of DrizzleModule = DrizzleModule_decl"
| "decl_of RedisModule = RedisModule_forRootAsync"
| "decl_of QueueModule = QueueModule_build"
| "decl_of ObservabilityModule = ObservabilityModule_decl"
| "decl_of IdempotencyModule = IdempotencyModule_decl"
| "decl_of HttpRetryModule = HttpRetryModule_decl"
| "decl_of TasksModule = TasksModule_decl"
| "decl_of ExecutorModule = ExecutorModule_decl"
| "decl_of DeliveryModule = DeliveryModule_decl"
| "decl_of ExecutorWorkerModule = ExecutorWorkerModule_decl"
| "decl_of DeliveryWorkerModule = DeliveryWorkerModule_decl"
| "decl_of MaintenanceModule = MaintenanceModule_decl"
| "decl_of TerminusModule = empty_decl\<lparr>md_providers := [HealthCheckService, HealthIndicatorService],
     md_exports := [HealthCheckService, HealthIndicatorService]\<rparr>"
| "decl_of PrometheusModule = empty_decl"
| "decl_of HttpModule = empty_decl\<lparr>md_providers := [HttpService], md_exports := [HttpService]\<rparr>"

lemmas module_decls =
  empty_decl_def AppModule_decl_def WorkerModule_decl_def ConfigProviderModule_forRoot_def DrizzleModule_decl_def
  RedisModule_forRootAsync_def QueueModule_build_def IdempotencyModule_decl_def HttpRetryModule_decl_def
  ObservabilityModule_decl_def TasksModule_decl_def ExecutorModule_decl_def DeliveryModule_decl_def
  ExecutorWorkerModule_decl_def DeliveryWorkerModule_decl_def MaintenanceModule_decl_def

text \<open>The modules of a process: the root and, in the order of the imports, what they import, once each.\<close>

primrec import_closure :: "nat \<Rightarrow> app_module list \<Rightarrow> app_module list" where
  "import_closure 0 ms = ms"
| "import_closure (Suc n) ms =
     import_closure n (ms @ remdups (filter (\<lambda>m. m \<notin> set ms) (concat (map (md_imports \<circ> decl_of) ms))))"

definition modules_of :: "app_module \<Rightarrow> app_module list" where
  "modules_of root = import_closure 2 [root]"

definition app_controllers :: "app_module \<Rightarrow> controller list" where
  "app_controllers root = concat (map (md_controllers \<circ> decl_of) (modules_of root))"

lemma modules_of_eq:
  "modules_of AppModule = [AppModule, ConfigProviderModule, DrizzleModule, RedisModule, QueueModule, ObservabilityModule,
     IdempotencyModule, TasksModule, ExecutorModule, DeliveryModule, TerminusModule, PrometheusModule]"
  "modules_of WorkerModule = [WorkerModule, ConfigProviderModule, DrizzleModule, RedisModule, QueueModule, HttpRetryModule,
     ExecutorWorkerModule, DeliveryWorkerModule, MaintenanceModule, HttpModule]"
  by (simp_all add: modules_of_def numeral_2_eq_2 module_decls)

lemma modules_closed:
  "set (concat (map (md_imports \<circ> decl_of) (modules_of AppModule))) \<subseteq> set (modules_of AppModule)"
  "set (concat (map (md_imports \<circ> decl_of) (modules_of WorkerModule))) \<subseteq> set (modules_of WorkerModule)"
  by (simp_all add: modules_of_eq module_decls)

lemma app_controllers_eq:
  "app_controllers AppModule = [HealthController, MetricsController, TasksController, ExecutorController, StreamController]"
  "app_controllers WorkerModule = []"
  by (simp_all add: app_controllers_def modules_of_eq module_decls)

section \<open>Dependencies\<close>

text \<open>What the constructors and factories ask for.\<close>

fun injected :: "token \<Rightarrow> token list" where
  "injected DB_CONNECTION = [DrizzleService, APP_CONFIG]"
| "injected RedisService = [REDIS_OPTIONS]"
| "injected REDIS_OPTIONS = [APP_CONFIG]"
| "injected BullMqAdapter = [QUEUE_CONFIG]"
| "injected QUEUE_ADAPTER = [BullMqAdapter]"
| "injected IdempotencyService = [RedisService]"
| "injected HttpRetryService = [HttpService]"
| "injected PostgresHealthIndicator = [HealthIndicatorService, DrizzleService]"
| "injected RedisHealthIndicator = [HealthIndicatorService, RedisService]"
| "injected TasksRepository = [DB_CONNECTION, EventsRepository]"
| "injected EventsRepository = [DB_CONNECTION]"
| "injected MaintenanceRepository = [DB_CONNECTION]"
| "injected TasksService = [TasksRepository, IdempotencyService, RedisService, QUEUE_ADAPTER]"
| "injected ExecutorService = [TasksRepository, EventsRepository, RedisService, QUEUE_ADAPTER]"
| "injected SseService = [RedisService, TasksRepository, EventsRepository]"
| "injected ApiKeyGuard = [APP_CONFIG]"
| "injected CallbackAuthGuard = [TasksRepository]"
| "injected DispatchProcessor = [QUEUE_CONFIG, TasksRepository, HttpRetryService]"
| "injected CancelProcessor = [QUEUE_CONFIG, TasksRepository, HttpRetryService]"
| "injected WebhookProcessor = [QUEUE_CONFIG, TasksRepository, HttpRetryService]"
| "injected TimeoutSweeperProcessor = [QUEUE_CONFIG, RedisService, MaintenanceRepository, APP_CONFIG]"
| "injected DataRetentionProcessor = [QUEUE_CONFIG, MaintenanceRepository, APP_CONFIG]"
| "injected _ = []"

text \<open>
  What the controllers of a module ask for: the services of their constructors, and what their guards
  do. A guard that is no provider of the module is made by NestJS in it.
\<close>

fun controller_injected :: "app_module \<Rightarrow> token list" where
  "controller_injected ObservabilityModule = [HealthCheckService, PostgresHealthIndicator, RedisHealthIndicator]"
| "controller_injected TasksModule = TasksService # injected ApiKeyGuard"
| "controller_injected ExecutorModule = ExecutorService # injected CallbackAuthGuard"
| "controller_injected DeliveryModule = SseService # injected ApiKeyGuard"
| "controller_injected _ = []"

text \<open>The tokens a module can inject: its own, those its imports export, those of global modules.\<close>

definition visible_in :: "app_module \<Rightarrow> app_module \<Rightarrow> token list" where
  "visible_in root m =
     md_providers (decl_of m) @ concat (map (md_exports \<circ> decl_of) (md_imports (decl_of m)))
       @ concat (map (md_exports \<circ> decl_of) (filter (\<lambda>g. md_global (decl_of g)) (modules_of root)))"

definition resolves :: "app_module \<Rightarrow> app_module \<Rightarrow> bool" where
  "resolves root m \<longleftrightarrow>
     list_all (\<lambda>t. t \<in> set (visible_in root m)) (controller_injected m @ concat (map injected (md_providers (decl_of m))))"

text \<open>
  Both processes can be wired. Every dependency that a provider, a controller or a guard of the API
  process or of the worker process asks for is one its module can see; and the two
  processes share no duty: the worker has no route, and the API process has no job processor.
\<close>

theorem modules_resolve:
  "list_all (resolves AppModule) (modules_of AppModule) \<and> list_all (resolves WorkerModule) (modules_of WorkerModule)
   \<and> app_controllers WorkerModule = []
   \<and> list_all (\<lambda>p. list_all (\<lambda>m. p \<notin> set (md_providers (decl_of m))) (modules_of AppModule)
        \<and> list_ex (\<lambda>m. p \<in> set (md_providers (decl_of m))) (modules_of WorkerModule))
      [DispatchProcessor, CancelProcessor, WebhookProcessor, TimeoutSweeperProcessor, DataRetentionProcessor]"
  by (simp add: resolves_def visible_in_def modules_of_eq module_decls app_controllers_def)

end
