(* ===== verification/HttpApi.thy ===== *)
theory HttpApi
  imports Routes Schemas Middleware Infrastructure Handlers AppModules
begin

text \<open>
  The HTTP server as a whole: \<^verbatim>\<open>src/main.ts\<close> and \<^verbatim>\<open>src/app.module.ts\<close> mount the controllers under
  their version, put the middleware in front and the exception filter behind. \<open>serve\<close> takes one
  request through routing, guard, pipes, handler and filter. NestJS and Express are not part of the
  repository; what they do with the declarations of the code (the order of the stages, the first
  matching route) is written out, and how Express compares a literal part of a path is a parameter.
  \<open>HEAD\<close> and \<open>OPTIONS\<close>, which Express and its CORS handler answer themselves, are left out.
\<close>

section \<open>Routes\<close>

text \<open>The controllers in the order of the modules, each under the default version.\<close>

definition defaultVersion :: string where
  "defaultVersion = ''1''"

definition mount :: "controller \<Rightarrow> (verb \<times> path_part list \<times> endpoint) list" where
  "mount c = map (\<lambda>(v, p, e). (v, Lit (''v'' @ defaultVersion) # base_path c @ p, e)) (methods c)"

definition api_routes :: "(verb \<times> path_part list \<times> endpoint) list" where
  "api_routes = concat (map mount (app_controllers AppModule))"

fun match_path :: "(string \<Rightarrow> string \<Rightarrow> bool) \<Rightarrow> path_part list \<Rightarrow> string list \<Rightarrow> string list option" where
  "match_path same [] [] = Some []"
| "match_path same (Lit l # ps) (x # xs) = (if same l x then match_path same ps xs else None)"
| "match_path same (Param # ps) (x # xs) =
     (if x = [] then None else map_option (Cons x) (match_path same ps xs))"
| "match_path same _ _ = None"

fun find_route ::
  "(string \<Rightarrow> string \<Rightarrow> bool) \<Rightarrow> (verb \<times> path_part list \<times> endpoint) list \<Rightarrow> verb \<Rightarrow> string list
     \<Rightarrow> (endpoint \<times> string list) option" where
  "find_route same [] v xs = None"
| "find_route same ((v', p, e) # rs) v xs =
     (case (if v = v' then match_path same p xs else None) of
        Some ps \<Rightarrow> Some (e, ps)
      | None \<Rightarrow> find_route same rs v xs)"

section \<open>Requests and responses\<close>

record api_request =
  rq_verb :: verb
  rq_url :: string
  rq_segments :: "string list"       \<comment> \<open>the decoded parts of the path\<close>
  rq_protocol :: string
  rq_host :: "string option"
  rq_apiKey :: "string option"
  rq_authorization :: "string option"
  rq_lastEventId :: "string option"
  rq_requestId :: header_value
  rq_body :: json                    \<comment> \<open>as the JSON parser left it\<close>

datatype response_body =
    No_Body
  | Error_Body error_body
  | Created_Body task_created
  | Task_Body "(string \<times> json) list"
  | Stream_Body conn
  | Json_Body json
  | Text_Body string

record api_response =
  rs_status :: nat
  rs_requestId :: string
  rs_body :: response_body

text \<open>Everything the environment decides about one request.\<close>

record api_env =
  ae_key :: "string option"
  ae_same :: "string \<Rightarrow> string \<Rightarrow> bool"
  ae_is_uuid :: "string \<Rightarrow> bool"
  ae_uuid_in :: "string \<Rightarrow> uuid option"
  ae_strict :: "zod \<Rightarrow> zod option"
  ae_parse :: "zod \<Rightarrow> json \<Rightarrow> parse_result"
  ae_schemas :: "zod schema_state"
  ae_insert_fields :: "(string \<times> zod) list"
  ae_create :: create_env
  ae_create_io :: create_io
  ae_cancel :: cancel_env
  ae_cancel_io :: cancel_io
  ae_submit :: submit_env
  ae_submit_io :: submit_io
  ae_find :: io
  ae_postgres :: ping
  ae_redis :: ping
  ae_check :: "health list \<Rightarrow> thrown + json"
  ae_metrics :: string
  ae_uuid :: string
  ae_now :: time

section \<open>Handlers behind their guards and pipes\<close>

definition header_request :: "api_request \<Rightarrow> string list \<Rightarrow> http_request" where
  "header_request rq ps = \<lparr>hdr_xApiKey = rq_apiKey rq, hdr_authorization = rq_authorization rq,
     param_id = (case ps of [] \<Rightarrow> None | i # _ \<Rightarrow> Some i)\<rparr>"

type_synonym outcome = "(thrown + nat \<times> response_body) \<times> world"

definition answer :: "nat \<Rightarrow> ('a \<Rightarrow> response_body) \<Rightarrow> (exn + 'a) \<times> world \<Rightarrow> outcome" where
  "answer n f r = (case r of (Inl e, w) \<Rightarrow> (Inl (thrown_of e), w) | (Inr x, w) \<Rightarrow> (Inr (n, f x), w))"

definition body_of :: "api_env \<Rightarrow> zod \<Rightarrow> json \<Rightarrow> thrown + json" where
  "body_of env sc body = fst (ParseBody (ae_strict env) (ae_parse env) sc body (ae_schemas env))"

definition create_endpoint :: "api_env \<Rightarrow> api_request \<Rightarrow> http_request \<Rightarrow> world \<Rightarrow> outcome" where
  "create_endpoint env rq req w =
     (case apiKey_canActivate (ae_key env) req of
        Inl e \<Rightarrow> (Inl (thrown_of e), w)
      | Inr _ \<Rightarrow>
          (case body_of env (CreateTaskSchema (ae_insert_fields env)) (rq_body rq) of
             Inl x \<Rightarrow> (Inl x, w)
           | Inr dto \<Rightarrow>
               answer 202 Created_Body
                 (create_handler (ae_create env) (ae_create_io env) (rq_protocol rq) (rq_host rq) (read_create dto) w)))"

definition callback_endpoint ::
  "api_env \<Rightarrow> http_request \<Rightarrow> zod \<Rightarrow> json \<Rightarrow> (task \<Rightarrow> json \<Rightarrow> world \<Rightarrow> (exn + unit) \<times> world) \<Rightarrow> world \<Rightarrow> outcome" where
  "callback_endpoint env req sc body handler w =
     (case callback_canActivate (ae_uuid_in env) (ae_find env) req w of
        Inl e \<Rightarrow> (Inl (thrown_of e), w)
      | Inr t \<Rightarrow>
          (case ParseUUIDPipe (ae_is_uuid env) (case param_id req of None \<Rightarrow> [] | Some s \<Rightarrow> s) of
             Inl e \<Rightarrow> (Inl (thrown_of e), w)
           | Inr _ \<Rightarrow>
               (case body_of env sc body of
                  Inl x \<Rightarrow> (Inl x, w)
                | Inr dto \<Rightarrow> answer 204 (\<lambda>_. No_Body) (handler t dto w))))"

definition health_live :: json where
  "health_live = JObj [(''status'', JStr ''ok''), (''info'', JObj []), (''error'', JObj []), (''details'', JObj [])]"

definition run_endpoint :: "api_env \<Rightarrow> api_request \<Rightarrow> endpoint \<Rightarrow> http_request \<Rightarrow> world \<Rightarrow> outcome" where
  "run_endpoint env rq ep req w =
     (case ep of
        Create_Task \<Rightarrow> create_endpoint env rq req w
      | Get_Task \<Rightarrow>
          answer 200 Task_Body (getStatus_route (ae_key env) (ae_is_uuid env) req (ae_find env) w)
      | Cancel_Task \<Rightarrow>
          answer 204 (\<lambda>_. No_Body)
            (cancel_route (ae_key env) (ae_is_uuid env) req (ae_cancel env) (ae_cancel_io env) w)
      | Stream_Task \<Rightarrow>
          answer 200 Stream_Body
            (stream_route (ae_key env) (ae_is_uuid env) req (rq_lastEventId rq) (ae_find env) w)
      | Submit_Result \<Rightarrow>
          callback_endpoint env req SubmitResultSchema (rq_body rq)
            (\<lambda>t dto. submitResult (ae_submit env) (ae_submit_io env) t (read_result dto)) w
      | Update_Progress \<Rightarrow>
          callback_endpoint env req UpdateProgressSchema (rq_body rq)
            (\<lambda>t dto. executor_updateProgress (ae_submit env) (ae_submit_io env) t (read_progress dto)) w
      | Health_Live \<Rightarrow> (Inr (200, Json_Body health_live), w)
      | Health_Ready \<Rightarrow>
          (case ready (ae_check env) (ae_postgres env) (ae_redis env) of
             Inl x \<Rightarrow> (Inl x, w)
           | Inr j \<Rightarrow> (Inr (200, Json_Body j), w))
      | Metrics \<Rightarrow> (Inr (200, Text_Body (ae_metrics env)), w))"

text \<open>A request: the identifier, the route or 404, and the filter on whatever was thrown.\<close>

definition verb_name :: "verb \<Rightarrow> string" where
  "verb_name v = (case v of GET \<Rightarrow> ''GET'' | POST \<Rightarrow> ''POST'' | PUT \<Rightarrow> ''PUT'' | PATCH \<Rightarrow> ''PATCH'' | DELETE \<Rightarrow> ''DELETE'')"

definition dispatch_request :: "api_env \<Rightarrow> api_request \<Rightarrow> world \<Rightarrow> outcome" where
  "dispatch_request env rq w =
     (case find_route (ae_same env) api_routes (rq_verb rq) (rq_segments rq) of
        None \<Rightarrow> (Inl (thrown_of (NotFoundException (''Cannot '' @ verb_name (rq_verb rq) @ '' '' @ rq_url rq))), w)
      | Some (ep, ps) \<Rightarrow> run_endpoint env rq ep (header_request rq ps) w)"

definition serve :: "api_env \<Rightarrow> api_request \<Rightarrow> world \<Rightarrow> api_response \<times> world" where
  "serve env rq w =
     (let rid = snd (requestId_use (ae_uuid env) (rq_requestId rq))
      in case dispatch_request env rq w of
           (Inr (n, b), w') \<Rightarrow> (\<lparr>rs_status = n, rs_requestId = rid, rs_body = b\<rparr>, w')
         | (Inl x, w') \<Rightarrow>
             (case filter_catch (ae_now env) (rq_url rq) x of
                (lvl, n, b) \<Rightarrow> (\<lparr>rs_status = n, rs_requestId = rid, rs_body = Error_Body b\<rparr>, w')))"

end
