(* ===== verification/StoredValues.thy ===== *)
theory StoredValues
  imports System
begin

text \<open>
  What every interleaving keeps of the values themselves: the bounds that the request schemas have
  established survive in the rows, and every published event is on a channel of its own task. A
  second invariant of the transition system of \<open>System\<close>.
\<close>

section \<open>Rows\<close>

definition row_ok :: "task \<Rightarrow> bool" where
  "row_ok t \<longleftrightarrow> 0 \<le> progress t \<and> progress t \<le> 100 \<and> 1 \<le> timeoutSeconds t \<and> timeoutSeconds t \<le> 86400
     \<and> executorUrl t \<noteq> [] \<and> cancelUrl t \<noteq> Some [] \<and> webhookUrl t \<noteq> Some []"

lemma row_ok_created: "create_ok dto \<Longrightarrow> row_ok (row_of_insert i now (create_values env dto))"
  by (simp add: row_ok_def create_ok_def row_of_insert_def create_values_def)

lemma row_ok_set_status: "row_ok (set_status upd to x t) = row_ok t"
  by (simp add: row_ok_def set_status_def apply_patch_def)

lemma row_ok_expire: "row_ok (expire_row env t) = row_ok t"
  by (simp add: expire_row_def row_ok_set_status)

lemma rows_update:
  assumes "tasks_update_rows p f rows = Inr (rows', ret)" and "list_all row_ok rows"
    and "\<And>t. row_ok t \<Longrightarrow> row_ok (f t)"
  shows "list_all row_ok rows'"
  using assms by (auto simp: tasks_update_rows_def list_all_iff set_update_where split: if_splits)

lemma rows_delete: "list_all row_ok rows \<Longrightarrow> list_all row_ok (delete_where p rows)"
  by (auto simp: list_all_iff)

lemma rows_insert:
  assumes "tasks_insert i now (create_values env dto) w = (Inr t, w')" and "create_ok dto" and "list_all row_ok (tasks w)"
  shows "list_all row_ok (tasks w')"
  using assms row_ok_created [OF assms(2)]
  by (auto simp: tasks_insert_def tasks_insert_row_def Let_def split: sum.splits if_splits)

lemma rows_statements:
  fixes w :: world
  assumes "list_all row_ok (tasks w)"
  shows "list_all row_ok (tasks (snd (updateStatus u i frm to x w)))"
    and "list_all row_ok (tasks (snd (cancelTask now u eid dbnow i w)))"
    and "list_all row_ok (tasks (snd (expireTimedOutTasksBatch env n w)))"
    and "progress_ok p \<Longrightarrow> list_all row_ok (tasks (snd (updateProgress u i p w)))"
proof -
  show "list_all row_ok (tasks (snd (updateStatus u i frm to x w)))"
    using assms rows_update [OF _ assms]
    by (auto simp: updateStatus_def row_ok_set_status split: sum.split prod.split)
  show "list_all row_ok (tasks (snd (cancelTask now u eid dbnow i w)))"
    using assms rows_update [OF _ assms]
    by (auto simp: cancelTask_def row_ok_set_status split: sum.split prod.split list.split)
  show "list_all row_ok (tasks (snd (expireTimedOutTasksBatch env n w)))"
    using assms rows_update [OF _ assms]
    by (auto simp: expireTimedOutTasksBatch_def row_ok_expire Let_def split: sum.split prod.split)
  show "list_all row_ok (tasks (snd (updateProgress u i p w)))" if "progress_ok p"
    using assms that rows_update [OF _ assms]
    by (auto simp: updateProgress_def progress_ok_def row_ok_def split: sum.split prod.split)
qed

section \<open>Channels\<close>

definition own_channels :: "world \<Rightarrow> bool" where
  "own_channels w \<longleftrightarrow>
     list_all (\<lambda>(c, ev). \<exists>s. c = task_channel s \<and> db_uuid s = db_uuid (ev_taskId ev)) (published w)"

lemma task_channel_inj: "task_channel a = task_channel b \<longleftrightarrow> a = b"
  by (simp add: task_channel_def)

lemma published_statements [simp]:
  fixes w :: world
  shows "published (snd (cancelTask now u eid dbnow i w)) = published w"
    and "published (snd (expireTimedOutTasksBatch env n w)) = published w"
    and "published (snd (delete_batch ids w)) = published w"
    and "published (snd (insert_event eid now inp w)) = published w"
    and "published (snd (occupy_slot now k ttl w)) = published w"
    and "published (snd (commit_slot now k i w)) = published w"
    and "published (snd (release_slot k w)) = published w"
  by (simp_all add: cancelTask_def expireTimedOutTasksBatch_def delete_batch_def world_defs Let_def
      split: sum.split list.split prod.split)

lemma own_channels_publish:
  "own_channels w \<Longrightarrow> db_uuid (ev_taskId ev) = db_uuid i \<Longrightarrow> own_channels (snd (publish_event i ev w))"
proof -
  assume w: "own_channels w" and "db_uuid (ev_taskId ev) = db_uuid i"
  then have "\<exists>s. task_channel i = task_channel s \<and> db_uuid s = db_uuid (ev_taskId ev)"
    by (intro exI [of _ i]) simp
  moreover have "published (snd (publish_event i ev w)) = published w @ [(task_channel i, ev)]"
    by (simp add: publish_event_def)
  ultimately show ?thesis
    using w unfolding own_channels_def by (simp only: list_all_append list.pred_inject prod.case simp_thms)
qed

section \<open>The invariant\<close>

definition values_ok :: "world \<Rightarrow> bool" where
  "values_ok w \<longleftrightarrow> list_all row_ok (tasks w) \<and> own_channels w"

lemma values_frame: "values_ok w \<Longrightarrow> tasks w' = tasks w \<Longrightarrow> published w' = published w \<Longrightarrow> values_ok w'"
  by (simp add: values_ok_def own_channels_def)

lemma values_updateStatus: "values_ok w \<Longrightarrow> values_ok (snd (updateStatus u i frm to x w))"
  by (simp add: values_ok_def rows_statements own_channels_def)

lemma values_dispatch_catch:
  assumes "values_ok w"
  shows "values_ok (snd (dispatch_catch env io i err w))"
proof -
  have upd: "values_ok (snd (io_call v (updateStatus u i frm to x) w))" for v u frm to x
    by (rule io_call_preserves [where P = values_ok]) (simp_all add: assms values_updateStatus)
  show ?thesis
    using upd by (cases err) (auto simp: dispatch_catch_def Let_def split_beta split: sum.split)
qed

lemma values_step: "sys_step s s' \<Longrightarrow> values_ok (st s) \<Longrightarrow> values_ok (st s')"
proof (induction rule: sys_step.induct)
  case (create_insert env s dto t w)
  moreover have "published w = published (st s)"
    using repo_frames(3) [of "ce_id env" "ce_dbnow env" "create_values env dto" "st s"] create_insert(3) by simp
  ultimately show ?case using rows_insert [OF create_insert(3,2)] by (simp add: values_ok_def own_channels_def)
next
  case (create_undo s i)
  then show ?case by (simp add: values_ok_def deleteById_def rows_delete own_channels_def)
next
  case (publish_step ev s i)
  then show ?case by (simp add: values_ok_def own_channels_publish) (simp add: publish_event_def)
next
  case (claim_step s env i tmo)
  then show ?case by (simp add: claim_def values_updateStatus)
next
  case (dispatch_failed url err s env io i)
  then show ?case by (simp add: values_dispatch_catch)
next
  case (report dto env i s t w)
  then show ?case
    using values_updateStatus [of "st s" "sb_upd env" i "[PROCESSING]" "dto_status dto"
        "(dto_patch dto)\<lparr>set_completedAt := Some (Some (sb_now env))\<rparr>"] by simp
next
  case (progress_step i s p upd)
  then show ?case by (simp add: values_ok_def rows_statements own_channels_def)
next
  case (event_insert inp s eid now ev w)
  have "tasks (snd (insert_event eid now inp (st s))) = tasks (st s)"
    by (simp add: insert_event_def split: sum.split prod.split)
  then have "tasks w = tasks (st s)" "published w = published (st s)"
    using event_insert(2) published_statements(4) [of eid now inp "st s"] by simp_all
  then show ?case by (intro values_frame [OF event_insert(3)]) simp_all
next
  case (cancel_step now upd eid dbnow i s r w)
  then have w: "w = snd (cancelTask now upd eid dbnow (db_uuid i) (st s))" by simp
  show ?case using cancel_step(2) unfolding w by (simp add: values_ok_def rows_statements own_channels_def)
next
  case (sweep_step s env n)
  then show ?case by (simp add: values_ok_def rows_statements own_channels_def)
next
  case (retention_step ids cutoff s)
  then show ?case by (simp add: values_ok_def own_channels_def) (simp add: delete_batch_def rows_delete)
next
  case (slot_commit s now k i)
  show ?case by (rule values_frame [OF slot_commit]) (simp_all add: commit_slot_def)
next
  case (slot_release s k)
  show ?case by (rule values_frame [OF slot_release]) (simp_all add: release_slot_def)
next
  case (enqueue_step q j opts s v)
  show ?case by (rule values_frame [OF enqueue_step(3)]) simp_all
next
  case (slot_occupy s now k ttl)
  show ?case by (rule values_frame [OF slot_occupy]) simp_all
qed simp_all

interpretation kept: inductive_invariant sys_init sys_step "\<lambda>s. values_ok (st s)"
proof unfold_locales
  show "values_ok (st s)" if "sys_init s" for s
    using that by (simp add: sys_init_def values_ok_def empty_world_def own_channels_def)
  show "values_ok (st s')" if "values_ok (st s)" "sys_step s s'" for s s'
    using that(2,1) by (rule values_step)
qed

end
