(* ===== verification/EventFlow.thy ===== *)
theory EventFlow
  imports StoredValues Schemas
begin

text \<open>
  Where events come from. A third invariant of the transition system of \<open>System\<close>: the payload of every
  event is the variant of \<open>TaskEventPayload\<close> (\<^verbatim>\<open>src/modules/delivery/schemas/events.sql.ts\<close>) its type
  asks for, only stored events are published, and an event leaves the log only with the row of its task.
\<close>

section \<open>Payloads\<close>

definition TaskEventPayload :: "task_event_type \<Rightarrow> json \<Rightarrow> bool" where
  "TaskEventPayload ty p =
     (case ty of
        EvProgress \<Rightarrow> (case int_field ''progress'' p of Some n \<Rightarrow> progress_ok n | None \<Rightarrow> False)
      | EvCompleted \<Rightarrow> (case field_of ''data'' p of Some (JObj _) \<Rightarrow> True | _ \<Rightarrow> False)
      | EvFailed \<Rightarrow>
          (case field_of ''error'' p of
             None \<Rightarrow> False
           | Some e \<Rightarrow>
               (case text_field ''code'' e of Some c \<Rightarrow> 1 \<le> length c \<and> length c \<le> 100 | None \<Rightarrow> False)
               \<and> (case text_field ''message'' e of Some m \<Rightarrow> 1 \<le> length m | None \<Rightarrow> False))
      | EvCancelled \<Rightarrow> True)"

definition event_ok :: "task_event \<Rightarrow> bool" where
  "event_ok ev = TaskEventPayload (eventType ev) (ev_payload ev)"

definition input_ok :: "insert_event_input \<Rightarrow> bool" where
  "input_ok inp = TaskEventPayload (input_eventType inp) (payloadFields inp)"

lemma failed_ok:
  assumes "result_ok (ResultFailed er)"
  shows "TaskEventPayload EvFailed (JObj [(''error'', task_error_json er)])"
  using assms by (simp add: TaskEventPayload_def result_ok_def task_error_json_def field_of_def text_field_def)

lemma input_ok_dto: "result_ok dto \<Longrightarrow> input_ok (dto_input i dto)"
  by (cases dto) (auto simp: input_ok_def failed_ok, auto simp: TaskEventPayload_def field_of_def result_ok_def)

lemma input_ok_progress: "progress_ok p \<Longrightarrow> input_ok (ProgressEventInput i p)"
  by (simp add: input_ok_def TaskEventPayload_def int_field_def field_of_def num_int_def)

lemma input_ok_cancelled: "input_ok (CancelledEventInput i)"
  by (simp add: input_ok_def TaskEventPayload_def)

lemma event_ok_bulk: "event_ok (bulk_row env ids evs k)"
  by (simp add: event_ok_def bulk_row_def failed_ok timeoutError_def result_ok_def)

lemma insertEventInTx_ok:
  "insertEventInTx eid now inp evs = Inr (ev, evs') \<Longrightarrow> input_ok inp \<Longrightarrow> evs' = evs @ [ev] \<and> event_ok ev"
  by (auto simp: insertEventInTx_Inr event_ok_def input_ok_def)

section \<open>What a statement does to the log\<close>

definition appends :: "sys \<Rightarrow> sys \<Rightarrow> bool" where
  "appends s s' \<longleftrightarrow> past_events s' = past_events s
     \<and> (\<exists>new. task_events (st s') = task_events (st s) @ new \<and> list_all event_ok new)"

definition prunes :: "sys \<Rightarrow> sys \<Rightarrow> bool" where
  "prunes s s' \<longleftrightarrow> (\<exists>ids. past_events s' = filter (\<lambda>e. ev_taskId e \<in> ids) (task_events (st s)) @ past_events s
     \<and> task_events (st s') = delete_where (\<lambda>e. ev_taskId e \<in> ids) (task_events (st s))
     \<and> (\<forall>i \<in> ids. status_of i (st s') = None))"

lemma appends_frame:
  "past_events s' = past_events s \<Longrightarrow> task_events (st s') = task_events (st s) \<Longrightarrow> appends s s'"
  by (simp add: appends_def)

lemma events_statements [simp]:
  fixes w :: world
  shows "task_events (snd (occupy_slot now k ttl w)) = task_events w"
    and "task_events (snd (commit_slot now k i w)) = task_events w"
    and "task_events (snd (release_slot k w)) = task_events w"
    and "task_events (snd (publish_event i ev w)) = task_events w"
    and "task_events (snd (deleteById i w)) = task_events w"
  by (simp_all add: occupy_slot_def commit_slot_def release_slot_def publish_event_def deleteById_def split: prod.split)

lemma dispatch_catch_frames [simp]:
  fixes w :: world
  shows "task_events (snd (dispatch_catch env io i err w)) = task_events w"
    and "published (snd (dispatch_catch env io i err w)) = published w"
proof -
  have upd: "task_events (snd (io_call v (updateStatus u i frm to x) w)) = task_events w"
    "published (snd (io_call v (updateStatus u i frm to x) w)) = published w" for v u frm to x
    by (rule io_call_preserves; simp)+
  then show "task_events (snd (dispatch_catch env io i err w)) = task_events w"
    "published (snd (dispatch_catch env io i err w)) = published w"
    by (cases err; simp add: dispatch_catch_def Let_def split_beta split: sum.split)+
qed

lemma events_cancelTask:
  fixes w :: world
  obtains new where "task_events (snd (cancelTask now u eid dbnow i w)) = task_events w @ new" "list_all event_ok new"
proof (cases "task_events (snd (cancelTask now u eid dbnow i w)) = task_events w")
  case False
  then obtain ev evs where "insertEventInTx eid dbnow (CancelledEventInput i) (task_events w) = Inr (ev, evs)"
    "task_events (snd (cancelTask now u eid dbnow i w)) = evs"
    by (auto simp: cancelTask_def split: sum.splits prod.splits list.splits)
  with insertEventInTx_ok [OF this(1) input_ok_cancelled] that show ?thesis by simp
qed (use that in simp)

lemma events_batch:
  fixes w :: world
  obtains new where "task_events (snd (expireTimedOutTasksBatch env n w)) = task_events w @ new" "list_all event_ok new"
proof (cases "task_events (snd (expireTimedOutTasksBatch env n w)) = task_events w")
  case False
  then obtain ids m where "task_events (snd (expireTimedOutTasksBatch env n w)) =
      task_events w @ bulk_rows env ids (task_events w) m"
    by (auto simp: expireTimedOutTasksBatch_def Let_def dest!: events_insert_rows_Inr split: sum.splits prod.splits if_splits)
  then show ?thesis using that by (simp add: list_all_iff event_ok_bulk)
qed (use that in simp)

lemma step_log: "sys_step s s' \<Longrightarrow> list_all input_ok (inflight s) \<Longrightarrow> appends s s' \<or> prunes s s'"
proof (induction rule: sys_step.induct)
  case (create_insert env s dto t w)
  have "task_events w = task_events (st s)"
    using arg_cong [OF create_insert(3), of "\<lambda>r. task_events (snd r)"] by simp
  then show ?case by (simp add: appends_frame)
next
  case (report dto env i s t w)
  have "task_events w = task_events (st s)"
    using arg_cong [OF report(2), of "\<lambda>r. task_events (snd r)"] by simp
  then show ?case by (simp add: appends_frame)
next
  case (event_insert inp s eid now ev w)
  then obtain evs where "insertEventInTx eid now inp (task_events (st s)) = Inr (ev, evs)" "task_events w = evs"
    by (auto simp: insert_event_def split: sum.splits prod.splits)
  moreover have "input_ok inp" using event_insert(1,3) by (simp add: list_all_iff)
  ultimately have "task_events w = task_events (st s) @ [ev]" "event_ok ev" using insertEventInTx_ok by blast+
  then show ?case by (simp add: appends_def)
next
  case (cancel_step now upd eid dbnow i s r w)
  then have w: "w = snd (cancelTask now upd eid dbnow (db_uuid i) (st s))" by simp
  show ?case
    by (rule events_cancelTask [of now upd eid dbnow "db_uuid i" "st s"]) (auto simp: appends_def w)
next
  case (sweep_step s env n)
  show ?case by (rule events_batch [of env n "st s"]) (auto simp: appends_def)
next
  case (dispatch_failed url err s env io i)
  show ?case by (simp add: appends_frame)
next
  case (retention_step ids cutoff s)
  have "status_of i (snd (delete_batch ids (st s))) = None" if "i \<in> set ids" for i
    using that by (auto simp: delete_batch_def status_of_def findById_def find_row_None_iff)
  moreover have "task_events (snd (delete_batch ids (st s))) = delete_where (\<lambda>e. ev_taskId e \<in> set ids) (task_events (st s))"
    by (simp add: delete_batch_def)
  ultimately have "prunes s (s\<lparr>st := snd (delete_batch ids (st s)),
      past_events := filter (\<lambda>e. ev_taskId e \<in> set ids) (task_events (st s)) @ past_events s\<rparr>)"
    unfolding prunes_def by (intro exI [of _ "set ids"]) simp
  then show ?case by simp
qed (simp_all add: appends_frame claim_def)

text \<open>So nothing gets lost: an event stays in the log or is among the deleted ones.\<close>

lemma log_grows:
  assumes "appends s s' \<or> prunes s s'"
  shows "set (task_events (st s)) \<union> set (past_events s) \<subseteq> set (task_events (st s')) \<union> set (past_events s')"
  using assms by (auto simp: appends_def prunes_def)

lemma step_published:
  assumes "sys_step s s'"
  shows "snd ` set (published (st s')) \<subseteq> snd ` set (published (st s)) \<union> set (task_events (st s)) \<union> set (past_events s)"
  using assms
proof (induction rule: sys_step.induct)
  case (create_insert env s dto t w)
  then show ?case
    using repo_frames(3) [of "ce_id env" "ce_dbnow env" "create_values env dto" "st s"] by auto
next
  case (report dto env i s t w)
  have "published w = published (st s)"
    using arg_cong [OF report(2), of "\<lambda>r. published (snd r)"] by simp
  then show ?case by auto
next
  case (event_insert inp s eid now ev w)
  then have "published w = published (st s)" using published_statements(4) [of eid now inp "st s"] by simp
  then show ?case by auto
next
  case (publish_step ev s i)
  then show ?case by (auto simp: publish_event_def)
next
  case (cancel_step now upd eid dbnow i s r w)
  then have "published w = published (st s)" using published_statements(1) [of now upd eid dbnow "db_uuid i" "st s"] by simp
  then show ?case by auto
qed (auto simp: claim_def deleteById_def)

lemma step_inflight: "sys_step s s' \<Longrightarrow> list_all input_ok (inflight s) \<Longrightarrow> list_all input_ok (inflight s')"
  by (induction rule: sys_step.induct)
    (auto simp: list_all_iff input_ok_dto input_ok_progress dest: set_remove1_subset [THEN subsetD])

section \<open>The invariant\<close>

definition flow_ok :: "sys \<Rightarrow> bool" where
  "flow_ok s \<longleftrightarrow> list_all event_ok (task_events (st s)) \<and> list_all event_ok (past_events s)
     \<and> list_all input_ok (inflight s)
     \<and> snd ` set (published (st s)) \<subseteq> set (task_events (st s)) \<union> set (past_events s)
     \<and> (\<forall>ev \<in> set (past_events s). status_of (ev_taskId ev) (st s) = None \<and> ev_taskId ev \<in> set (issued s))"

lemma flow_step:
  assumes "sys_step s s'" and "sys_inv s" and "flow_ok s"
  shows "flow_ok s'"
proof -
  have inp: "list_all input_ok (inflight s)" using assms(3) by (simp add: flow_ok_def)
  note log = step_log [OF assms(1) inp]
  have good: "set (issued s) \<subseteq> set (issued s')" "\<And>i. status_move (i \<notin> set (issued s)) (status_of i (st s)) (status_of i (st s'))"
    using good_sys_step [OF assms(1,2)] by (simp_all add: good_step_def)
  have gone: "status_of i (st s') = None" if "status_of i (st s) = None" "i \<in> set (issued s)" for i
    using good(2) [of i] that by (auto simp: status_move_def)
  have known: "ev_taskId ev \<in> set (issued s)" if "ev \<in> set (task_events (st s))" for ev
    using assms(2) that by (auto simp: sys_inv_def known_ids_def)
  have "list_all event_ok (task_events (st s')) \<and> list_all event_ok (past_events s')
      \<and> (\<forall>ev \<in> set (past_events s'). status_of (ev_taskId ev) (st s') = None \<and> ev_taskId ev \<in> set (issued s'))"
    using log
  proof
    assume "appends s s'"
    then show ?thesis using assms(3) gone good(1) by (auto simp: appends_def flow_ok_def)
  next
    assume "prunes s s'"
    moreover have "ev_taskId ev \<in> set (issued s')" if "ev \<in> set (task_events (st s)) \<union> set (past_events s)" for ev
      using that known good(1) assms(3) by (auto simp: flow_ok_def)
    ultimately show ?thesis using assms(3) gone by (auto simp: prunes_def flow_ok_def list_all_iff)
  qed
  moreover have "snd ` set (published (st s')) \<subseteq> set (task_events (st s')) \<union> set (past_events s')"
    using step_published [OF assms(1)] log_grows [OF log] assms(3) unfolding flow_ok_def by blast
  ultimately show ?thesis using step_inflight [OF assms(1) inp] by (simp add: flow_ok_def)
qed

interpretation flow: inductive_invariant sys_init sys_step "\<lambda>s. sys_inv s \<and> flow_ok s"
proof unfold_locales
  show "sys_inv s \<and> flow_ok s" if "sys_init s" for s
    using that sys_init_inv [OF that] by (simp add: sys_init_def flow_ok_def empty_world_def)
  show "sys_inv s' \<and> flow_ok s'" if "sys_inv s \<and> flow_ok s" "sys_step s s'" for s s'
    using that flow_step run.invar_step by blast
qed

lemma log_grows_steps:
  assumes "sys_step\<^sup>*\<^sup>* s s'" and "reach sys_init sys_step s"
  shows "set (task_events (st s)) \<union> set (past_events s) \<subseteq> set (task_events (st s')) \<union> set (past_events s')"
  using assms(1)
proof (induction rule: rtranclp_induct)
  case (step y z)
  have "list_all input_ok (inflight y)"
    using flow.invar_reach [OF reach_steps [OF step.hyps(1) assms(2)]] by (simp add: flow_ok_def)
  from log_grows [OF step_log [OF step.hyps(2) this]] step.IH show ?case by blast
qed simp

text \<open>An event that was stored before, or that is published, is in the log as long as its task exists.\<close>

lemma still_logged:
  assumes "reach sys_init sys_step s" and "ev \<in> set (task_events (st s)) \<union> set (past_events s)"
    and "status_of (ev_taskId ev) (st s) \<noteq> None"
  shows "ev \<in> set (task_log (task_events (st s)) (ev_taskId ev))"
  using flow.invar_reach [OF assms(1)] assms(2,3) by (auto simp: flow_ok_def task_log_def)

end
