(* ===== verification/HttpSteps.thy ===== *)
theory HttpSteps
  imports HttpApi EventFlow SseDelivery
begin

text \<open>
  What a client of the HTTP server can rely on. First the exceptions: the ones a client can provoke
  (below 500) are raised before any effect. Then every request as a step of the transition system, so
  that the invariants of \<open>System\<close> and \<open>StoredValues\<close> hold of the running server.
\<close>

section \<open>Exceptions of the handlers\<close>

text \<open>An exception that is not a NestJS one: the client sees a plain 500.\<close>

fun internal :: "exn \<Rightarrow> bool" where
  "internal (HttpException _ _) = False"
| "internal _ = True"

lemma internal_iff: "internal e \<longleftrightarrow> thrown_of e = ThrownOther"
  by (cases e) (simp_all add: thrown_of_def)

text \<open>A statement whose errors are internal, whatever its verdict.\<close>

definition plain :: "(exn + 'a) \<times> 'w \<Rightarrow> bool" where
  "plain r \<longleftrightarrow> (case fst r of Inl e \<Rightarrow> internal e | Inr _ \<Rightarrow> True)"

lemma plain_Inr [simp]: "plain (Inr x, w)"
  by (simp add: plain_def)

lemma plain_Inl [simp]: "plain (Inl e, w) \<longleftrightarrow> internal e"
  by (simp add: plain_def)

lemma plain_io: "plain (f w) \<Longrightarrow> plain (io_call v f w)"
  by (cases v) simp_all

lemma plain_bind:
  assumes "plain p" and "\<And>x w. fst p = Inr x \<Longrightarrow> plain (g x w)"
  shows "plain (case p of (Inl e, w) \<Rightarrow> (Inl e, f e w) | (Inr x, w) \<Rightarrow> g x w)"
  using assms by (cases p; cases "fst p") simp_all

lemma plain_statements:
  fixes w :: world
  shows "plain (tasks_insert gen now dto w)" and "plain (updateStatus u i frm to x w)"
    and "plain (updateProgress u i p w)" and "plain (cancelTask now u eid dbnow i w)"
    and "plain (insert_event eid now inp w)" and "plain (publish_event i ev w)"
    and "plain (enqueue_job v q j opts w)" and "plain (find_task i w)" and "plain (occupy_slot now k ttl w)"
proof -
  show "plain (enqueue_job v q j opts w)"
    using enqueue_job_Done [of q j opts w] enqueue_job_fails [of v q j opts w]
    by (cases "v = Done") (simp_all add: plain_def)
qed (auto simp: plain_def tasks_insert_def tasks_insert_row_def updateStatus_def updateProgress_def
    cancelTask_def tasks_update_rows_def world_defs insertEventInTx_def events_insert_row_def Let_def
    split: sum.splits prod.splits list.splits if_splits)

lemma plain_create_steps: "plain (create_steps env io dto b w)"
proof -
  have q: "plain (case enqueue_job v q j opts w1 of (Inl e, w2) \<Rightarrow> (Inl e, g e w2) | (Inr _, w2) \<Rightarrow> (Inr x, h w2))"
    for v q j opts w1 g h and x :: task_created
    by (rule plain_bind) (simp_all add: plain_statements)
  show ?thesis
    unfolding create_steps_def by (rule plain_bind) (simp_all add: plain_io plain_statements q)
qed

lemma plain_submit_tail: "plain (submit_tail env io t inp w)"
proof -
  have "plain (case io_call v (publish_event i ev) w1 of (Inl e, w2) \<Rightarrow> (Inl e, w2)
      | (Inr _, w2) \<Rightarrow> if c then enqueue_job v' q j opts w2 else (Inr (), w2))" for v i ev w1 c v' q j opts
    by (rule plain_bind [where f = "\<lambda>_ w. w"]) (simp_all add: plain_io plain_statements)
  then show ?thesis
    unfolding submit_tail_def by (intro plain_bind [where f = "\<lambda>_ w. w"]) (simp_all add: plain_io plain_statements)
qed

lemma plain_submitResult: "plain (submitResult env io t dto w)"
proof -
  have "plain (case io_call v (updateStatus u i frm to x) w of (Inl e, w1) \<Rightarrow> (Inl e, w1)
      | (Inr y, w1) \<Rightarrow> case y of None \<Rightarrow> (Inr (), w1) | Some _ \<Rightarrow> submit_tail env io t inp w1)" for v u i frm to x inp
    by (rule plain_bind [where f = "\<lambda>_ w. w"]) (auto simp: plain_io plain_statements plain_submit_tail split: option.split)
  moreover have "submitResult env io t dto w =
      (case io_call (sio_update io)
             (updateStatus (sb_upd env) (task_id t) [PROCESSING] (dto_status dto)
                ((dto_patch dto)\<lparr>set_completedAt := Some (Some (sb_now env))\<rparr>)) w of
        (Inl e, w1) \<Rightarrow> (Inl e, w1)
      | (Inr y, w1) \<Rightarrow> case y of None \<Rightarrow> (Inr (), w1) | Some _ \<Rightarrow> submit_tail env io t (dto_input (task_id t) dto) w1)"
    by (auto simp: submitResult_eq split: prod.split sum.split option.split)
  ultimately show ?thesis by simp
qed

lemma plain_updateProgress: "plain (executor_updateProgress env io t p w)"
proof -
  have "plain (case io_call v (insert_event a b inp) w1 of (Inl e, w2) \<Rightarrow> (Inl e, w2)
      | (Inr ev, w2) \<Rightarrow> io_call v' (publish_event i ev) w2)" for v a b inp w1 v' i
    by (rule plain_bind [where f = "\<lambda>_ w. w"]) (simp_all add: plain_io plain_statements)
  then show ?thesis
    unfolding executor_updateProgress_def
    by (intro plain_bind [where f = "\<lambda>_ w. w"]) (simp_all add: plain_io plain_statements)
qed

section \<open>Refusals have no effect\<close>

text \<open>
  What a handler run from \<open>w\<close> may answer: a NestJS exception below 500 comes with one of the
  statuses \<open>codes\<close> and with the stores as they were.
\<close>

definition refuses :: "nat set \<Rightarrow> world \<Rightarrow> (exn + 'a) \<times> world \<Rightarrow> bool" where
  "refuses codes w r \<longleftrightarrow> (\<forall>n m. fst r = Inl (HttpException n m) \<longrightarrow> n \<in> codes \<and> snd r = w)"

lemma refuses_plain: "plain r \<Longrightarrow> refuses codes w r"
  by (auto simp: refuses_def plain_def)

lemma refuses_mono: "refuses c w r \<Longrightarrow> c \<subseteq> c' \<Longrightarrow> refuses c' w r"
  by (auto simp: refuses_def)

lemma refuses_pair [simp]:
  "refuses codes w (Inr x, w')"
  "refuses codes w (Inl e, w') \<longleftrightarrow> (\<forall>n m. e = HttpException n m \<longrightarrow> n \<in> codes \<and> w' = w)"
  by (auto simp: refuses_def)

lemma occupySlot_refused: "fst (occupySlot now k ttl m) \<noteq> Acquired \<Longrightarrow> snd (occupySlot now k ttl m) = m"
  by (auto simp: occupySlot_def OCCUPY_SCRIPT_def redis_set_nx_ex_def split: prod.splits option.splits if_splits)

lemma occupy_slot_refused:
  "io_call v (occupy_slot now k ttl) w = (Inr r, w1) \<Longrightarrow> r \<noteq> Acquired \<Longrightarrow> w1 = w"
  using occupySlot_refused [of now k ttl "redis w"] by (auto simp: io_call_Inr occupy_slot_def split: prod.splits)

lemma refuses_create: "refuses {409} w (create env io dto b w)"
proof (cases "\<exists>k. dto_idempotencyKey dto = Some k \<and> k \<noteq> []")
  case False
  then show ?thesis
    using refuses_plain [OF plain_create_steps] by (auto simp: create_def split: option.split)
next
  case True
  then obtain k where k: "dto_idempotencyKey dto = Some k" "k \<noteq> []" by blast
  let ?p = "io_call (io_occupy io) (occupy_slot (ce_occupy env) k IDEMPOTENCY_TTL_SECONDS) w"
  have "plain ?p" by (intro plain_io plain_statements)
  moreover have "snd ?p = w" if "fst ?p = Inr Pending"
    using occupy_slot_refused [of "io_occupy io" "ce_occupy env" k IDEMPOTENCY_TTL_SECONDS w Pending "snd ?p"] that
    by (metis occupy_result.distinct(1) prod.collapse)
  ultimately show ?thesis
    using k refuses_plain [OF plain_create_steps]
    by (cases ?p; cases "fst ?p") (auto simp: create_def plain_def split: occupy_result.split)
qed

lemma refuses_create_handler: "refuses {409, 500} w (create_handler env io protocol host dto w)"
  using refuses_mono [OF refuses_create, of "{409, 500}"] by (simp add: create_handler_def)

lemma cancelTask_none: "io_call v (cancelTask now u eid dbnow i) w = (Inr None, w1) \<Longrightarrow> w1 = w"
  by (auto simp: io_call_Inr cancelTask_def split: sum.splits prod.splits list.splits)

lemma refuses_cancel: "refuses {404, 409} w (cancel env io s w)"
proof -
  let ?p = "io_call (io_cancel io) (cancelTask (cn_now env) (cn_upd env) (cn_eid env) (cn_dbnow env) (db_uuid s)) w"
  have "plain ?p" by (intro plain_io plain_statements)
  then have err: "internal e" if "fst ?p = Inl e" for e using that by (simp add: plain_def)
  have found: "plain (case io_call v (publish_event s ev) w1 of (Inl e, w2) \<Rightarrow> (Inl e, w2)
      | (Inr _, w2) \<Rightarrow> if c then enqueue_job v' q j opts w2 else (Inr (), w2))" for v ev w1 c v' q j opts
    by (rule plain_bind [where f = "\<lambda>_ w. w"]) (simp_all add: plain_io plain_statements)
  have lost: "refuses {404, 409} w (case io_call v (find_task i) w of
      (Inl e, w2) \<Rightarrow> (Inl e, w2) | (Inr None, w2) \<Rightarrow> (Inl (NotFoundException a), w2)
      | (Inr (Some t), w2) \<Rightarrow> (Inl (ConflictException (b t)), w2))" for v i a b
    by (cases v; cases "findById i w") (simp_all add: find_task_def)
  obtain r w1 where p: "?p = (r, w1)" by fastforce
  show ?thesis
  proof (cases r)
    case (Inl e)
    then show ?thesis using err by (cases e) (simp_all add: cancel_def p)
  next
    case (Inr x)
    show ?thesis
    proof (cases x)
      case None
      then have "w1 = w" using p Inr cancelTask_none by blast
      then show ?thesis using lost by (simp add: cancel_def p Inr None)
    next
      case (Some y)
      then show ?thesis using refuses_plain [OF found] by (cases y) (simp add: cancel_def p Inr)
    qed
  qed
qed

section \<open>Outcomes of a request\<close>

definition missing_host :: string where
  "missing_host = ''Host header is missing - check reverse proxy config''"

text \<open>
  What \<open>run_endpoint\<close> may yield from the stores \<open>w\<close>: a NestJS exception or a validation error
  leaves them as they were, and the statuses are the ones of the controllers.
\<close>

fun sound_result :: "world \<Rightarrow> thrown + nat \<times> response_body \<Rightarrow> world \<Rightarrow> bool" where
  "sound_result w (Inl (ThrownHttp n res m)) w' \<longleftrightarrow>
     w' = w \<and> res = ResponseObject (Some (MsgText m)) \<and> n \<in> {400, 401, 404, 409, 500} \<and> (n = 500 \<longrightarrow> m = missing_host)"
| "sound_result w (Inl (ThrownZod is)) w' \<longleftrightarrow> w' = w"
| "sound_result w (Inl ThrownOther) w' \<longleftrightarrow> True"
| "sound_result w (Inr (n, b)) w' \<longleftrightarrow> n \<in> {200, 202, 204} \<and> (\<forall>e. b \<noteq> Error_Body e)"

definition sound :: "world \<Rightarrow> outcome \<Rightarrow> bool" where
  "sound w p = sound_result w (fst p) (snd p)"

lemma sound_thrown:
  "(\<And>n m. e = HttpException n m \<Longrightarrow> w' = w \<and> n \<in> {400, 401, 404, 409, 500} \<and> (n = 500 \<longrightarrow> m = missing_host)) \<Longrightarrow>
   sound w (Inl (thrown_of e), w')"
  by (cases e) (simp_all add: sound_def thrown_of_def)

lemma sound_answer:
  assumes "refuses codes w r" and "codes \<subseteq> {400, 401, 404, 409}" and "n \<in> {200, 202, 204}" and "\<And>x e. f x \<noteq> Error_Body e"
  shows "sound w (answer n f r)"
proof -
  obtain y w' where r: "r = (y, w')" by fastforce
  show ?thesis
  proof (cases y)
    case (Inl e)
    have "sound w (Inl (thrown_of e), w')"
      by (rule sound_thrown) (use assms(1,2) r Inl in auto)
    then show ?thesis by (simp add: answer_def r Inl)
  next
    case (Inr x)
    then show ?thesis using assms(3,4) by (simp add: answer_def r sound_def)
  qed
qed

lemma body_of_thrown: "body_of env sc body = Inl x \<Longrightarrow> sound w (Inl x, w)"
  by (auto simp: body_of_def ParseBody_def parse_or_throw_def thrown_of_def sound_def split: prod.splits parse_result.splits)

lemma apiKey_code: "apiKey_canActivate key req = Inl (HttpException n m) \<Longrightarrow> n = 401"
  by (auto simp: apiKey_canActivate_def guarded.compare_decides split: option.splits if_splits)

lemma pipe_code: "ParseUUIDPipe is_uuid s = Inl e \<Longrightarrow> \<exists>m. e = BadRequestException m"
  by (auto simp: ParseUUIDPipe_def split: if_splits)

lemma refuses_api_route:
  assumes "\<And>w. refuses codes w (handler w)"
  shows "refuses (insert 401 codes) w (api_route key req handler w)"
proof (cases "apiKey_canActivate key req")
  case (Inl e)
  then show ?thesis using apiKey_code [of key req] by (simp add: api_route_def)
next
  case (Inr b)
  then show ?thesis using refuses_mono [OF assms] by (simp add: api_route_def subset_insertI)
qed

lemma refuses_id_route:
  assumes "\<And>i w. refuses codes w (handler i w)"
  shows "refuses (insert 401 (insert 400 codes)) w (id_route key is_uuid req handler w)"
proof -
  have "refuses (insert 400 codes) w (case ParseUUIDPipe is_uuid s of Inl e \<Rightarrow> (Inl e, w) | Inr i \<Rightarrow> handler i w)" for s w
    using refuses_mono [OF assms, of "insert 400 codes"] pipe_code [of is_uuid s] by (auto split: sum.split)
  then show ?thesis unfolding id_route_def by (intro refuses_api_route) blast
qed

lemma refuses_reading:
  "refuses {404} w (getStatus_handler v i w, w)" "refuses {404} w (sse_stream v i a w, w)"
  by (cases v; cases "findById (db_uuid i) w";
      auto simp: getStatus_handler_def getStatus_def sse_stream_def find_task_def)+

lemma sound_create: "sound w (create_endpoint env rq req w)"
proof (cases "apiKey_canActivate (ae_key env) req")
  case (Inl e)
  have "sound w (Inl (thrown_of e), w)"
    by (rule sound_thrown) (use Inl in \<open>auto dest: apiKey_code\<close>)
  then show ?thesis by (simp add: create_endpoint_def Inl)
next
  case key: (Inr b)
  show ?thesis
  proof (cases "body_of env (CreateTaskSchema (ae_insert_fields env)) (rq_body rq)")
    case (Inl x)
    then show ?thesis using body_of_thrown by (simp add: create_endpoint_def key)
  next
    case (Inr dto)
    let ?r = "create_handler (ae_create env) (ae_create_io env) (rq_protocol rq) (rq_host rq) (read_create dto) w"
    have "sound w (answer 202 Created_Body ?r)"
    proof (cases "truthy (rq_host rq)")
      case True
      then have "refuses {409} w ?r" using refuses_create by (simp add: create_handler_def)
      then show ?thesis by (rule sound_answer) simp_all
    next
      case False
      then show ?thesis
        by (simp add: create_handler_def answer_def sound_def thrown_of_def missing_host_def)
    qed
    then show ?thesis by (simp add: create_endpoint_def key Inr)
  qed
qed

lemma sound_callback:
  assumes "\<And>t dto. plain (handler t dto w)"
  shows "sound w (callback_endpoint env req sc body handler w)"
proof (cases "callback_canActivate (ae_uuid_in env) (ae_find env) req w")
  case (Inl e)
  have "sound w (Inl (thrown_of e), w)"
    by (rule sound_thrown) (use Inl callback_refusal_codes in fastforce)
  then show ?thesis by (simp add: callback_endpoint_def Inl)
next
  case guard: (Inr t)
  let ?s = "case param_id req of None \<Rightarrow> [] | Some s \<Rightarrow> s"
  show ?thesis
  proof (cases "ParseUUIDPipe (ae_is_uuid env) ?s")
    case (Inl e)
    then show ?thesis using pipe_code [OF Inl] by (auto simp: callback_endpoint_def guard sound_def thrown_of_def)
  next
    case pipe: (Inr i)
    show ?thesis
    proof (cases "body_of env sc body")
      case (Inl x)
      then show ?thesis using body_of_thrown by (simp add: callback_endpoint_def guard pipe)
    next
      case (Inr dto)
      have "sound w (answer 204 (\<lambda>_. No_Body) (handler t dto w))"
        by (rule sound_answer [OF refuses_plain [OF assms], of "{}"]) simp_all
      then show ?thesis by (simp add: callback_endpoint_def guard pipe Inr)
    qed
  qed
qed

lemma sound_endpoint: "ep \<noteq> Health_Ready \<Longrightarrow> sound w (run_endpoint env rq ep req w)"
proof (cases ep)
  case Get_Task
  then show ?thesis
    unfolding run_endpoint_def getStatus_route_def
    by (simp, intro sound_answer [OF refuses_id_route [OF refuses_reading(1)]]) auto
next
  case Cancel_Task
  then show ?thesis
    unfolding run_endpoint_def cancel_route_def
    by (simp, intro sound_answer [OF refuses_id_route [OF refuses_cancel]]) auto
next
  case Stream_Task
  then show ?thesis
    unfolding run_endpoint_def stream_route_def
    by (simp, intro sound_answer [OF refuses_id_route [OF refuses_reading(2)]]) auto
next
  case Health_Live
  then show ?thesis by (simp add: run_endpoint_def sound_def)
next
  case Metrics
  then show ?thesis by (simp add: run_endpoint_def sound_def)
qed (simp_all add: run_endpoint_def sound_create sound_callback plain_submitResult plain_updateProgress)

lemma sound_not_found: "sound w (Inl (thrown_of (NotFoundException m)), w)"
  by (simp add: sound_def thrown_of_def)

lemma sound_dispatch:
  "(\<And>ps. find_route (ae_same env) api_routes (rq_verb rq) (rq_segments rq) \<noteq> Some (Health_Ready, ps)) \<Longrightarrow>
   sound w (dispatch_request env rq w)"
  unfolding dispatch_request_def by (auto simp del: append.simps split: option.split intro!: sound_endpoint sound_not_found)

section \<open>Requests as steps\<close>

lemma serve_world: "snd (serve env rq w) = snd (dispatch_request env rq w)"
  by (simp add: serve_def Let_def split: prod.split sum.split)

lemma answer_world [simp]: "snd (answer n f r) = snd r"
  by (simp add: answer_def split: prod.split sum.split)

definition api_env_ok :: "api_env \<Rightarrow> bool" where
  "api_env_ok env \<longleftrightarrow> zod_laws (ae_strict env) (ae_parse env) \<and> cache_ok (ae_strict env) (ae_schemas env)"

lemma create_endpoint_world:
  assumes "api_env_ok env"
  obtains "snd (create_endpoint env rq req w) = w"
  | dto where "create_ok dto"
    "snd (create_endpoint env rq req w) =
       snd (create_handler (ae_create env) (ae_create_io env) (rq_protocol rq) (rq_host rq) dto w)"
proof (cases "apiKey_canActivate (ae_key env) req")
  case key: (Inr b)
  show ?thesis
  proof (cases "body_of env (CreateTaskSchema (ae_insert_fields env)) (rq_body rq)")
    case (Inr dto)
    then have "create_ok (read_create dto)"
      using create_body_ok(1) assms unfolding body_of_def api_env_ok_def by blast
    then show ?thesis by (rule that(2)) (simp add: create_endpoint_def key Inr)
  qed (use key in \<open>auto intro: that(1) simp: create_endpoint_def\<close>)
qed (auto intro: that(1) simp: create_endpoint_def)

lemma callback_endpoint_world:
  obtains "snd (callback_endpoint env req sc body handler w) = w"
  | t dto where "callback_canActivate (ae_uuid_in env) (ae_find env) req w = Inr t" "body_of env sc body = Inr dto"
    "snd (callback_endpoint env req sc body handler w) = snd (handler t dto w)"
proof (cases "callback_canActivate (ae_uuid_in env) (ae_find env) req w")
  case guard: (Inr t)
  show ?thesis
  proof (cases "ParseUUIDPipe (ae_is_uuid env) (case param_id req of None \<Rightarrow> [] | Some s \<Rightarrow> s)")
    case pipe: (Inr i)
    show ?thesis
      by (cases "body_of env sc body") (auto intro: that simp: callback_endpoint_def guard pipe)
  qed (use guard in \<open>auto intro: that(1) simp: callback_endpoint_def\<close>)
qed (auto intro: that(1) simp: callback_endpoint_def)

lemma id_route_world:
  obtains "snd (id_route key is_uuid req handler w) = w"
  | s where "snd (id_route key is_uuid req handler w) = snd (handler s w)"
  by (cases "apiKey_canActivate key req"; cases "ParseUUIDPipe is_uuid (case param_id req of None \<Rightarrow> [] | Some s \<Rightarrow> s)")
    (auto simp: id_route_def api_route_def)

lemma endpoint_step:
  assumes "api_env_ok env" and "ce_id (ae_create env) \<notin> set ids"
  shows "snd (run_endpoint env rq ep req w) = w
    \<or> handler_step (w, ids) (snd (run_endpoint env rq ep req w), ids)
    \<or> handler_step (w, ids) (snd (run_endpoint env rq ep req w), ce_id (ae_create env) # ids)"
proof (cases ep)
  case Create_Task
  then have run: "run_endpoint env rq ep req w = create_endpoint env rq req w" by (simp add: run_endpoint_def)
  show ?thesis
    unfolding run
    by (rule create_endpoint_world [OF assms(1), of rq req w]) (use h_create [OF assms(2)] in auto)
next
  case Submit_Result
  show ?thesis
  proof (rule callback_endpoint_world [of env req SubmitResultSchema "rq_body rq"
        "\<lambda>t dto. submitResult (ae_submit env) (ae_submit_io env) t (read_result dto)" w])
    fix t dto
    assume guard: "callback_canActivate (ae_uuid_in env) (ae_find env) req w = Inr t"
      and body: "body_of env SubmitResultSchema (rq_body rq) = Inr dto"
      and run: "snd (callback_endpoint env req SubmitResultSchema (rq_body rq)
        (\<lambda>t dto. submitResult (ae_submit env) (ae_submit_io env) t (read_result dto)) w) =
        snd (submitResult (ae_submit env) (ae_submit_io env) t (read_result dto) w)"
    have "result_ok (read_result dto)"
      using result_body_ok assms(1) body unfolding body_of_def api_env_ok_def by blast
    then have "handler_step (w, ids) (snd (submitResult_handler (ae_uuid_in env) (ae_find env) (ae_submit env)
        (ae_submit_io env) req (read_result dto) w), ids)"
      by (rule h_result)
    then show ?thesis using run by (simp add: run_endpoint_def Submit_Result submitResult_handler_def guard)
  qed (simp add: run_endpoint_def Submit_Result)
next
  case Update_Progress
  show ?thesis
  proof (rule callback_endpoint_world [of env req UpdateProgressSchema "rq_body rq"
        "\<lambda>t dto. executor_updateProgress (ae_submit env) (ae_submit_io env) t (read_progress dto)" w])
    fix t dto
    assume guard: "callback_canActivate (ae_uuid_in env) (ae_find env) req w = Inr t"
      and body: "body_of env UpdateProgressSchema (rq_body rq) = Inr dto"
      and run: "snd (callback_endpoint env req UpdateProgressSchema (rq_body rq)
        (\<lambda>t dto. executor_updateProgress (ae_submit env) (ae_submit_io env) t (read_progress dto)) w) =
        snd (executor_updateProgress (ae_submit env) (ae_submit_io env) t (read_progress dto) w)"
    have "progress_ok (read_progress dto)"
      using progress_body_ok assms(1) body unfolding body_of_def api_env_ok_def by blast
    then have "handler_step (w, ids) (snd (updateProgress_handler (ae_uuid_in env) (ae_find env) (ae_submit env)
        (ae_submit_io env) req (read_progress dto) w), ids)"
      by (rule h_progress)
    then show ?thesis using run by (simp add: run_endpoint_def Update_Progress updateProgress_handler_def guard)
  qed (simp add: run_endpoint_def Update_Progress)
next
  case Cancel_Task
  show ?thesis
    by (rule id_route_world [of "ae_key env" "ae_is_uuid env" req "cancel (ae_cancel env) (ae_cancel_io env)" w])
      (auto simp: run_endpoint_def Cancel_Task cancel_route_def intro: h_cancel)
next
  case Get_Task
  show ?thesis
    by (rule id_route_world [of "ae_key env" "ae_is_uuid env" req "\<lambda>i w. (getStatus_handler (ae_find env) i w, w)" w])
      (simp_all add: run_endpoint_def Get_Task getStatus_route_def)
next
  case Stream_Task
  show ?thesis
    by (rule id_route_world [of "ae_key env" "ae_is_uuid env" req
          "\<lambda>i w. (sse_stream (ae_find env) i (parseLastEventId (rq_lastEventId rq)) w, w)" w])
      (simp_all add: run_endpoint_def Stream_Task stream_route_def)
qed (simp_all add: run_endpoint_def split: sum.split)

text \<open>One step of the running program: a request, or one of the jobs of the worker process.\<close>

inductive api_step :: "world \<times> uuid list \<Rightarrow> world \<times> uuid list \<Rightarrow> bool" where
  request: "api_env_ok env \<Longrightarrow> ce_id (ae_create env) \<notin> set ids \<Longrightarrow>
     api_step (w, ids) (snd (serve env rq w), ce_id (ae_create env) # ids)"
| dispatch_job: "others ids ids' m \<Longrightarrow>
     api_step (w, ids) (snd (snd (dispatch_process env io net rnd m i tmo w)), ids')"
| sweep_job: "api_step (w, ids) (snd (sweep_process env w), ids)"
| retention_job: "api_step (w, ids) (snd (deleteOldData back v now days w), ids)"

lemma run_api:
  assumes "api_step c c'" and "reach sys_init sys_step s" and "covers s c"
  shows "run_to (snd c') s (fst c')"
  using assms(1)
proof cases
  case (request env ids w rq)
  let ?ids = "ce_id (ae_create env) # ids"
  have s: "st s = w" "set (issued s) \<subseteq> set ids" using assms(3) request(1) by (simp_all add: covers_def)
  have "snd (serve env rq w) = w \<or> handler_step (w, ids) (snd (serve env rq w), ids)
      \<or> handler_step (w, ids) (snd (serve env rq w), ?ids)"
    using endpoint_step [OF request(3,4)] by (auto simp: serve_world dispatch_request_def split: option.split)
  moreover have "run_to ?ids s w" using s run_refl [of s ?ids] by auto
  moreover have "run_to ids' s w'" if "handler_step (w, ids) (w', ids')" for w' ids'
    using run_handler [OF that assms(2)] assms(3) request(1) by simp
  ultimately have "run_to ?ids s (snd (serve env rq w))"
    using run_mono [of ids s "snd (serve env rq w)" ?ids] by auto
  then show ?thesis by (simp add: request(2))
next
  case (dispatch_job ids ids' m w env io net rnd i tmo)
  then show ?thesis using run_handler [OF h_dispatch [OF dispatch_job(3)] assms(2)] assms(3) by simp
next
  case (sweep_job w ids env)
  then show ?thesis using run_handler [OF h_sweep assms(2)] assms(3) by simp
next
  case (retention_job w ids bk v now days)
  then show ?thesis using run_handler [OF h_retention assms(2)] assms(3) by simp
qed

interpretation server: simulated_system handler_init api_step sys_init sys_step covers
proof unfold_locales
  show "\<exists>a. sys_init a \<and> covers a c" if "handler_init c" for c
    using that by (auto simp: handler_init_def sys_init_def covers_def)
  show "\<exists>a'. sys_step\<^sup>*\<^sup>* a a' \<and> covers a' c'"
    if "reach sys_init sys_step a" "covers a c" "api_step c c'" for a c c'
    using run_api [OF that(3,1,2)] by (auto simp: run_with_def covers_def)
qed

end
