(* ===== verification/HttpGuarantees.thy ===== *)
theory HttpGuarantees
  imports HttpSteps
begin

text \<open>
  The properties of the HTTP server: what its responses say, who gets through, that refusals have no
  effect, and that a running server stays within what has been shown of the transition system.
\<close>

section \<open>A request to apply the properties to\<close>

definition sample_api :: api_env where
  "sample_api =
     \<lparr> ae_key = Some ''key'', ae_same = (=), ae_is_uuid = (\<lambda>_. True), ae_uuid_in = Some,
       ae_strict = sample_strict, ae_parse = sample_parse, ae_schemas = no_schemas,
       ae_insert_fields = sample_insert_fields, ae_create = sample_env, ae_create_io = all_done,
       ae_cancel = \<lparr>cn_now = 7, cn_upd = 8, cn_dbnow = 9, cn_eid = ''c''\<rparr>, ae_cancel_io = cancel_ok,
       ae_submit = sample_submit, ae_submit_io = submit_ok, ae_find = Done, ae_postgres = Answers 1, ae_redis = Hangs,
       ae_check = (\<lambda>hs. if hs = [Up, Up] then Inr JNull else Inl (ThrownHttp 503 (ResponseObject None) ''down'')),
       ae_metrics = [], ae_uuid = ''r'', ae_now = 0 \<rparr>"

definition sample_request :: "verb \<Rightarrow> string list \<Rightarrow> json \<Rightarrow> api_request" where
  "sample_request v xs body =
     \<lparr> rq_verb = v, rq_url = ''/u'', rq_segments = xs, rq_protocol = ''http'', rq_host = Some ''h'',
       rq_apiKey = Some ''key'', rq_authorization = Some ''Bearer tok'', rq_lastEventId = None,
       rq_requestId = HAbsent, rq_body = body \<rparr>"

lemma sample_api_simps [simp]:
  "ae_key sample_api = Some ''key''" "ae_same sample_api = (=)" "ae_is_uuid sample_api = (\<lambda>_. True)"
  "ae_uuid_in sample_api = Some" "ae_insert_fields sample_api = sample_insert_fields"
  "ae_create sample_api = sample_env" "ae_create_io sample_api = all_done" "ae_submit sample_api = sample_submit"
  "ae_submit_io sample_api = submit_ok" "ae_find sample_api = Done" "ae_uuid sample_api = ''r''" "ae_now sample_api = 0"
  by (simp_all add: sample_api_def)

lemma sample_request_simps [simp]:
  "rq_verb (sample_request v xs body) = v" "rq_url (sample_request v xs body) = ''/u''"
  "rq_segments (sample_request v xs body) = xs" "rq_protocol (sample_request v xs body) = ''http''"
  "rq_host (sample_request v xs body) = Some ''h''" "rq_requestId (sample_request v xs body) = HAbsent"
  "rq_body (sample_request v xs body) = body" "rq_authorization (sample_request v xs body) = Some ''Bearer tok''"
  "providedKey (header_request (sample_request v xs body) ps) = Some ''key''"
  by (simp_all add: sample_request_def header_request_def providedKey_def)

lemmas api_route_defs =
  api_routes_def app_controllers_eq mount_def HealthController_def MetricsController_def TasksController_def
  ExecutorController_def StreamController_def defaultVersion_def

lemma sample_api_ok [simp]: "api_env_ok sample_api"
  by (simp add: api_env_ok_def sample_api_def sample_zod_laws)

lemma sample_created:
  "\<exists>w'. serve sample_api (sample_request POST [''v1'', ''tasks''] sample_body) empty_world =
     (\<lparr>rs_status = 202, rs_requestId = ''r'',
       rs_body = Created_Body \<lparr>taskId = ''new'', statusUrl = ''http://h/tasks/new'', streamUrl = ''http://h/tasks/new/stream''\<rparr>\<rparr>, w')
    \<and> map task_id (tasks w') = [''new''] \<and> map status (tasks w') = [PENDING] \<and> task_events w' = []
    \<and> map bj_data (jobs DISPATCH_QUEUE w') = [DispatchJobData ''new'' 60]"
proof -
  obtain j where j: "body_of sample_api (CreateTaskSchema sample_insert_fields) sample_body = Inr j"
    "read_create j = \<lparr>dto_type = ''echo'', dto_payload = None, dto_executorUrl = ''http://e'', dto_cancelUrl = None,
         dto_webhookUrl = None, dto_timeoutSeconds = 60, dto_idempotencyKey = None\<rparr>"
    using sample_create_body by (auto simp: body_of_def sample_api_def)
  have key: "apiKey_canActivate (Some ''key'') (header_request (sample_request POST xs b) ps) = Inr True" for xs b ps
    using api_key_guard_iff [of "Some ''key''"] by simp
  have route: "find_route (=) api_routes POST [''v1'', ''tasks''] = Some (Create_Task, [])"
    by (simp add: api_route_defs)
  have steps: "create_steps sample_env all_done (read_create j) ''http://h'' empty_world =
      (Inr (buildResponse ''new'' ''http://h''),
       empty_world\<lparr>tasks := [created_row sample_env (read_create j)],
          bull := snd (enqueue Done DISPATCH_QUEUE (dispatch_job (created_row sample_env (read_create j)))
                     (no_options\<lparr>opt_attempts := Some 1\<rparr>) (bull empty_world))\<rparr>)"
    using create_steps_done [OF db_inv_empty_world, of sample_env "read_create j" "''http://h''"]
    by (simp add: empty_world_def key_taken_def commit_if_keyed_def sample_env_def j(2))
  have "run_endpoint sample_api (sample_request POST [''v1'', ''tasks''] sample_body) Create_Task
      (header_request (sample_request POST [''v1'', ''tasks''] sample_body) []) empty_world =
      answer 202 Created_Body (create_steps sample_env all_done (read_create j) ''http://h'' empty_world)"
    using j key [of "[''v1'', ''tasks'']" sample_body "[]"]
    by (simp add: run_endpoint_def create_endpoint_def create_handler_def create_def)
  then show ?thesis
    using route by (simp add: serve_def dispatch_request_def steps answer_def buildResponse_def requestId_use_def sample_id Let_def)
      (simp add: empty_world_def empty_queues_def bull.enq_own stored_job_def dispatch_job_def sample_id j(2))
qed

section \<open>Errors\<close>

lemma serve_cases:
  obtains n b w' where "dispatch_request env rq w = (Inr (n, b), w')"
    "serve env rq w = (\<lparr>rs_status = n, rs_requestId = snd (requestId_use (ae_uuid env) (rq_requestId rq)), rs_body = b\<rparr>, w')"
  | x w' where "dispatch_request env rq w = (Inl x, w')"
    "serve env rq w = (\<lparr>rs_status = res_status (resolveException x),
       rs_requestId = snd (requestId_use (ae_uuid env) (rq_requestId rq)),
       rs_body = Error_Body (snd (snd (filter_catch (ae_now env) (rq_url rq) x)))\<rparr>, w')"
proof (cases "dispatch_request env rq w")
  case (Pair r w')
  show thesis
  proof (cases r)
    case (Inl x)
    show thesis by (rule that(2) [of x w']) (simp_all add: serve_def Pair Inl filter_catch_def Let_def)
  next
    case (Inr p)
    show thesis by (rule that(1) [of "fst p" "snd p" w']) (simp_all add: serve_def Pair Inr Let_def split_beta)
  qed
qed

text \<open>
  C8: A refused request leaves no trace. Whatever the request and whatever the stores, Redis and the
  queue do, a response with a status from 400 to 499 (a missing or wrong credential, a malformed
  identifier or body, an unknown route or task, a conflict) means that nothing has changed: no row,
  event, job, slot or message.
\<close>

theorem client_errors_change_nothing:
  assumes "serve env rq w = (rs, w')" and "400 \<le> rs_status rs" and "rs_status rs < 500"
  shows "w' = w"
proof (cases "\<exists>ps. find_route (ae_same env) api_routes (rq_verb rq) (rq_segments rq) = Some (Health_Ready, ps)")
  case True
  then show ?thesis
    using serve_world [of env rq w] assms(1)
    by (auto simp: dispatch_request_def run_endpoint_def split: sum.splits)
next
  case False
  then have sound: "sound w (dispatch_request env rq w)" using sound_dispatch by blast
  show ?thesis
  proof (rule serve_cases [of env rq w])
    show "w' = w" if "dispatch_request env rq w = (Inr (n, b), w1)"
      "serve env rq w = (\<lparr>rs_status = n, rs_requestId = r, rs_body = b\<rparr>, w1)" for n b r w1
      using that sound assms by (auto simp: sound_def)
    show "w' = w" if "dispatch_request env rq w = (Inl x, w1)"
      "serve env rq w = (\<lparr>rs_status = res_status (resolveException x), rs_requestId = r, rs_body = b\<rparr>, w1)" for x b r w1
      using that sound assms by (cases x) (auto simp: sound_def resolveException_def)
  qed
qed

theorem client_errors_change_nothing_witness:
  "rs_status (fst (serve sample_api (sample_request PUT [''v1''] JNull) (sample_world [sample_row ''t'' PENDING]))) = 404
   \<and> snd (serve sample_api (sample_request PUT [''v1''] JNull) (sample_world [sample_row ''t'' PENDING])) =
      sample_world [sample_row ''t'' PENDING]"
proof -
  let ?p = "serve sample_api (sample_request PUT [''v1''] JNull) (sample_world [sample_row ''t'' PENDING])"
  have "find_route (=) api_routes PUT [''v1''] = None" by (simp add: api_route_defs)
  then have "rs_status (fst ?p) = 404"
    by (simp add: serve_def dispatch_request_def thrown_of_def filter_catch_def resolveException_def Let_def)
  then show ?thesis using client_errors_change_nothing [of _ _ _ "fst ?p" "snd ?p"] by simp
qed

text \<open>
  C21: The responses of every route but readiness. The status is one the controllers declare; a body
  is an error report exactly from 400 on, and then repeats the status and the URL and carries issues
  only with 400. A 500 tells nothing of its cause: its message is one of two fixed texts. Every response carries a
  request identifier: the client's if it sent one, otherwise a new one.
\<close>

theorem response_contract:
  assumes "serve env rq w = (rs, w')"
    and "\<forall>ps. find_route (ae_same env) api_routes (rq_verb rq) (rq_segments rq) \<noteq> Some (Health_Ready, ps)"
  shows "rs_status rs \<in> {200, 202, 204, 400, 401, 404, 409, 500}
    \<and> (case rs_body rs of
         Error_Body b \<Rightarrow> 400 \<le> rs_status rs \<and> statusCode b = rs_status rs \<and> error_text b = statusToText (rs_status rs)
           \<and> error_path b = rq_url rq \<and> (issues b \<noteq> None \<longrightarrow> rs_status rs = 400)
           \<and> (rs_status rs = 500 \<longrightarrow> error_message b \<in>
                {''Internal server error'', ''Host header is missing - check reverse proxy config''})
       | _ \<Rightarrow> rs_status rs < 400)
    \<and> rs_requestId rs = (case rq_requestId rq of HText (c # s) \<Rightarrow> c # s | _ \<Rightarrow> ae_uuid env)"
proof -
  have sound: "sound w (dispatch_request env rq w)" using sound_dispatch assms(2) by blast
  have rid: "snd (requestId_use (ae_uuid env) h) = (case h of HText (c # s) \<Rightarrow> c # s | _ \<Rightarrow> ae_uuid env)" for h
    by (auto simp: requestId_use_def Let_def split: header_value.split list.split)
  show ?thesis
  proof (rule serve_cases [of env rq w])
    fix n b w1
    assume "dispatch_request env rq w = (Inr (n, b), w1)"
      and r: "serve env rq w = (\<lparr>rs_status = n, rs_requestId = snd (requestId_use (ae_uuid env) (rq_requestId rq)), rs_body = b\<rparr>, w1)"
    with sound have "n \<in> {200, 202, 204}" "\<forall>e. b \<noteq> Error_Body e" by (simp_all add: sound_def)
    then show ?thesis using r assms(1) by (cases b) (auto simp: rid)
  next
    fix x w1
    assume "dispatch_request env rq w = (Inl x, w1)"
      and r: "serve env rq w = (\<lparr>rs_status = res_status (resolveException x),
       rs_requestId = snd (requestId_use (ae_uuid env) (rq_requestId rq)),
       rs_body = Error_Body (snd (snd (filter_catch (ae_now env) (rq_url rq) x)))\<rparr>, w1)"
    with sound have "sound_result w (Inl x) w1" by (simp add: sound_def)
    then show ?thesis
      using r assms(1)
      by (cases x) (auto simp: rid resolveException_def filter_catch_def message_text_def missing_host_def Let_def)
  qed
qed

theorem response_contract_witness:
  "rs_status (fst (serve sample_api (sample_request POST [''v1'', ''tasks''] sample_body) empty_world)) = 202
   \<and> rs_requestId (fst (serve sample_api (sample_request POST [''v1'', ''tasks''] sample_body) empty_world)) = ''r''"
proof -
  have "find_route (=) api_routes POST [''v1'', ''tasks''] = Some (Create_Task, [])" by (simp add: api_route_defs)
  then show ?thesis
    using response_contract [OF prod.collapse [symmetric], of sample_api "sample_request POST [''v1'', ''tasks''] sample_body" empty_world]
      sample_created by auto
qed

text \<open>
  C7: Nobody acts without a credential. A request that changes anything or is answered with success,
  other than a probe, has shown what its route asks for: on the four public routes the configured API
  key, unless none is configured; on the two callback routes the token of the very task its path names, which
  is then \<open>PROCESSING\<close>.
\<close>

theorem credentials_required:
  assumes "serve env rq w = (rs, w')" and "w' \<noteq> w \<or> rs_status rs < 400"
    and "find_route (ae_same env) api_routes (rq_verb rq) (rq_segments rq) = Some (ep, ps)"
  shows "(ep \<in> {Create_Task, Get_Task, Cancel_Task, Stream_Task} \<longrightarrow>
        ae_key env \<in> {None, Some []} \<or> providedKey (header_request rq ps) = ae_key env)
    \<and> (ep \<in> {Submit_Result, Update_Progress} \<longrightarrow>
        (\<exists>s i t tok. param_id (header_request rq ps) = Some s \<and> ae_uuid_in env s = Some i \<and> findById i w = Some t
           \<and> status t = PROCESSING \<and> callbackToken t = Some tok
           \<and> extractBearerToken (header_request rq ps) = Some tok))"
proof (intro conjI impI)
  let ?req = "header_request rq ps"
  have run: "dispatch_request env rq w = run_endpoint env rq ep ?req w" by (simp add: dispatch_request_def assms(3))
  have refused: False if "run_endpoint env rq ep ?req w = (Inl (thrown_of e), w)" "internal e \<or> (\<exists>n m. e = HttpException n m \<and> 400 \<le> n)" for e
    using that assms(1,2)
    by (auto simp: serve_def run thrown_of_def filter_catch_def resolveException_def Let_def internal_iff split: exn.splits)
  show "ae_key env \<in> {None, Some []} \<or> providedKey ?req = ae_key env"
    if "ep \<in> {Create_Task, Get_Task, Cancel_Task, Stream_Task}"
  proof (rule ccontr)
    assume "\<not> ?thesis"
    then obtain m where m: "apiKey_canActivate (ae_key env) ?req = Inl (UnauthorizedException m)"
      using apiKey_refused [of "ae_key env" ?req] by blast
    then have "run_endpoint env rq ep ?req w = (Inl (thrown_of (UnauthorizedException m)), w)"
      using that by (auto simp: run_endpoint_def create_endpoint_def route_defs id_route_def api_route_def answer_def)
    from refused [OF this] show False by simp
  qed
  show "\<exists>s i t tok. param_id ?req = Some s \<and> ae_uuid_in env s = Some i \<and> findById i w = Some t
      \<and> status t = PROCESSING \<and> callbackToken t = Some tok \<and> extractBearerToken ?req = Some tok"
    if "ep \<in> {Submit_Result, Update_Progress}"
  proof (cases "callback_canActivate (ae_uuid_in env) (ae_find env) ?req w")
    case (Inl e)
    then have "run_endpoint env rq ep ?req w = (Inl (thrown_of e), w)"
      using that by (auto simp: run_endpoint_def callback_endpoint_def)
    moreover have "internal e \<or> (\<exists>n m. e = HttpException n m \<and> 400 \<le> n)"
      using callback_refusal_codes Inl by (cases e) fastforce+
    ultimately show ?thesis using refused by blast
  next
    case (Inr t)
    from callback_shown [OF this] show ?thesis by force
  qed
qed

theorem credentials_required_witness:
  "providedKey (header_request (sample_request POST [''v1'', ''tasks''] sample_body) []) = ae_key sample_api"
proof -
  have "find_route (=) api_routes POST [''v1'', ''tasks''] = Some (Create_Task, [])" by (simp add: api_route_defs)
  then show ?thesis
    using credentials_required [OF prod.collapse [symmetric], of sample_api "sample_request POST [''v1'', ''tasks''] sample_body" empty_world Create_Task "[]"]
      sample_created by auto
qed

section \<open>The running server\<close>

lemma reach_api_init: "reach handler_init api_step (empty_world, [])"
  by (rule reach_init) (simp add: handler_init_def)

lemma api_step_created:
  "api_step (empty_world, []) (snd (serve sample_api (sample_request POST [''v1'', ''tasks''] sample_body) empty_world), [''new''])"
  using request [of sample_api "[]" empty_world "sample_request POST [''v1'', ''tasks''] sample_body"] by (simp add: sample_id)

lemma reach_created:
  "reach handler_init api_step
     (snd (serve sample_api (sample_request POST [''v1'', ''tasks''] sample_body) empty_world), [''new''])"
  by (rule reach_step [OF reach_api_init]) (rule api_step_created)

text \<open>
  C5: The running program refines the transition system of single statements. Whatever sequence of
  HTTP requests and jobs is run from the empty stores, with every call failing or succeeding as it
  may and others at work during dispatch calls, the stores go through states that a run of the
  statements of \<open>sys_step\<close> goes through. So what is proved of every interleaving (one ending per
  task, final outcomes, the state diagram) holds of the program behind its routes, guards and pipes.
\<close>

theorem http_refines_statements:
  assumes "reach handler_init api_step (w, ids)" and "api_step\<^sup>*\<^sup>* (w, ids) (w', ids')"
  shows "\<exists>s s'. reach sys_init sys_step s \<and> st s = w \<and> sys_step\<^sup>*\<^sup>* s s' \<and> st s' = w'"
proof -
  from server.covered [OF assms(1)] obtain s where s: "reach sys_init sys_step s" "covers s (w, ids)" by blast
  from server.path_covered [OF this assms(2)] obtain s' where "sys_step\<^sup>*\<^sup>* s s'" "covers s' (w', ids')" by blast
  with s show ?thesis by (auto simp: covers_def)
qed

theorem http_refines_statements_witness:
  "\<exists>s s'. reach sys_init sys_step s \<and> st s = empty_world \<and> sys_step\<^sup>*\<^sup>* s s' \<and> map task_id (tasks (st s')) = [''new'']"
proof -
  obtain w' where w': "snd (serve sample_api (sample_request POST [''v1'', ''tasks''] sample_body) empty_world) = w'"
    "map task_id (tasks w') = [''new'']"
    using sample_created by fastforce
  have "api_step\<^sup>*\<^sup>* (empty_world, []) (w', [''new''])"
    by (rule r_into_rtranclp) (rule api_step_created [unfolded w'(1)])
  from http_refines_statements [OF reach_api_init this]
  have "\<exists>s s'. reach sys_init sys_step s \<and> st s = empty_world \<and> sys_step\<^sup>*\<^sup>* s s' \<and> st s' = w'" .
  with w'(2) show ?thesis by (metis (no_types))
qed

text \<open>
  C10: What the schemas check at the door holds of every stored row for ever: in every state the
  running program reaches, the progress of a task is between 0 and 100, its time limit between 1 and
  86400 seconds, its executor URL is not empty and its other URLs, if any, are not empty either; and
  the payload of every event is the variant its type announces, with a progress in range, an object as
  result, or an error with a code of 1 to 100 characters and a message.
\<close>

theorem stored_values_in_range:
  assumes "reach handler_init api_step (w, ids)"
  shows "(\<forall>t \<in> set (tasks w). 0 \<le> progress t \<and> progress t \<le> 100 \<and> 1 \<le> timeoutSeconds t \<and> timeoutSeconds t \<le> 86400
      \<and> executorUrl t \<noteq> [] \<and> cancelUrl t \<noteq> Some [] \<and> webhookUrl t \<noteq> Some [])
    \<and> (\<forall>ev \<in> set (task_events w). TaskEventPayload (eventType ev) (ev_payload ev))"
proof -
  from server.covered [OF assms] obtain s where s: "reach sys_init sys_step s" "st s = w" by (auto simp: covers_def)
  then have "list_all row_ok (tasks w)" "list_all event_ok (task_events w)"
    using kept.invar_reach [OF s(1)] flow.invar_reach [OF s(1)] by (auto simp: values_ok_def flow_ok_def)
  then show ?thesis by (auto simp: list_all_iff row_ok_def event_ok_def)
qed

theorem stored_values_in_range_witness:
  "timeoutSeconds (hd (tasks (snd (serve sample_api (sample_request POST [''v1'', ''tasks''] sample_body) empty_world)))) \<le> 86400"
proof -
  have "tasks (snd (serve sample_api (sample_request POST [''v1'', ''tasks''] sample_body) empty_world)) \<noteq> []"
    using sample_created by fastforce
  with stored_values_in_range [OF reach_created] hd_in_set [OF this] show ?thesis by blast
qed

section \<open>The URLs of the response\<close>

text \<open>A route is under \<open>v1\<close>, up to the case of letters at most.\<close>

definition literal_compare :: "(string \<Rightarrow> string \<Rightarrow> bool) \<Rightarrow> bool" where
  "literal_compare same \<longleftrightarrow> (\<forall>l. same l l) \<and> (\<forall>l s. same l s \<longrightarrow> map lower_ascii s = map lower_ascii l)"

text \<open>
  C35: The URLs a creation returns do not work. They are the base URL with the path \<open>/tasks/{id}\<close>, while
  every route is mounted under \<open>/v1\<close>: a client that follows them is answered 404, for the status and for
  the stream, where the same path under \<open>/v1\<close> finds the task. The same holds of the paths under which the
  documents list the probes and the metrics.
\<close>

theorem unversioned_paths_unrouted:
  assumes "literal_compare (ae_same env)" and "rq_verb rq = GET" and "i \<noteq> []"
    and "rq_segments rq \<in> {[''tasks'', i], [''tasks'', i, ''stream''], [''health'', ''live''], [''health'', ''ready''], [''metrics'']}"
  shows "rs_status (fst (serve env rq w)) = 404
    \<and> statusUrl (buildResponse i b) = b @ concat (map (Cons CHR ''/'') [''tasks'', i])
    \<and> streamUrl (buildResponse i b) = b @ concat (map (Cons CHR ''/'') [''tasks'', i, ''stream''])
    \<and> find_route (ae_same env) api_routes GET [''v1'', ''tasks'', i] = Some (Get_Task, [i])
    \<and> find_route (ae_same env) api_routes GET [''v1'', ''tasks'', i, ''stream''] = Some (Stream_Task, [i])"
proof -
  have same: "ae_same env l l" "map lower_ascii s \<noteq> map lower_ascii l \<Longrightarrow> \<not> ae_same env l s" for l s
    using assms(1) by (auto simp: literal_compare_def)
  have "\<not> ae_same env ''v1'' ''tasks''" "\<not> ae_same env ''v1'' ''health''" "\<not> ae_same env ''v1'' ''metrics''"
    by (rule same(2), simp add: lower_ascii_def)+
  then have "find_route (ae_same env) api_routes GET (rq_segments rq) = None"
    using assms(4) by (auto simp: api_route_defs)
  then have "rs_status (fst (serve env rq w)) = 404"
    by (simp add: serve_def dispatch_request_def assms(2) thrown_of_def filter_catch_def resolveException_def Let_def)
  moreover have "\<not> ae_same env ''health'' ''tasks''" "\<not> ae_same env ''metrics'' ''tasks''"
    by (rule same(2), simp add: lower_ascii_def)+
  ultimately show ?thesis
    using assms(3) same(1) by (simp add: api_route_defs buildResponse_def)
qed

theorem unversioned_paths_unrouted_witness:
  "rs_status (fst (serve sample_api (sample_request GET [''tasks'', ''t''] JNull) (sample_world [sample_row ''t'' PENDING]))) = 404"
  using unversioned_paths_unrouted [of sample_api "sample_request GET [''tasks'', ''t''] JNull" "''t''"]
  by (simp add: literal_compare_def)

end
