(* ===== verification/StreamChannels.thy ===== *)
theory StreamChannels
  imports HttpGuarantees
begin

text \<open>
  Event streams and the channels they listen to. \<^verbatim>\<open>sse.service.ts\<close> subscribes to \<open>task:\<close> followed by the
  identifier of the URL, as it was sent, while the history is read by the UUID it stands for. A stream
  never shows another task's events; but it misses those published under another spelling.
\<close>

section \<open>What a stream can show\<close>

text \<open>What the channel of a stream opened under the identifier \<open>s\<close> has carried.\<close>

definition subscribed :: "string \<Rightarrow> world \<Rightarrow> task_event list" where
  "subscribed s w = map snd (filter (\<lambda>(c, _). c = task_channel s) (published w))"

text \<open>All that a connection has sent or holds back comes from the events \<open>S\<close>.\<close>

definition shows_only :: "task_event set \<Rightarrow> conn \<Rightarrow> bool" where
  "shows_only S s \<longleftrightarrow> (\<forall>m. Next m \<in> set (sent s) \<longrightarrow> m \<in> toMessageEvent ` S) \<and> set (liveBuffer s) \<subseteq> S"

lemma shows_only_frame [simp]:
  "shows_only S (s\<lparr>isDone := a\<rparr>) = shows_only S s" "shows_only S (s\<lparr>historyLoaded := a\<rparr>) = shows_only S s"
  "shows_only S (s\<lparr>highestHistorySeq := n\<rparr>) = shows_only S s" "shows_only S (teardown s) = shows_only S s"
  by (simp_all add: shows_only_def teardown_def)

lemma shows_only_next: "shows_only S s \<Longrightarrow> e \<in> S \<Longrightarrow> shows_only S (subscriber_next (Next (toMessageEvent e)) s)"
  by (auto simp: shows_only_def subscriber_next_def)

lemma shows_only_ping: "shows_only S s \<Longrightarrow> shows_only S (subscriber_next Ping s)"
  by (auto simp: shows_only_def subscriber_next_def)

lemma shows_only_end:
  "shows_only S s \<Longrightarrow> shows_only S (subscriber_end Complete s)"
  "shows_only S s \<Longrightarrow> shows_only S (subscriber_end (Error m) s)"
  by (auto simp: shows_only_def subscriber_end_def teardown_def)

lemma shows_only_emit: "shows_only S s \<Longrightarrow> e \<in> S \<Longrightarrow> shows_only S (emit_above e s)"
  by (simp add: emit_above_def Let_def shows_only_end shows_only_next)

lemma shows_only_message: "shows_only S s \<Longrightarrow> e \<in> S \<Longrightarrow> shows_only S (on_message e s)"
  by (simp add: on_message_def shows_only_end shows_only_emit) (simp add: shows_only_def)

lemma shows_only_step: "shows_only S s \<Longrightarrow> set (messages [x]) \<subseteq> S \<Longrightarrow> shows_only S (sse_step x s)"
  by (cases x) (simp_all add: sse_step_def shows_only_message shows_only_ping shows_only_end)

lemma shows_only_run: "shows_only S s \<Longrightarrow> set (messages xs) \<subseteq> S \<Longrightarrow> shows_only S (sse_run xs s)"
proof (induction xs arbitrary: s)
  case (Cons x xs)
  have "messages (x # xs) = messages [x] @ messages xs" by (cases x) simp_all
  then show ?case using Cons by (simp add: shows_only_step)
qed simp

lemma shows_only_replay:
  "shows_only S s \<Longrightarrow> set es \<subseteq> S \<Longrightarrow> shows_only S (fst (replay_history es s))"
  by (induction es s rule: replay_history.induct) (simp_all add: Let_def shows_only_next shows_only_end)

lemma shows_only_flush: "shows_only S s \<Longrightarrow> set es \<subseteq> S \<Longrightarrow> shows_only S (flush_buffer es s)"
proof (induction es s rule: flush_buffer.induct)
  case (2 e es s)
  then have "shows_only S (emit_above e s)" by (simp add: shows_only_emit)
  then show ?case using 2 by (simp add: Let_def) (simp add: shows_only_def)
qed (simp add: shows_only_def)

lemma shows_only_history:
  assumes "shows_only S s" and "\<And>es. res = Inr es \<Longrightarrow> set es \<subseteq> S"
  shows "shows_only S (on_history res s)"
proof (cases res)
  case (Inl e)
  then show ?thesis using assms(1) by (simp add: on_history_def shows_only_end)
next
  case (Inr es)
  obtain s1 b where r: "replay_history es s = (s1, b)" by fastforce
  then have s1: "shows_only S s1" using shows_only_replay [of S s es] assms Inr by simp
  then have "shows_only S (flush_buffer (liveBuffer s1) (s1\<lparr>historyLoaded := True\<rparr>))"
    by (intro shows_only_flush) (simp_all add: shows_only_def)
  with s1 r Inr assms(1) show ?thesis by (simp add: on_history_def split: bool.split)
qed

lemma shows_only_session:
  assumes "set (messages pre) \<subseteq> S" and "set (messages later) \<subseteq> S" and "\<And>es. res = Inr es \<Longrightarrow> set es \<subseteq> S"
  shows "shows_only S (sse_session a pre res later)"
proof -
  have "shows_only S (open_conn a)" by (simp add: shows_only_def open_conn_def)
  then show ?thesis
    unfolding sse_session_def using assms by (intro shows_only_run shows_only_history)
qed

section \<open>Streams tell the truth\<close>

text \<open>An event whose task still has its row, and which was ever stored, in the terms of the present state.\<close>

definition confirmed :: "world \<Rightarrow> task_event \<Rightarrow> bool" where
  "confirmed w ev \<longleftrightarrow>
     (status_of (ev_taskId ev) w \<noteq> None \<longrightarrow>
        ev \<in> set (task_log (task_events w) (ev_taskId ev))
        \<and> (terminal_event_type (eventType ev) \<longrightarrow> status_of (ev_taskId ev) w = Some (final_status (eventType ev))))"

lemma logged_confirmed:
  assumes "reach sys_init sys_step s" and "ev \<in> set (task_events (st s)) \<union> set (past_events s)"
  shows "confirmed (st s) ev"
proof -
  have "status_of (ev_taskId ev) (st s) = Some (final_status (eventType ev))"
    if ev: "ev \<in> set (task_log (task_events (st s)) (ev_taskId ev))" "terminal_event_type (eventType ev)"
      "status_of (ev_taskId ev) (st s) \<noteq> None"
  proof -
    have "balanced (ev_taskId ev) s" using run.invar_reach [OF assms(1)] by (simp add: sys_inv_def)
    moreover have "eventType ev \<in># account (ev_taskId ev) s"
      using ev(1,2) by (auto simp: account_def terminal_types_def task_log_def)
    ultimately show ?thesis using ev(3) by (auto simp: balanced_def)
  qed
  then show ?thesis using still_logged [OF assms] by (auto simp: confirmed_def)
qed

text \<open>
  C11: A stream tells the truth, about its own task only. Take any two states of the running program, the
  first earlier: the history is read in the first, and of what the channel has carried up to the second
  any part reaches the connection, in any order, before or after the history. Every event the client is
  sent belongs to the task the stream was opened for; as long as that task's row exists, it is in the
  stored log, and a terminal event announces the status the row has.
\<close>

theorem stream_isolation:
  assumes "reach handler_init api_step (w0, ids0)" and "api_step\<^sup>*\<^sup>* (w0, ids0) (w, ids)"
    and "set (messages pre @ messages later) \<subseteq> set (subscribed s w)"
    and "Next m \<in> set (sent (sse_session a pre (Inr (findEventsSince (db_uuid s) a (task_events w0))) later))"
  shows "\<exists>ev. m = toMessageEvent ev \<and> db_uuid (ev_taskId ev) = db_uuid s
    \<and> (status_of (ev_taskId ev) w \<noteq> None \<longrightarrow>
         ev \<in> set (task_log (task_events w) (ev_taskId ev))
         \<and> (terminal_event_type (eventType ev) \<longrightarrow> status_of (ev_taskId ev) w = Some (final_status (eventType ev))))"
proof -
  let ?S = "{ev. db_uuid (ev_taskId ev) = db_uuid s \<and> confirmed w ev}"
  obtain c0 where c0: "reach sys_init sys_step c0" "covers c0 (w0, ids0)" using server.covered [OF assms(1)] by blast
  from server.path_covered [OF c0 assms(2)] obtain c where c: "sys_step\<^sup>*\<^sup>* c0 c" "covers c (w, ids)" by blast
  have rc: "reach sys_init sys_step c" by (rule reach_steps [OF c(1) c0(1)])
  have w: "st c0 = w0" "st c = w" using c0(2) c(2) by (simp_all add: covers_def)
  have "own_channels w" "snd ` set (published w) \<subseteq> set (task_events w) \<union> set (past_events c)"
    using kept.invar_reach [OF rc] flow.invar_reach [OF rc] by (auto simp: values_ok_def flow_ok_def w)
  then have "set (subscribed s w) \<subseteq> {ev. db_uuid (ev_taskId ev) = db_uuid s} \<inter> (set (task_events w) \<union> set (past_events c))"
    by (force simp: subscribed_def own_channels_def list_all_iff task_channel_inj)
  moreover have "set (findEventsSince (db_uuid s) a (task_events w0))
      \<subseteq> {ev. db_uuid (ev_taskId ev) = db_uuid s} \<inter> (set (task_events w) \<union> set (past_events c))"
    using log_grows_steps [OF c(1) c0(1)] by (auto simp: findEventsSince_def w)
  moreover have "set (task_events w) \<union> set (past_events c) \<subseteq> {ev. confirmed w ev}"
    using logged_confirmed [OF rc] by (auto simp: w)
  ultimately have "shows_only ?S (sse_session a pre (Inr (findEventsSince (db_uuid s) a (task_events w0))) later)"
    using assms(3) by (intro shows_only_session) auto
  then show ?thesis using assms(4) by (auto simp: shows_only_def confirmed_def)
qed

text \<open>The sample task, created and then cancelled by a second request.\<close>

lemma sample_cancelled:
  "\<exists>w ids ev. reach handler_init api_step (w, ids) \<and> task_log (task_events w) ''new'' = [ev] \<and> ev_taskId ev = ''new''"
proof -
  obtain w1 where w1: "snd (serve sample_api (sample_request POST [''v1'', ''tasks''] sample_body) empty_world) = w1"
    "map task_id (tasks w1) = [''new'']" "map status (tasks w1) = [PENDING]" "task_events w1 = []"
    using sample_created by fastforce
  have reach1: "reach handler_init api_step (w1, [''new''])" using reach_created w1(1) by simp
  from server.covered [OF this] obtain c where "reach sys_init sys_step c" "st c = w1" by (auto simp: covers_def)
  then have inv: "db_inv w1" using run.invar_reach by (auto simp: sys_inv_def)
  have u: "db_uuid ''new'' = ''new''" by code_simp
  obtain t where t: "findById (db_uuid ''new'') w1 = Some t" "active (status t)"
    using w1(2,3) by (cases "tasks w1") (auto simp: findById_def find_row_def u)
  let ?env = "sample_api\<lparr>ae_create := sample_env\<lparr>ce_id := ''other''\<rparr>\<rparr>"
    and ?rq = "sample_request DELETE [''v1'', ''tasks'', ''new''] JNull"
  have key: "apiKey_canActivate (Some ''key'') (header_request ?rq [''new'']) = Inr True"
    using api_key_guard_iff [of "Some ''key''"] by simp
  obtain w2 ev where w2: "cancel (ae_cancel sample_api) cancel_ok ''new'' w1 = (Inr (), w2)" "ev_taskId ev = ''new''"
    "task_log (task_events w2) ''new'' = task_log (task_events w1) ''new'' @ [ev]"
    using cancel_hit [OF inv t, of "ae_cancel sample_api"] by (auto simp: w1(4) u)
  have "snd (serve ?env ?rq w1) = w2"
    using key w2(1)
    by (simp add: serve_def dispatch_request_def api_route_defs run_endpoint_def cancel_route_def id_route_def api_route_def
        answer_def ParseUUIDPipe_def header_request_def sample_api_def Let_def)
  moreover have "api_step (w1, [''new'']) (snd (serve ?env ?rq w1), [''other'', ''new''])"
    using request [of ?env "[''new'']" w1 ?rq] sample_api_ok by (simp add: api_env_ok_def)
  ultimately have reach2: "reach handler_init api_step (w2, [''other'', ''new''])" using reach_step [OF reach1] by simp
  then show ?thesis using w2(2,3) by (auto simp: w1(4) task_log_def)
qed

theorem stream_isolation_witness:
  "\<exists>w ev a. Next (toMessageEvent ev) \<in> set (sent (sse_session a [] (Inr (findEventsSince ''new'' a (task_events w))) []))
     \<and> db_uuid (ev_taskId ev) = ''new'' \<and> confirmed w ev"
proof -
  obtain w ids ev where w: "reach handler_init api_step (w, ids)" "task_log (task_events w) ''new'' = [ev]"
    using sample_cancelled by blast
  have u: "db_uuid ''new'' = ''new''" by code_simp
  let ?s = "sse_session (seq ev - 1) [] (Inr (findEventsSince ''new'' (seq ev - 1) (task_events w))) []"
  have "findEventsSince ''new'' (seq ev - 1) (task_events w) = [ev]" by (simp add: findEventsSince_log w(2))
  then have "Next (toMessageEvent ev) \<in> set (sent ?s)"
    by (simp add: sse_session_def on_history_def open_conn_def subscriber_next_def subscriber_end_def teardown_def Let_def)
  moreover from this obtain ev' where "toMessageEvent ev = toMessageEvent ev'" "db_uuid (ev_taskId ev') = ''new''" "confirmed w ev'"
    using stream_isolation [OF w(1) rtranclp.rtrancl_refl, of "[]" "[]" "''new''" "toMessageEvent ev" "seq ev - 1"]
    unfolding confirmed_def by (auto simp: u)
  ultimately show ?thesis by auto
qed

section \<open>Another spelling\<close>

lemma ends_records: "ends (records h es) \<Longrightarrow> ends es"
  by (induction es arbitrary: h) (auto split: if_splits)

text \<open>
  C34: A cancellation sent under another spelling of the identifier is not seen. NestJS accepts a UUID
  in either case and PostgreSQL finds the task, so the cancellation succeeds; but the event is published
  on the channel of the spelling that was sent. A stream of the task opened under any other spelling,
  the one the API itself returned included, gets nothing of it and stays open.
\<close>

theorem cancel_other_case_unseen:
  assumes "db_inv w" and "findById (db_uuid s) w = Some t" and "active (status t)"
    and "cn_eid env \<notin> ev_id ` set (task_events w)" and "db_uuid s' = db_uuid s" and "s' \<noteq> s"
    and "\<not> ends (task_log (task_events w) (db_uuid s))" and "\<not> ends (subscribed s' w)"
    and "list_all quiet pre" and "list_all quiet later" and "length (messages pre) \<le> MAX_LIVE_BUFFER_SIZE"
    and "messages pre @ messages later = subscribed s' (snd (cancel env cancel_ok s w))"
  shows "fst (cancel env cancel_ok s w) = Inr () \<and> status_of (db_uuid s) (snd (cancel env cancel_ok s w)) = Some CANCELLED
    \<and> subscribed s' (snd (cancel env cancel_ok s w)) = subscribed s' w
    \<and> Complete \<notin> set (sent (sse_session a pre (Inr (findEventsSince (db_uuid s') a (task_events w))) later))
    \<and> \<not> closed (sse_session a pre (Inr (findEventsSince (db_uuid s') a (task_events w))) later)"
proof -
  obtain w' ev where c: "cancel env cancel_ok s w = (Inr (), w')" "findById (db_uuid s) w' = Some (cancelled_row env t)"
    "published w' = published w @ [(''task:'' @ s, ev)]"
    using cancel_hit [OF assms(1-4)] by blast
  have sub: "subscribed s' w' = subscribed s' w"
    using assms(6) by (simp add: subscribed_def c(3) task_channel_def)
  let ?hist = "findEventsSince (db_uuid s') a (task_events w)"
  have hist: "\<not> ends ?hist"
    using assms(5,7) by (auto simp: findEventsSince_log ends_def list_ex_iff)
  let ?all = "?hist @ records (fold (\<lambda>e. max (seq e)) ?hist a) (messages pre @ messages later)"
  have "messages pre @ messages later = subscribed s' w" using assms(12) by (simp add: c(1) sub)
  then have "\<not> ends ?all" using hist assms(8) ends_records by auto
  moreover from this have "Complete \<notin> set (stream_spec ?all)" by (auto simp: stream_spec_def)
  ultimately have "Complete \<notin> set (visible (sse_session a pre (Inr ?hist) later))"
    "live (sse_session a pre (Inr ?hist) later)"
    using session_visible [OF assms(9-11), of a ?hist] by simp_all
  then have "Complete \<notin> set (sent (sse_session a pre (Inr ?hist) later))"
    "\<not> closed (sse_session a pre (Inr ?hist) later)"
    by (simp_all add: visible_def live_def)
  with c(2) show ?thesis by (simp add: c(1) sub status_of_def cancelled_row_def)
qed

theorem cancel_other_case_unseen_witness:
  "status_of ''t'' (snd (cancel \<lparr>cn_now = 7, cn_upd = 8, cn_dbnow = 9, cn_eid = ''e''\<rparr> cancel_ok ''T'' (sample_world [sample_row ''t'' PROCESSING]))) = Some CANCELLED
   \<and> \<not> closed (sse_session 0 [] (Inr []) [Heartbeat])"
proof -
  have u: "db_uuid ''T'' = ''t''" "db_uuid ''t'' = ''t''" by code_simp+
  let ?c = "\<lparr>cn_now = 7, cn_upd = 8, cn_dbnow = 9, cn_eid = ''e''\<rparr>" and ?w = "sample_world [sample_row ''t'' PROCESSING]"
  have hit: "findById (db_uuid ''T'') ?w = Some (sample_row ''t'' PROCESSING)" by (simp add: u)
  from cancel_hit [OF db_inv_sample_row(1) hit, of ?c]
  obtain w' ev where c: "cancel ?c cancel_ok ''T'' ?w = (Inr (), w')" "published w' = [(''task:T'', ev)]" by auto
  have "subscribed ''t'' w' = []" by (simp add: subscribed_def c(2) task_channel_def)
  then show ?thesis
    using cancel_other_case_unseen [OF db_inv_sample_row(1) hit, of ?c "''t''" "[]" "[Heartbeat]" 0]
    by (simp add: u c(1) quiet_def task_log_def subscribed_def findEventsSince_def)
qed

end
