(* ===== verification/Bootstrap.thy ===== *)
theory Bootstrap
  imports HttpApi Workers
begin

text \<open>
  Starting and stopping the two processes: the environment of \<^verbatim>\<open>src/config/env.schema.ts\<close>,
  \<^verbatim>\<open>src/main.ts\<close>, \<^verbatim>\<open>src/worker.ts\<close>, the provider of \<^verbatim>\<open>src/database/drizzle/drizzle.provider.ts\<close>, and the
  \<open>onModuleInit\<close> and \<open>onModuleDestroy\<close> hooks. What PostgreSQL, Redis and the port answer is chosen by
  the environment.
\<close>

section \<open>Environment variables\<close>

text \<open>
  Each field of the schema, from the text of the variable or its absence; a wrong value is an issue at
  that variable, whose code and message are Zod's. \<open>z.coerce.number().int()\<close> reads the text as the
  language does and wants a whole number that a double represents exactly.
\<close>

definition coerce_int :: "int \<Rightarrow> int \<Rightarrow> string option \<Rightarrow> int option" where
  "coerce_int least dflt v =
     (case v of
        None \<Rightarrow> Some dflt
      | Some s \<Rightarrow>
          (case js_Number s of
             Finite x \<Rightarrow> if x = of_int \<lfloor>x\<rfloor> \<and> \<bar>\<lfloor>x\<rfloor>\<bar> < 2 ^ 53 \<and> least \<le> \<lfloor>x\<rfloor> then Some \<lfloor>x\<rfloor> else None
           | _ \<Rightarrow> None))"

definition enum_of :: "string list \<Rightarrow> string \<Rightarrow> string option \<Rightarrow> string option" where
  "enum_of vs dflt v = (case v of None \<Rightarrow> Some dflt | Some s \<Rightarrow> if s \<in> set vs then Some s else None)"

definition enum_flag :: "string option \<Rightarrow> bool option" where
  "enum_flag v = map_option (\<lambda>s. s = ''true'') (enum_of [''true'', ''false''] ''false'' v)"

text \<open>\<open>/^postgre(?:s|sql):\/\/.+/i\<close>: after the scheme at least one character that ends no line.\<close>

definition postgres_url :: "string \<Rightarrow> bool" where
  "postgres_url s \<longleftrightarrow>
     list_ex (\<lambda>p. map lower_ascii (take (length p) s) = p
        \<and> (case drop (length p) s of [] \<Rightarrow> False | c # _ \<Rightarrow> (of_char c :: nat) \<notin> {10, 13}))
      [''postgres://'', ''postgresql://'']"

definition EnvSchema ::
  "(string \<Rightarrow> raw_issue) \<Rightarrow> (string \<Rightarrow> string option) \<Rightarrow> raw_issue list + env" where
  "EnvSchema issue_at var =
     (let node_env = enum_of [''development'', ''production'', ''test''] ''production'' (var ''NODE_ENV'');
          port = coerce_int 1 8080 (var ''PORT'');
          url = (case var ''DATABASE_URL'' of None \<Rightarrow> None | Some s \<Rightarrow> if postgres_url s then Some s else None);
          host = (case var ''REDIS_HOST'' of None \<Rightarrow> Some ''localhost'' | Some s \<Rightarrow> if s \<noteq> [] then Some s else None);
          rport = coerce_int 1 6379 (var ''REDIS_PORT'');
          rdb = coerce_int 0 0 (var ''REDIS_DB'');
          cluster = enum_flag (var ''REDIS_CLUSTER_MODE'');
          limit = enum_flag (var ''RATE_LIMIT_ENABLED'');
          capacity = coerce_int 1 1000 (var ''RATE_LIMIT_CAPACITY'');
          days = coerce_int 1 30 (var ''DATA_RETENTION_DAYS'');
          bad = map fst (filter (\<lambda>(k, ok). \<not> ok)
            [(''NODE_ENV'', node_env \<noteq> None), (''PORT'', port \<noteq> None), (''DATABASE_URL'', url \<noteq> None),
             (''REDIS_HOST'', host \<noteq> None), (''REDIS_PORT'', rport \<noteq> None), (''REDIS_DB'', rdb \<noteq> None),
             (''REDIS_CLUSTER_MODE'', cluster \<noteq> None), (''RATE_LIMIT_ENABLED'', limit \<noteq> None),
             (''RATE_LIMIT_CAPACITY'', capacity \<noteq> None), (''DATA_RETENTION_DAYS'', days \<noteq> None)])
      in if bad \<noteq> [] then Inl (map issue_at bad)
         else Inr \<lparr> NODE_ENV = the node_env, PORT = the port, PROXY_API_KEY = var ''PROXY_API_KEY'',
                    DATABASE_URL = the url, REDIS_HOST = the host, REDIS_PORT = the rport,
                    REDIS_PASSWORD = var ''REDIS_PASSWORD'', REDIS_DB = the rdb, REDIS_CLUSTER_MODE = the cluster,
                    REDIS_CLUSTER_NODES = var ''REDIS_CLUSTER_NODES'', RATE_LIMIT_ENABLED = the limit,
                    RATE_LIMIT_CAPACITY = the capacity, DATA_RETENTION_DAYS = the days,
                    TIMEOUT_SWEEPER_CRON = or_default (var ''TIMEOUT_SWEEPER_CRON'') ''* * * * *'',
                    DATA_RETENTION_CRON = or_default (var ''DATA_RETENTION_CRON'') ''0 3 * * *'' \<rparr>)"

section \<open>Start-up\<close>

text \<open>What the outside answers while a process starts.\<close>

record 'pool start_env =
  se_var :: "string \<Rightarrow> string option"
  se_issue :: "string \<Rightarrow> raw_issue"
  se_postgres :: "string \<Rightarrow> 'pool"
  se_select :: io                      \<comment> \<open>\<open>SELECT 1\<close>\<close>
  se_probe :: "string option"          \<comment> \<open>the error of the queue adapter's probe\<close>
  se_probe_closes :: io
  se_listen :: "int \<Rightarrow> bool"           \<comment> \<open>whether the port can be bound\<close>

record 'pool started =
  sd_config :: app_config
  sd_redis :: redis_service
  sd_db :: "'pool drizzle"
  sd_docs :: bool                      \<comment> \<open>whether \<open>api/docs\<close> is served\<close>
  sd_port :: "int option"              \<comment> \<open>where it listens\<close>
  sd_workers :: "worker list"

datatype start_error = BadConfig "raw_issue list" | StartFailed exn | PortRefused

definition DrizzleProvider_useFactory ::
  "(string \<Rightarrow> 'pool) \<Rightarrow> io \<Rightarrow> app_config \<Rightarrow> 'pool drizzle \<Rightarrow> (exn + 'pool option) \<times> 'pool drizzle" where
  "DrizzleProvider_useFactory postgres answers config service =
     (case connect postgres answers config service of
        (Inl e, s) \<Rightarrow> (Inl e, s)
      | (Inr _, s) \<Rightarrow> (Inr (getDb s), s))"

text \<open>
  What both roots instantiate: the configuration, the database connection, the Redis client, and the
  queue adapter with its probe.
\<close>

definition common_start :: "'pool start_env \<Rightarrow> start_error + app_config \<times> redis_service \<times> 'pool drizzle" where
  "common_start env =
     (case appConfig (EnvSchema (se_issue env)) (se_var env) of
        Inl is \<Rightarrow> Inl (BadConfig is)
      | Inr cfg \<Rightarrow>
          (case DrizzleProvider_useFactory (se_postgres env) (se_select env) cfg \<lparr>drizzle_sql = None, drizzle_db = None\<rparr> of
             (Inl e, _) \<Rightarrow> Inl (StartFailed e)
           | (Inr _, db) \<Rightarrow>
               (case fst (new_RedisService (buildRedisOptions cfg)) of
                  Inl e \<Rightarrow> Inl (StartFailed e)
                | Inr client \<Rightarrow>
                    (case adapter_onModuleInit (redis_config cfg) (se_probe env) (se_probe_closes env) of
                       Inl e \<Rightarrow> Inl (StartFailed e)
                     | Inr _ \<Rightarrow> Inr (cfg, client, db)))))"

text \<open>\<^verbatim>\<open>main.ts\<close>: the API documentation is left out in production; then the port is bound.\<close>

definition main_bootstrap :: "'pool start_env \<Rightarrow> start_error + 'pool started" where
  "main_bootstrap env =
     (case common_start env of
        Inl e \<Rightarrow> Inl e
      | Inr (cfg, client, db) \<Rightarrow>
          if \<not> se_listen env (app_port cfg) then Inl PortRefused
          else Inr \<lparr> sd_config = cfg, sd_redis = client, sd_db = db, sd_docs = (app_env cfg \<noteq> ''production''),
                     sd_port = Some (app_port cfg), sd_workers = [] \<rparr>)"

text \<open>The workers the modules of the worker process register, each with its own connection.\<close>

definition worker_of :: "app_config \<Rightarrow> token \<Rightarrow> worker option" where
  "worker_of cfg t =
     (case t of
        DispatchProcessor \<Rightarrow> Some dispatch_worker
      | CancelProcessor \<Rightarrow> Some cancel_worker
      | WebhookProcessor \<Rightarrow> Some webhook_worker
      | TimeoutSweeperProcessor \<Rightarrow> Some (sweeper_worker (timeoutSweeperCron cfg))
      | DataRetentionProcessor \<Rightarrow> Some (retention_worker (dataRetentionCron cfg))
      | _ \<Rightarrow> None)"

definition workers_of :: "app_config \<Rightarrow> worker list" where
  "workers_of cfg = List.map_filter (worker_of cfg) (concat (map (md_providers \<circ> decl_of) (modules_of WorkerModule)))"

text \<open>\<^verbatim>\<open>worker.ts\<close>: a failure is printed and ends the process with code 1.\<close>

definition worker_bootstrap :: "'pool start_env \<Rightarrow> nat + 'pool started" where
  "worker_bootstrap env =
     (case common_start env of
        Inl _ \<Rightarrow> Inl 1
      | Inr (cfg, client, db) \<Rightarrow>
          (case createBullMqConnection (redis_config cfg) of
             Inl _ \<Rightarrow> Inl 1
           | Inr _ \<Rightarrow>
               Inr \<lparr> sd_config = cfg, sd_redis = client, sd_db = db, sd_docs = False, sd_port = None,
                     sd_workers = workers_of cfg \<rparr>))"

section \<open>Shutdown\<close>

text \<open>\<open>Promise.all\<close> over the queues that were opened: it rejects when one of them does.\<close>

definition adapter_onModuleDestroy :: "(string \<Rightarrow> io) \<Rightarrow> queue_state \<Rightarrow> exn + unit" where
  "adapter_onModuleDestroy closes q =
     (if list_all (\<lambda>n. closes n = Done) (queue_pool q) then Inr () else Inl InfraError)"

definition RedisService_onModuleDestroy :: "io \<Rightarrow> exn + unit" where
  "RedisService_onModuleDestroy quits = (if quits = Done then Inr () else Inl InfraError)"

text \<open>The dispatch, cancel and webhook workers close their worker, the other two also their queue.\<close>

definition processor_onModuleDestroy :: "worker \<Rightarrow> io \<Rightarrow> io \<Rightarrow> exn + unit" where
  "processor_onModuleDestroy wk worker_closes queue_closes =
     (if worker_closes \<noteq> Done then Inl InfraError
      else if wk_schedule wk \<noteq> None \<and> queue_closes \<noteq> Done then Inl InfraError
      else Inr ())"

section \<open>What a started process has\<close>

lemma coerce_int_bound: "coerce_int least d v = Some n \<Longrightarrow> least \<le> d \<Longrightarrow> least \<le> n"
  by (auto simp: coerce_int_def split: option.splits js_number.splits if_splits)

lemma EnvSchema_bounds:
  assumes "EnvSchema issue_at var = Inr e"
  shows "NODE_ENV e \<in> {''development'', ''production'', ''test''} \<and> 1 \<le> PORT e \<and> 1 \<le> REDIS_PORT e \<and> 0 \<le> REDIS_DB e
    \<and> REDIS_HOST e \<noteq> [] \<and> postgres_url (DATABASE_URL e) \<and> 1 \<le> DATA_RETENTION_DAYS e \<and> 1 \<le> RATE_LIMIT_CAPACITY e"
proof -
  have "NODE_ENV e \<in> {''development'', ''production'', ''test''}" "postgres_url (DATABASE_URL e)" "REDIS_HOST e \<noteq> []"
    using assms by (auto simp: EnvSchema_def Let_def enum_of_def split: if_splits option.splits)
  moreover have "coerce_int 1 8080 (var ''PORT'') = Some (PORT e)" "coerce_int 1 6379 (var ''REDIS_PORT'') = Some (REDIS_PORT e)"
    "coerce_int 0 0 (var ''REDIS_DB'') = Some (REDIS_DB e)" "coerce_int 1 30 (var ''DATA_RETENTION_DAYS'') = Some (DATA_RETENTION_DAYS e)"
    "coerce_int 1 1000 (var ''RATE_LIMIT_CAPACITY'') = Some (RATE_LIMIT_CAPACITY e)"
    using assms by (auto simp: EnvSchema_def Let_def split: if_splits)
  from this [THEN coerce_int_bound] have "1 \<le> PORT e" "1 \<le> REDIS_PORT e" "0 \<le> REDIS_DB e" "1 \<le> DATA_RETENTION_DAYS e"
    "1 \<le> RATE_LIMIT_CAPACITY e" by simp_all
  ultimately show ?thesis by blast
qed

lemma common_start_iff:
  "common_start env = Inr (cfg, client, db) \<longleftrightarrow>
     appConfig (EnvSchema (se_issue env)) (se_var env) = Inr cfg \<and> se_select env = Done
   \<and> fst (new_RedisService (buildRedisOptions cfg)) = Inr client
   \<and> db = \<lparr>drizzle_sql = Some (se_postgres env (database_url cfg)), drizzle_db = Some (se_postgres env (database_url cfg))\<rparr>
   \<and> adapter_onModuleInit (redis_config cfg) (se_probe env) (se_probe_closes env) = Inr ()"
  by (auto simp: common_start_def DrizzleProvider_useFactory_def connect_def getDb_def Let_def split: sum.splits if_splits)

lemma appConfig_env:
  "appConfig pf var = Inr cfg \<Longrightarrow> \<exists>e. pf var = Inr e \<and> superRefine e = [] \<and> app_env cfg = NODE_ENV e \<and> app_port cfg = PORT e
     \<and> database_url cfg = DATABASE_URL e \<and> dataRetentionDays cfg = DATA_RETENTION_DAYS e
     \<and> timeoutSweeperCron cfg = TIMEOUT_SWEEPER_CRON e \<and> dataRetentionCron cfg = DATA_RETENTION_CRON e"
  by (auto simp: appConfig_def EnvSchema_parse_def split: sum.splits if_splits)

lemma workers_of_eq:
  "workers_of cfg = [dispatch_worker, cancel_worker, webhook_worker,
     sweeper_worker (timeoutSweeperCron cfg), retention_worker (dataRetentionCron cfg)]"
  by (simp add: workers_of_def worker_of_def modules_of_eq module_decls List.map_filter_def)

text \<open>The connection of the queues exists wherever the client does.\<close>

lemma worker_connection:
  assumes "appConfig pf var = Inr cfg" and "fst (new_RedisService (buildRedisOptions cfg)) = Inr client"
  shows "\<exists>c. createBullMqConnection (redis_config cfg) = Inr c"
proof -
  have "qc_clusterMode (redis_config cfg) \<Longrightarrow> truthy (qc_clusterNodes (redis_config cfg))"
    using assms(1) by (auto simp: appConfig_def EnvSchema_parse_def superRefine_def split: sum.splits if_splits)
  then show ?thesis
    using assms(2)
    by (cases "qc_clusterMode (redis_config cfg)"; cases "qc_clusterNodes (redis_config cfg)")
      (auto simp: new_RedisService_def createBullMqConnection_def buildRedisOptions_def Let_def split: sum.splits)
qed

section \<open>Starting\<close>

text \<open>
  C23: Starting up. The API process starts exactly when the environment is valid, PostgreSQL answers, the
  Redis connection can be described, the probe of Redis is answered and closed, and the port can be
  bound; then it listens on the configured port, a positive number, its database client is set, and the documentation is
  served outside production only. The worker process starts exactly under the same conditions but for the
  port, with the configuration and the connections these give, no port, and one worker on each of the
  five queues; otherwise it exits with code 1.
\<close>

theorem startup:
  "((\<exists>s. main_bootstrap env = Inr s) \<longleftrightarrow>
      (\<exists>cfg. appConfig (EnvSchema (se_issue env)) (se_var env) = Inr cfg \<and> se_select env = Done
         \<and> (\<exists>client. fst (new_RedisService (buildRedisOptions cfg)) = Inr client)
         \<and> se_probe env = None \<and> se_probe_closes env = Done \<and> se_listen env (app_port cfg)))
   \<and> (main_bootstrap env = Inr s \<longrightarrow>
      sd_port s = Some (app_port (sd_config s)) \<and> 1 \<le> app_port (sd_config s)
      \<and> getDb (sd_db s) = Some (se_postgres env (database_url (sd_config s))) \<and> postgres_url (database_url (sd_config s))
      \<and> 1 \<le> dataRetentionDays (sd_config s)
      \<and> (sd_docs s \<longleftrightarrow> app_env (sd_config s) \<in> {''development'', ''test''})
      \<and> (\<exists>s'. worker_bootstrap env = Inr s' \<and> sd_config s' = sd_config s \<and> sd_redis s' = sd_redis s
            \<and> length (sd_workers s') = 5 \<and> distinct (map wk_queue (sd_workers s'))))
   \<and> ((\<exists>s'. worker_bootstrap env = Inr s') \<longleftrightarrow>
      (\<exists>cfg. appConfig (EnvSchema (se_issue env)) (se_var env) = Inr cfg \<and> se_select env = Done
         \<and> (\<exists>client. fst (new_RedisService (buildRedisOptions cfg)) = Inr client)
         \<and> se_probe env = None \<and> se_probe_closes env = Done))
   \<and> (worker_bootstrap env = Inr s' \<longrightarrow>
      appConfig (EnvSchema (se_issue env)) (se_var env) = Inr (sd_config s')
      \<and> fst (new_RedisService (buildRedisOptions (sd_config s'))) = Inr (sd_redis s')
      \<and> getDb (sd_db s') = Some (se_postgres env (database_url (sd_config s'))) \<and> sd_port s' = None
      \<and> length (sd_workers s') = 5 \<and> distinct (map wk_queue (sd_workers s')))
   \<and> (worker_bootstrap env = Inl n \<longrightarrow> n = 1 \<and> main_bootstrap env \<notin> range Inr)"
proof (intro conjI)
  have probe: "adapter_onModuleInit (redis_config cfg) (se_probe env) (se_probe_closes env) = Inr () \<longleftrightarrow>
      se_probe env = None \<and> se_probe_closes env = Done"
    if "appConfig (EnvSchema (se_issue env)) (se_var env) = Inr cfg" "fst (new_RedisService (buildRedisOptions cfg)) = Inr client"
    for cfg client
    using worker_connection [OF that] probe_outcome by auto
  have main: "(\<exists>s. main_bootstrap env = Inr s) \<longleftrightarrow>
      (\<exists>cfg client db. common_start env = Inr (cfg, client, db) \<and> se_listen env (app_port cfg))"
    by (auto simp: main_bootstrap_def split: sum.splits if_splits)
  show "(\<exists>s. main_bootstrap env = Inr s) \<longleftrightarrow>
      (\<exists>cfg. appConfig (EnvSchema (se_issue env)) (se_var env) = Inr cfg \<and> se_select env = Done
         \<and> (\<exists>client. fst (new_RedisService (buildRedisOptions cfg)) = Inr client)
         \<and> se_probe env = None \<and> se_probe_closes env = Done \<and> se_listen env (app_port cfg))"
    unfolding main common_start_iff using probe by blast
  have worker: "\<exists>s'. worker_bootstrap env = Inr s' \<and> sd_config s' = cfg \<and> sd_redis s' = client
      \<and> length (sd_workers s') = 5 \<and> distinct (map wk_queue (sd_workers s'))"
    if start: "common_start env = Inr (cfg, client, db)" for cfg client db
  proof -
    obtain c where "createBullMqConnection (redis_config cfg) = Inr c"
      using worker_connection start unfolding common_start_iff by blast
    then show ?thesis
      by (simp add: worker_bootstrap_def start workers_of_eq dispatch_worker_def cancel_worker_def webhook_worker_def
          sweeper_worker_def retention_worker_def)
  qed
  have start_iff: "(\<exists>s'. worker_bootstrap env = Inr s') \<longleftrightarrow> (\<exists>cfg client db. common_start env = Inr (cfg, client, db))"
  proof
    assume "\<exists>s'. worker_bootstrap env = Inr s'"
    then show "\<exists>cfg client db. common_start env = Inr (cfg, client, db)"
      by (auto simp: worker_bootstrap_def split: sum.splits)
  qed (use worker in blast)
  show "(\<exists>s'. worker_bootstrap env = Inr s') \<longleftrightarrow>
      (\<exists>cfg. appConfig (EnvSchema (se_issue env)) (se_var env) = Inr cfg \<and> se_select env = Done
         \<and> (\<exists>client. fst (new_RedisService (buildRedisOptions cfg)) = Inr client)
         \<and> se_probe env = None \<and> se_probe_closes env = Done)"
    unfolding start_iff common_start_iff using probe by blast
  show "worker_bootstrap env = Inr s' \<longrightarrow>
      appConfig (EnvSchema (se_issue env)) (se_var env) = Inr (sd_config s')
      \<and> fst (new_RedisService (buildRedisOptions (sd_config s'))) = Inr (sd_redis s')
      \<and> getDb (sd_db s') = Some (se_postgres env (database_url (sd_config s'))) \<and> sd_port s' = None
      \<and> length (sd_workers s') = 5 \<and> distinct (map wk_queue (sd_workers s'))"
  proof
    assume "worker_bootstrap env = Inr s'"
    then obtain cfg client db where c: "common_start env = Inr (cfg, client, db)"
      and s': "s' = \<lparr> sd_config = cfg, sd_redis = client, sd_db = db, sd_docs = False, sd_port = None,
                      sd_workers = workers_of cfg \<rparr>"
      by (auto simp: worker_bootstrap_def split: sum.splits)
    from c [unfolded common_start_iff] worker [OF c] show "appConfig (EnvSchema (se_issue env)) (se_var env) = Inr (sd_config s')
      \<and> fst (new_RedisService (buildRedisOptions (sd_config s'))) = Inr (sd_redis s')
      \<and> getDb (sd_db s') = Some (se_postgres env (database_url (sd_config s'))) \<and> sd_port s' = None
      \<and> length (sd_workers s') = 5 \<and> distinct (map wk_queue (sd_workers s'))"
      using \<open>worker_bootstrap env = Inr s'\<close> by (auto simp: s' getDb_def)
  qed
  show "main_bootstrap env = Inr s \<longrightarrow>
      sd_port s = Some (app_port (sd_config s)) \<and> 1 \<le> app_port (sd_config s)
      \<and> getDb (sd_db s) = Some (se_postgres env (database_url (sd_config s))) \<and> postgres_url (database_url (sd_config s))
      \<and> 1 \<le> dataRetentionDays (sd_config s)
      \<and> (sd_docs s \<longleftrightarrow> app_env (sd_config s) \<in> {''development'', ''test''})
      \<and> (\<exists>s'. worker_bootstrap env = Inr s' \<and> sd_config s' = sd_config s \<and> sd_redis s' = sd_redis s
            \<and> length (sd_workers s') = 5 \<and> distinct (map wk_queue (sd_workers s')))"
  proof
    assume "main_bootstrap env = Inr s"
    then obtain cfg client db where c: "common_start env = Inr (cfg, client, db)"
      and s: "s = \<lparr> sd_config = cfg, sd_redis = client, sd_db = db, sd_docs = (app_env cfg \<noteq> ''production''),
                     sd_port = Some (app_port cfg), sd_workers = [] \<rparr>"
      by (auto simp: main_bootstrap_def split: sum.splits if_splits)
    note i = c [unfolded common_start_iff]
    obtain e where e: "EnvSchema (se_issue env) (se_var env) = Inr e" "app_env cfg = NODE_ENV e" "app_port cfg = PORT e"
      "database_url cfg = DATABASE_URL e" "dataRetentionDays cfg = DATA_RETENTION_DAYS e"
      using appConfig_env i by blast
    show "sd_port s = Some (app_port (sd_config s)) \<and> 1 \<le> app_port (sd_config s)
      \<and> getDb (sd_db s) = Some (se_postgres env (database_url (sd_config s))) \<and> postgres_url (database_url (sd_config s))
      \<and> 1 \<le> dataRetentionDays (sd_config s)
      \<and> (sd_docs s \<longleftrightarrow> app_env (sd_config s) \<in> {''development'', ''test''})
      \<and> (\<exists>s'. worker_bootstrap env = Inr s' \<and> sd_config s' = sd_config s \<and> sd_redis s' = sd_redis s
            \<and> length (sd_workers s') = 5 \<and> distinct (map wk_queue (sd_workers s')))"
      using EnvSchema_bounds [OF e(1)] i worker [OF c] by (auto simp: s e getDb_def)
  qed
  show "worker_bootstrap env = Inl n \<longrightarrow> n = 1 \<and> main_bootstrap env \<notin> range Inr"
  proof
    assume n: "worker_bootstrap env = Inl n"
    have "common_start env \<noteq> Inr (cfg, client, db)" for cfg client db using worker n by fastforce
    then have "main_bootstrap env \<noteq> Inr s" for s using main by blast
    moreover have "n = 1" using n by (auto simp: worker_bootstrap_def split: sum.splits prod.splits)
    ultimately show "n = 1 \<and> main_bootstrap env \<notin> range Inr" by blast
  qed
qed

definition sample_start :: "string start_env" where
  "sample_start =
     \<lparr> se_var = [''DATABASE_URL'' \<mapsto> ''postgres://db''], se_issue = (\<lambda>k. RawIssue ''custom'' [Key k] [] None),
       se_postgres = (\<lambda>s. s), se_select = Done, se_probe = None, se_probe_closes = Done, se_listen = (\<lambda>_. True) \<rparr>"

lemma sample_start_config:
  "\<exists>cfg client. appConfig (EnvSchema (se_issue sample_start)) (se_var sample_start) = Inr cfg
     \<and> fst (new_RedisService (buildRedisOptions cfg)) = Inr client"
proof -
  have "postgres_url ''postgres://db''" by code_simp
  then show ?thesis
    by (simp add: sample_start_def appConfig_def EnvSchema_parse_def EnvSchema_def coerce_int_def enum_of_def enum_flag_def
        superRefine_def new_RedisService_def buildRedisOptions_def Let_def) blast
qed

theorem startup_witness:
  "\<exists>s. main_bootstrap sample_start = Inr s \<and> getDb (sd_db s) = Some (database_url (sd_config s))"
proof -
  have "se_select sample_start = Done" "se_probe sample_start = None" "se_probe_closes sample_start = Done"
    "se_listen sample_start p" "se_postgres sample_start x = x" for p x
    by (simp_all add: sample_start_def)
  moreover from this obtain s where "main_bootstrap sample_start = Inr s"
    using startup [of sample_start undefined undefined 0] sample_start_config by auto
  ultimately show ?thesis using startup [of sample_start s undefined 0] by auto
qed

end
