(* ===== verification/ApiDocs.thy ===== *)
theory ApiDocs
  imports HttpGuarantees
begin

text \<open>
  The OpenAPI metadata: \<^verbatim>\<open>src/common/decorators/swagger.decorators.ts\<close>, the documentation half of
  \<^verbatim>\<open>parse.decorators.ts\<close>, the response decorators of the controllers, and the modules that
  \<^verbatim>\<open>src/main.ts\<close> includes. The generator of OpenAPI schemas is a parameter, from the registered schemas
  to a document.
\<close>

section \<open>Schemas as documents\<close>

definition zodToOpenAPI :: "((string \<times> 's) list \<Rightarrow> json) \<Rightarrow> 's \<Rightarrow> json option" where
  "zodToOpenAPI generate schema =
     Option.bind (field_of ''components'' (generate [(''Temp'', schema)]))
       (\<lambda>c. Option.bind (field_of ''schemas'' c) (field_of ''Temp''))"

text \<open>What a decorator adds to a method.\<close>

datatype doc_meta =
    BodyDoc "string option" json                        \<comment> \<open>description, schema\<close>
  | ResponseDoc nat "string option" "json option"       \<comment> \<open>status, description, schema\<close>
  | QueryDoc string bool json "string option"           \<comment> \<open>name, required, schema, description\<close>
  | ParamDoc string json "string option"

definition described :: "string option \<Rightarrow> string option" where
  "described d = (if truthy d then d else None)"

definition ApiZodBody :: "((string \<times> 's) list \<Rightarrow> json) \<Rightarrow> 's \<Rightarrow> string option \<Rightarrow> doc_meta list" where
  "ApiZodBody generate schema description =
     (case zodToOpenAPI generate schema of
        None \<Rightarrow> []
      | Some s \<Rightarrow> [BodyDoc (described description) s])"

definition ApiZodResponse :: "((string \<times> 's) list \<Rightarrow> json) \<Rightarrow> nat \<Rightarrow> 's \<Rightarrow> string option \<Rightarrow> doc_meta list" where
  "ApiZodResponse generate n schema description =
     (case zodToOpenAPI generate schema of
        None \<Rightarrow> []
      | Some s \<Rightarrow> [ResponseDoc n (described description) (Some s)])"

section \<open>Parameter decorators\<close>

text \<open>
  \<open>has_descriptor\<close> is whether the decorated method is a property of the class. The entries of the
  properties come in the order the generator wrote them.
\<close>

definition ParseBody_docs :: "((string \<times> 's) list \<Rightarrow> json) \<Rightarrow> bool \<Rightarrow> 's \<Rightarrow> doc_meta list" where
  "ParseBody_docs generate has_descriptor schema =
     (case zodToOpenAPI generate schema of
        Some s \<Rightarrow> if has_descriptor then [BodyDoc None s] else []
      | None \<Rightarrow> [])"

definition object_properties :: "json \<Rightarrow> (string \<times> json) list" where
  "object_properties s =
     (if field_of ''type'' s = Some (JStr ''object'')
      then (case field_of ''properties'' s of Some (JObj ps) \<Rightarrow> ps | _ \<Rightarrow> [])
      else [])"

definition required_fields :: "json \<Rightarrow> json list" where
  "required_fields s = (case field_of ''required'' s of Some (JArr xs) \<Rightarrow> xs | _ \<Rightarrow> [])"

definition ParseQuery_docs :: "((string \<times> 's) list \<Rightarrow> json) \<Rightarrow> bool \<Rightarrow> 's \<Rightarrow> doc_meta list" where
  "ParseQuery_docs generate has_descriptor schema =
     (case zodToOpenAPI generate schema of
        Some s \<Rightarrow>
          if has_descriptor
          then map (\<lambda>(k, p). QueryDoc k (JStr k \<in> set (required_fields s)) p (described (text_field ''description'' p)))
                 (object_properties s)
          else []
      | None \<Rightarrow> [])"

definition ParseParams_docs :: "((string \<times> 's) list \<Rightarrow> json) \<Rightarrow> bool \<Rightarrow> 's \<Rightarrow> doc_meta list" where
  "ParseParams_docs generate has_descriptor schema =
     (case zodToOpenAPI generate schema of
        Some s \<Rightarrow>
          if has_descriptor
          then map (\<lambda>(k, p). ParamDoc k p (described (text_field ''description'' p))) (object_properties s)
          else []
      | None \<Rightarrow> [])"

section \<open>What the controllers declare\<close>

fun endpoint_docs :: "((string \<times> zod) list \<Rightarrow> json) \<Rightarrow> (string \<times> zod) list \<Rightarrow> (string \<times> zod) list \<Rightarrow> endpoint \<Rightarrow> doc_meta list" where
  "endpoint_docs generate ins sel Create_Task =
     ApiZodResponse generate 202 TaskCreatedResponseSchema (Some ''Task accepted for processing'')
       @ ParseBody_docs generate True (CreateTaskSchema ins)"
| "endpoint_docs generate ins sel Get_Task =
     ApiZodResponse generate 200 (TaskResponseSchema sel) (Some ''Returns the task snapshot'')
       @ [ResponseDoc 404 (Some ''Task not found'') None]"
| "endpoint_docs generate ins sel Cancel_Task =
     [ResponseDoc 204 (Some ''Task cancelled successfully'') None,
      ResponseDoc 409 (Some ''Task is already processing or finished'') None]"
| "endpoint_docs generate ins sel Submit_Result =
     [ResponseDoc 204 (Some ''Result accepted'') None,
      ResponseDoc 401 (Some ''Invalid or missing callback token'') None,
      ResponseDoc 409 (Some ''Task is not in PROCESSING state'') None]
       @ ParseBody_docs generate True SubmitResultSchema"
| "endpoint_docs generate ins sel Update_Progress =
     [ResponseDoc 204 (Some ''Progress updated'') None,
      ResponseDoc 401 (Some ''Invalid or missing callback token'') None,
      ResponseDoc 409 (Some ''Task is not in PROCESSING state'') None]
       @ ParseBody_docs generate True UpdateProgressSchema"
| "endpoint_docs generate ins sel Stream_Task =
     [ResponseDoc 200 (Some ''SSE stream opened; events follow task lifecycle'') None,
      ResponseDoc 404 (Some ''Task not found'') None]"
| "endpoint_docs generate ins sel _ = []"

text \<open>The routes in the served document: those of the controllers of the included modules.\<close>

definition documented_modules :: "app_module list" where
  "documented_modules = [TasksModule, ExecutorModule]"

definition documented_endpoints :: "endpoint list" where
  "documented_endpoints = concat (map (\<lambda>m. concat (map (\<lambda>c. map (snd \<circ> snd) (methods c)) (md_controllers (decl_of m)))) documented_modules)"

section \<open>The documents against the server\<close>

definition doc_statuses :: "doc_meta list \<Rightarrow> nat list" where
  "doc_statuses ds = List.map_filter (\<lambda>d. case d of ResponseDoc n _ _ \<Rightarrow> Some n | _ \<Rightarrow> None) ds"

lemma doc_statuses_simps [simp]:
  "doc_statuses [] = []" "doc_statuses (ResponseDoc n d s # ds) = n # doc_statuses ds"
  "doc_statuses (BodyDoc d' s' # ds) = doc_statuses ds" "doc_statuses (ds @ es) = doc_statuses ds @ doc_statuses es"
  by (simp_all add: doc_statuses_def List.map_filter_def)

lemma ParseBody_docs_statuses [simp]: "doc_statuses (ParseBody_docs generate b sc) = []"
  by (simp add: ParseBody_docs_def split: option.split)

fun success_code :: "endpoint \<Rightarrow> nat" where
  "success_code Create_Task = 202"
| "success_code Cancel_Task = 204"
| "success_code Submit_Result = 204"
| "success_code Update_Progress = 204"
| "success_code _ = 200"

lemma answer_code: "answer n f r = (Inr (m, b), w) \<Longrightarrow> m = n"
  by (auto simp: answer_def split: prod.splits sum.splits)

lemma run_endpoint_code:
  "run_endpoint env rq ep req w = (Inr (n, b), w') \<Longrightarrow> n = success_code ep"
  by (cases ep)
    (auto simp: run_endpoint_def create_endpoint_def callback_endpoint_def dest!: answer_code split: sum.splits)

text \<open>
  The API documents and the server agree on success, except for one route. Wherever the generator
  produces a schema, a request that a documented route answers with success gets
  the one success status its decorators declare. The event stream, although decorated, is on no documented route: its
  module is not among those included.
\<close>

theorem documented_success:
  assumes "find_route (ae_same env) api_routes (rq_verb rq) (rq_segments rq) = Some (ep, ps)"
    and "ep \<in> set documented_endpoints" and "\<forall>sc. zodToOpenAPI generate sc \<noteq> None"
    and "serve env rq w = (rs, w')" and "rs_status rs < 400"
  shows "filter (\<lambda>n. n < 400) (doc_statuses (endpoint_docs generate ins sel ep)) = [rs_status rs]
    \<and> documented_endpoints = [Create_Task, Get_Task, Cancel_Task, Submit_Result, Update_Progress]
    \<and> Stream_Task \<in> snd ` snd ` set api_routes \<and> endpoint_docs generate ins sel Stream_Task \<noteq> []"
proof -
  have eps: "documented_endpoints = [Create_Task, Get_Task, Cancel_Task, Submit_Result, Update_Progress]"
    by (simp add: documented_endpoints_def documented_modules_def module_decls TasksController_def ExecutorController_def)
  have resp: "doc_statuses (ApiZodResponse generate n sc d) = [n]" for n sc d
    using assms(3) by (auto simp: ApiZodResponse_def split: option.split)
  have codes: "filter (\<lambda>n. n < 400) (doc_statuses (endpoint_docs generate ins sel ep)) = [success_code ep]"
    using assms(2) by (auto simp: eps resp)
  have run: "dispatch_request env rq w = run_endpoint env rq ep (header_request rq ps) w"
    by (simp add: dispatch_request_def assms(1))
  have "rs_status rs = success_code ep"
  proof (rule serve_cases [of env rq w])
    fix n b w1
    assume "dispatch_request env rq w = (Inr (n, b), w1)"
      and "serve env rq w = (\<lparr>rs_status = n, rs_requestId = snd (requestId_use (ae_uuid env) (rq_requestId rq)), rs_body = b\<rparr>, w1)"
    then show ?thesis using run_endpoint_code assms(4) by (auto simp: run)
  next
    fix x w1
    assume x: "dispatch_request env rq w = (Inl x, w1)"
      and r: "serve env rq w = (\<lparr>rs_status = res_status (resolveException x),
       rs_requestId = snd (requestId_use (ae_uuid env) (rq_requestId rq)),
       rs_body = Error_Body (snd (snd (filter_catch (ae_now env) (rq_url rq) x)))\<rparr>, w1)"
    have "ep \<noteq> Health_Ready" using assms(2) by (auto simp: eps)
    then have "sound w (dispatch_request env rq w)" unfolding run by (rule sound_endpoint)
    then have "sound_result w (Inl x) w1" by (simp add: x sound_def)
    then show ?thesis
      using r assms(4,5) by (cases x) (auto simp: resolveException_def)
  qed
  moreover have "Stream_Task \<in> snd ` snd ` set api_routes"
    by (simp add: api_route_defs)
  ultimately show ?thesis using codes by (simp add: eps)
qed

definition sample_generator :: "(string \<times> zod) list \<Rightarrow> json" where
  "sample_generator ds = JObj [(''components'', JObj [(''schemas'', JObj (map (\<lambda>(k, _). (k, JNull)) ds))])]"

theorem documented_success_witness:
  "filter (\<lambda>n. n < 400) (doc_statuses (endpoint_docs sample_generator [] [] Create_Task)) = [202]"
proof -
  obtain rs w' where s: "serve sample_api (sample_request POST [''v1'', ''tasks''] sample_body) empty_world = (rs, w')"
    "rs_status rs = 202"
    using sample_created by fastforce
  have route: "find_route (ae_same sample_api) api_routes (rq_verb (sample_request POST [''v1'', ''tasks''] sample_body))
      (rq_segments (sample_request POST [''v1'', ''tasks''] sample_body)) = Some (Create_Task, [])"
    by (simp add: api_route_defs)
  have ep: "Create_Task \<in> set documented_endpoints"
    by (simp add: documented_endpoints_def documented_modules_def module_decls TasksController_def)
  have gen: "\<forall>sc. zodToOpenAPI sample_generator sc \<noteq> None"
    by (simp add: zodToOpenAPI_def field_of_def sample_generator_def)
  from documented_success [OF route ep gen s(1), of "[]" "[]"] s(2) show ?thesis by simp
qed

end
