(* ===== verification/JobAccounting.thy ===== *)
theory JobAccounting
  imports Workers
begin

text \<open>
  How often the others are told. A handler enqueues a job after the statement that called for it: the
  insert of a task for the dispatch job, the winning report for the webhook job, the winning
  cancellation for the cancel job. Counting the jobs stored and those still owed, over every
  interleaving of statements, shows that no task ever gets two jobs on a queue, and never both a
  webhook and a cancel job.
\<close>

section \<open>Counting\<close>

text \<open>The task a job is about: the data of a cancel job has the identifier as the URL spelled it.\<close>

definition about :: "string \<Rightarrow> string \<Rightarrow> uuid" where
  "about q x = (if q = ''cancel'' then db_uuid x else x)"

definition stored_calls :: "string \<Rightarrow> uuid \<Rightarrow> world \<Rightarrow> nat" where
  "stored_calls q i w = length (filter (\<lambda>j. about q (job_taskId (bj_data j)) = i) (jobs q w))"

definition owed_calls :: "string \<Rightarrow> uuid \<Rightarrow> sys \<Rightarrow> nat" where
  "owed_calls q i s = length (filter (\<lambda>(q', x). q' = q \<and> about q x = i) (owed s))"

definition calls :: "string \<Rightarrow> uuid \<Rightarrow> sys \<Rightarrow> nat" where
  "calls q i s = owed_calls q i s + stored_calls q i (st s)"

definition accounted :: "sys \<Rightarrow> bool" where
  "accounted s \<longleftrightarrow>
     (\<forall>i. calls DISPATCH_QUEUE i s \<le> 1 \<and> calls ''webhook'' i s + calls ''cancel'' i s \<le> 1
        \<and> (calls DISPATCH_QUEUE i s > 0 \<or> calls ''webhook'' i s > 0 \<or> calls ''cancel'' i s > 0 \<longrightarrow> i \<in> set (issued s))
        \<and> (calls ''webhook'' i s > 0 \<longrightarrow> status_of i (st s) \<in> {None, Some COMPLETED, Some FAILED})
        \<and> (calls ''cancel'' i s > 0 \<longrightarrow> status_of i (st s) \<in> {None, Some CANCELLED}))"

lemma length_filter_remove1:
  "a \<in> set xs \<Longrightarrow> length (filter P (remove1 a xs)) + (if P a then 1 else 0) = length (filter P xs)"
  by (induction xs) auto

lemma calls_enqueue:
  assumes "(q, job_taskId (job_data j)) \<in> set (owed s)"
  shows "calls q' i (s\<lparr>st := snd (enqueue_job v q j opts (st s)), owed := remove1 (q, job_taskId (job_data j)) (owed s)\<rparr>)
    \<le> calls q' i s"
  using length_filter_remove1 [OF assms, of "\<lambda>(q'', x). q'' = q' \<and> about q' x = i"]
  by (cases "q' = q") (auto simp: calls_def owed_calls_def stored_calls_def jobs_enqueue_job split: if_splits)

section \<open>What calls for a job\<close>

text \<open>Either nothing new is called for, or a statement that can succeed only once per task has.\<close>

inductive called :: "sys \<Rightarrow> sys \<Rightarrow> bool" where
  none_called: "(\<And>q i. calls q i s' \<le> calls q i s) \<Longrightarrow> called s s'"
| one_called: "bull (st s') = bull (st s) \<Longrightarrow> owed s' = (q, x) # owed s \<Longrightarrow> about q x = i \<Longrightarrow>
     (q = DISPATCH_QUEUE \<and> i \<notin> set (issued s) \<and> i \<in> set (issued s'))
     \<or> (q = ''webhook'' \<and> status_of i (st s) = Some PROCESSING \<and> status_of i (st s') \<in> {Some COMPLETED, Some FAILED})
     \<or> (q = ''cancel'' \<and> (\<exists>a. status_of i (st s) = Some a \<and> active a) \<and> status_of i (st s') = Some CANCELLED) \<Longrightarrow>
     called s s'"

lemma called_frame: "bull (st s') = bull (st s) \<Longrightarrow> owed s' = owed s \<Longrightarrow> called s s'"
  by (rule none_called) (simp add: calls_def owed_calls_def stored_calls_def)

lemma cancelTask_moves:
  assumes "db_inv w" and "cancelTask now upd eid dbnow i (w :: world) = (Inr (Some x), w')"
  shows "(\<exists>a. status_of i w = Some a \<and> active a) \<and> status_of i w' = Some CANCELLED"
proof -
  obtain t ev where t: "findById i w = Some t" "active (status t)"
    and w': "w' = w\<lparr>tasks := update_where (\<lambda>t. task_id t = i \<and> active (status t))
         (set_status upd CANCELLED (no_patch\<lparr>set_completedAt := Some (Some now)\<rparr>)) (tasks w),
       task_events := task_events w @ [ev]\<rparr>"
    using assms(2)
    by (auto simp: cancelTask_eq [OF assms(1)] insertEventInTx_Inr Let_def split: option.splits if_splits sum.splits)
  have "findById i w' = Some (set_status upd CANCELLED (no_patch\<lparr>set_completedAt := Some (Some now)\<rparr>) t)"
    using findById_hit [OF assms(1) t(1), of "\<lambda>t. active (status t)" _ i] t(2) by (simp add: w' findById_def)
  with t show ?thesis by (simp add: status_of_def)
qed

lemma step_called: "sys_step s s' \<Longrightarrow> sys_inv s \<Longrightarrow> called s s'"
proof (induction rule: sys_step.induct)
  case (create_insert env s dto t w)
  have "bull w = bull (st s)"
    using repo_frames(2) [of "ce_id env" "ce_dbnow env" "create_values env dto" "st s"] create_insert(3) by simp
  with create_insert(1) show ?case
    by (intro one_called [where q = DISPATCH_QUEUE and x = "ce_id env" and i = "ce_id env"])
      (simp_all add: about_def DISPATCH_QUEUE_def)
next
  case (report dto env i s t w)
  have inv: "db_inv (st s)" using report(3) by (simp add: sys_inv_def)
  have "bull w = bull (st s)" using arg_cong [OF report(2), of "\<lambda>r. bull (snd r)"] by simp
  moreover have "status_of i (st s) = Some PROCESSING" "status_of i w = Some (dto_status dto)"
    using repo.cas_hit [OF inv report(2)] by auto
  moreover have "dto_status dto \<in> {COMPLETED, FAILED}" by (cases dto) simp_all
  ultimately show ?case
    by (intro one_called [where q = "''webhook''" and x = i and i = i]) (auto simp: about_def)
next
  case (cancel_step now upd eid dbnow i s r w)
  have inv: "db_inv (st s)" using cancel_step(2) by (simp add: sys_inv_def)
  have b: "bull w = bull (st s)" using bull_statements(1) [of now upd eid dbnow "db_uuid i" "st s"] cancel_step(1) by simp
  show ?case
  proof (cases "\<exists>x. r = Inr (Some x)")
    case True
    then obtain x where r: "r = Inr (Some x)" by blast
    from cancelTask_moves [OF inv cancel_step(1) [unfolded r]] b show ?thesis
      by (intro one_called [where q = "''cancel''" and x = i and i = "db_uuid i"]) (auto simp: about_def r)
  next
    case False
    then show ?thesis by (intro called_frame) (auto simp: b split: sum.split option.split)
  qed
next
  case (enqueue_step q j opts s v)
  show ?case by (rule none_called) (rule calls_enqueue [OF enqueue_step(2)])
next
  case (event_insert inp s eid now ev w)
  then show ?case using bull_statements(9) [of eid now inp "st s"] by (intro called_frame) simp_all
qed (intro called_frame; simp)+

section \<open>The invariant\<close>

lemma accounted_step:
  assumes "sys_step s s'" and "sys_inv s" and "accounted s"
  shows "accounted s'"
proof -
  have good: "set (issued s) \<subseteq> set (issued s')"
    "\<And>i. status_move (i \<notin> set (issued s)) (status_of i (st s)) (status_of i (st s'))"
    "known_ids s'"
    using good_sys_step [OF assms(1,2)] by (simp_all add: good_step_def sys_inv_def)
  have stay: "status_of i (st s') \<in> {None, Some x}"
    if "status_of i (st s) \<in> {None, Some x}" "terminal x" "i \<in> set (issued s)" for i x
    using good(2) [of i] that by (auto simp: status_move_def)
  have acc: "calls DISPATCH_QUEUE i s \<le> 1" "calls ''webhook'' i s + calls ''cancel'' i s \<le> 1"
    "calls DISPATCH_QUEUE i s > 0 \<or> calls ''webhook'' i s > 0 \<or> calls ''cancel'' i s > 0 \<Longrightarrow> i \<in> set (issued s)"
    "calls ''webhook'' i s > 0 \<Longrightarrow> status_of i (st s) \<in> {None, Some COMPLETED, Some FAILED}"
    "calls ''cancel'' i s > 0 \<Longrightarrow> status_of i (st s) \<in> {None, Some CANCELLED}" for i
    using assms(3) unfolding accounted_def by blast+
  have later: "calls ''webhook'' i s > 0 \<Longrightarrow> status_of i (st s') \<in> {None, Some COMPLETED, Some FAILED}"
    "calls ''cancel'' i s > 0 \<Longrightarrow> status_of i (st s') \<in> {None, Some CANCELLED}" for i
    using acc(3-5) [of i] stay [of i COMPLETED] stay [of i FAILED] stay [of i CANCELLED] by auto
  from step_called [OF assms(1,2)] show ?thesis
  proof cases
    case none_called
    have "calls DISPATCH_QUEUE i s' \<le> 1" "calls ''webhook'' i s' + calls ''cancel'' i s' \<le> 1" for i
      using acc(1,2) [of i] none_called [of DISPATCH_QUEUE i] none_called [of "''webhook''" i] none_called [of "''cancel''" i]
      by linarith+
    moreover have "calls q i s' > 0 \<Longrightarrow> calls q i s > 0" for q i using none_called [of q i] by linarith
    ultimately show ?thesis
      unfolding accounted_def using acc(3) later good(1) by (meson subsetD)
  next
    case (one_called q x i)
    have new: "calls q' j s' = calls q' j s + (if q' = q \<and> j = i then 1 else 0)" for q' j
      using one_called(1-3) by (auto simp: calls_def owed_calls_def stored_calls_def)
    have zero: "calls ''webhook'' j s = 0 \<and> calls ''cancel'' j s = 0" if "status_of j (st s) = Some a" "active a" for j a
      using acc(4,5) [of j] that by (cases a) auto
    have known: "j \<in> set (issued s')" if "status_of j (st s') \<noteq> None" for j
      using good(3) that by (auto simp: known_ids_iff)
    from one_called(4) show ?thesis
    proof (elim disjE conjE)
      assume q: "q = DISPATCH_QUEUE" and i: "i \<notin> set (issued s)" "i \<in> set (issued s')"
      have "\<not> calls DISPATCH_QUEUE i s > 0"
      proof
        assume "calls DISPATCH_QUEUE i s > 0"
        then have "i \<in> set (issued s)" by (intro acc(3)) simp
        with i(1) show False by simp
      qed
      then have "calls DISPATCH_QUEUE i s = 0" by simp
      then show ?thesis
        using acc(1-3) later good(1) i(2) by (auto simp: accounted_def new q DISPATCH_QUEUE_def)
    next
      assume q: "q = ''webhook''" and i: "status_of i (st s) = Some PROCESSING" "status_of i (st s') \<in> {Some COMPLETED, Some FAILED}"
      have "calls ''webhook'' i s = 0 \<and> calls ''cancel'' i s = 0" using zero [OF i(1)] by simp
      then show ?thesis
        using acc(1-3) later good(1) i(2) known [of i] by (auto simp: accounted_def new q DISPATCH_QUEUE_def)
    next
      assume q: "q = ''cancel''" and i: "\<exists>a. status_of i (st s) = Some a \<and> active a" "status_of i (st s') = Some CANCELLED"
      have "calls ''webhook'' i s = 0 \<and> calls ''cancel'' i s = 0" using zero i(1) by blast
      then show ?thesis
        using acc(1-3) later good(1) i(2) known [of i] by (auto simp: accounted_def new q DISPATCH_QUEUE_def)
    qed
  qed
qed

interpretation ledger: inductive_invariant sys_init sys_step "\<lambda>s. sys_inv s \<and> accounted s"
proof unfold_locales
  show "sys_inv s \<and> accounted s" if "sys_init s" for s
    using that sys_init_inv [OF that]
    by (simp add: sys_init_def accounted_def calls_def owed_calls_def stored_calls_def empty_world_def empty_queues_def)
  show "sys_inv s' \<and> accounted s'" if "sys_inv s \<and> accounted s" "sys_step s s'" for s s'
    using that accounted_step run.invar_step by blast
qed

end
