(* ===== verification/Lifecycle.thy ===== *)
theory Lifecycle
  imports HttpGuarantees JobAccounting
begin

text \<open>
  A task from the queue to its client, through every part of the program: the dispatch job, the
  executor's callback, the status route, the log, the channel and the webhook; and how often the
  running program tells the others.
\<close>

section \<open>Notifications\<close>

text \<open>
  C6: The program tells the others at most once. In every state it reaches, no task has two dispatch jobs,
  and of webhook and cancel jobs together at most one; a webhook job means that the task has completed
  or failed (or its row is gone), a cancel job that it was cancelled.
\<close>

theorem notified_once:
  assumes "reach handler_init api_step (w, ids)"
  shows "stored_calls DISPATCH_QUEUE i w \<le> 1 \<and> stored_calls ''webhook'' i w + stored_calls ''cancel'' i w \<le> 1
    \<and> (stored_calls ''webhook'' i w \<noteq> 0 \<longrightarrow> status_of i w \<in> {None, Some COMPLETED, Some FAILED})
    \<and> (stored_calls ''cancel'' i w \<noteq> 0 \<longrightarrow> status_of i w \<in> {None, Some CANCELLED})"
proof -
  from server.covered [OF assms] obtain s where s: "reach sys_init sys_step s" "st s = w" by (auto simp: covers_def)
  have "accounted s" using ledger.invar_reach [OF s(1)] by simp
  then have c: "calls DISPATCH_QUEUE i s \<le> 1" "calls ''webhook'' i s + calls ''cancel'' i s \<le> 1"
    "calls ''webhook'' i s > 0 \<longrightarrow> status_of i w \<in> {None, Some COMPLETED, Some FAILED}"
    "calls ''cancel'' i s > 0 \<longrightarrow> status_of i w \<in> {None, Some CANCELLED}"
    unfolding accounted_def s(2) by blast+
  have "stored_calls q i w \<le> calls q i s" for q by (simp add: calls_def s(2))
  from this [of DISPATCH_QUEUE] this [of "''webhook''"] this [of "''cancel''"] c show ?thesis by linarith
qed

theorem notified_once_witness:
  "stored_calls DISPATCH_QUEUE ''new''
     (snd (serve sample_api (sample_request POST [''v1'', ''tasks''] sample_body) empty_world)) \<le> 1"
  using notified_once [OF reach_created] by blast



section \<open>From the queue to the client\<close>

lemma task_routes:
  assumes "literal_compare same" and "i \<noteq> []"
  shows "find_route same api_routes POST [''v1'', ''tasks'', i, ''result''] = Some (Submit_Result, [i])"
    and "find_route same api_routes GET [''v1'', ''tasks'', i] = Some (Get_Task, [i])"
proof -
  have same: "same l l" "map lower_ascii s \<noteq> map lower_ascii l \<Longrightarrow> \<not> same l s" for l s
    using assms(1) by (auto simp: literal_compare_def)
  have "\<not> same ''health'' ''tasks''" "\<not> same ''metrics'' ''tasks''" by (rule same(2), simp add: lower_ascii_def)+
  then show "find_route same api_routes POST [''v1'', ''tasks'', i, ''result''] = Some (Submit_Result, [i])"
    "find_route same api_routes GET [''v1'', ''tasks'', i] = Some (Get_Task, [i])"
    using assms(2) same(1) by (simp_all add: api_route_defs)
qed

text \<open>The executor's answer, sent with the header of the call it got.\<close>

lemma callback_served:
  assumes "literal_compare (ae_same env)" and "rq_verb rq = POST" and "rq_segments rq = [''v1'', ''tasks'', i, ''result'']"
    and "rq_authorization rq = map_of (call_headers (dispatch_call i t)) ''Authorization''"
    and "callbackToken t = Some tok" and "tok \<noteq> []" and "js_trim tok = tok" and "i \<noteq> []"
    and "ae_uuid_in env i = Some i" and "ae_is_uuid env i" and "ae_find env = Done"
    and "findById i w = Some cur" and "status cur = PROCESSING" and "callbackToken cur = Some tok"
    and "body_of env SubmitResultSchema (rq_body rq) = Inr j"
    and "submitResult (ae_submit env) (ae_submit_io env) cur (read_result j) w = (Inr (), w')"
  shows "serve env rq w =
    (\<lparr>rs_status = 204, rs_requestId = snd (requestId_use (ae_uuid env) (rq_requestId rq)), rs_body = No_Body\<rparr>, w')"
proof -
  let ?req = "header_request rq [i]"
  have "extractBearerToken ?req = Some tok"
    using assms(4-7)
    by (simp add: extractBearerToken_def header_request_def dispatch_call_def bearer_def startsWith_def Let_def)
  then have guard: "callback_canActivate (ae_uuid_in env) (ae_find env) ?req w = Inr cur"
    using assms(6,8,9,11-14) by (simp add: callback_canActivate_def validateToken_eq header_request_def)
  have "ParseUUIDPipe (ae_is_uuid env) i = Inr i" using assms(10) by (simp add: ParseUUIDPipe_def)
  then have "run_endpoint env rq Submit_Result ?req w = (Inr (204, No_Body), w')"
    using guard assms(15,16)
    by (simp add: run_endpoint_def callback_endpoint_def answer_def header_request_def)
  then show ?thesis
    using task_routes [OF assms(1,8)] assms(2,3) by (simp add: serve_def dispatch_request_def)
qed

lemma status_served:
  assumes "literal_compare (ae_same env)" and "rq_verb rq = GET" and "rq_segments rq = [''v1'', ''tasks'', i]"
    and "apiKey_canActivate (ae_key env) (header_request rq [i]) = Inr True" and "i \<noteq> []" and "db_uuid i = i"
    and "ae_is_uuid env i" and "ae_find env = Done" and "findById i w = Some t"
  shows "serve env rq w =
    (\<lparr>rs_status = 200, rs_requestId = snd (requestId_use (ae_uuid env) (rq_requestId rq)),
      rs_body = Task_Body (filter (\<lambda>(k, _). k \<noteq> ''callbackToken'') (task_fields t))\<rparr>, w)"
proof -
  have "getStatus_handler (ae_find env) i w = Inr (filter (\<lambda>(k, _). k \<noteq> ''callbackToken'') (task_fields t))"
    using assms(6,8,9) by (simp add: getStatus_handler_def getStatus_def find_task_def)
  then have "run_endpoint env rq Get_Task (header_request rq [i]) w =
      (Inr (200, Task_Body (filter (\<lambda>(k, _). k \<noteq> ''callbackToken'') (task_fields t))), w)"
    using assms(4,7) by (simp add: run_endpoint_def getStatus_route_def id_route_def api_route_def ParseUUIDPipe_def
        answer_def header_request_def)
  then show ?thesis
    using task_routes [OF assms(1,5)] assms(2,3) by (simp add: serve_def dispatch_request_def)
qed

text \<open>
  C4: A task makes it from the queue to its client. A \<open>PENDING\<close> task whose dispatch the executor accepts can
  be answered with the credential of that very call: the result is accepted with 204. From then on the
  status route answers \<open>COMPLETED\<close> with exactly that result and without the token; the log and the channel
  of the task have one event more, the completion; and if the client has named a webhook, a job is
  enqueued that posts the identifier, the status and the result to it.
\<close>

theorem task_lifecycle:
  assumes "db_inv w" and "findById i w = Some t" and "status t = PENDING"
    and "callbackToken t = Some tok" and "tok \<noteq> []" and "js_trim tok = tok" and "result t = None" and "error t = None"
    and "i \<noteq> []" and "db_uuid i = i" and "ae_uuid_in env i = Some i" and "ae_is_uuid env i"
    and "literal_compare (ae_same env)" and "api_env_ok env" and "ae_find env = Done" and "ae_submit_io env = submit_ok"
    and "sb_eid (ae_submit env) \<notin> ev_id ` set (task_events w)"
    and "outcome (post (executorUrl t) (default_opts\<lparr>attempts := 3\<rparr>) net rnd) = Inr d"
    and "dispatch_process denv dispatch_ok net rnd (\<lambda>x. x) i tmo w = (r1, Some call, w1)"
    and "rq_verb rq = POST" and "rq_segments rq = [''v1'', ''tasks'', i, ''result'']"
    and "rq_authorization rq = map_of (call_headers call) ''Authorization''"
    and "body_of env SubmitResultSchema (rq_body rq) = Inr j" and "read_result j = ResultCompleted res"
    and "serve env rq w1 = (rs, w2)"
    and "rq_verb rq' = GET" and "rq_segments rq' = [''v1'', ''tasks'', i]"
    and "apiKey_canActivate (ae_key env) (header_request rq' [i]) = Inr True"
  shows "rs_status rs = 204
    \<and> (\<exists>fs. serve env rq' w2 =
          (\<lparr>rs_status = 200, rs_requestId = snd (requestId_use (ae_uuid env) (rq_requestId rq')), rs_body = Task_Body fs\<rparr>, w2)
        \<and> map_of fs ''status'' = Some (JStr ''COMPLETED'') \<and> map_of fs ''result'' = Some res
        \<and> map_of fs ''callbackToken'' = None)
    \<and> (\<exists>ev. task_log (task_events w2) i = task_log (task_events w) i @ [ev]
        \<and> published w2 = published w @ [(''task:'' @ i, ev)]
        \<and> eventType ev = EvCompleted \<and> ev_payload ev = JObj [(''data'', res)])
    \<and> jobs ''webhook'' w2 = jobs ''webhook'' w @
        (if truthy (webhookUrl t) then [stored_job (webhook_job i) no_options] else [])
    \<and> (\<forall>url. webhookUrl t = Some url \<and> url \<noteq> [] \<longrightarrow>
        (\<exists>c. webhook_process Done net' rnd' i w2 = (Inr (), Some c) \<and> call_url c = url
           \<and> call_body c = JObj [(''taskId'', JStr i), (''status'', JStr ''COMPLETED''), (''result'', res)]))"
proof -
  let ?c = "claimed_row denv tmo t"
  have id: "task_id t = i" using findById_valid [OF assms(1,2)] by simp
  obtain wc where c: "claim denv i tmo w = (Inr (Some ?c), wc)" "wc = w\<lparr>tasks := tasks wc\<rparr>" "db_inv wc"
    "findById i wc = Some ?c"
    by (rule claim_hit [OF assms(1-3), of denv tmo]) simp
  have w1: "w1 = wc" "call = dispatch_call i ?c"
    using assms(18,19) by (auto simp: dispatch_process_def c(1) Let_def claimed_row_def split: sum.splits prod.splits)
  have row: "callbackToken ?c = Some tok" "status ?c = PROCESSING" "task_id ?c = i" "webhookUrl ?c = webhookUrl t"
    "result ?c = None" "error ?c = None"
    using assms(4,7,8) by (simp_all add: claimed_row_def id)
  have same: "task_events wc = task_events w" "published wc = published w" "bull wc = bull w"
    by (subst c(2), simp)+
  have ok: "result_ok (read_result j)"
    using result_body_ok assms(14,23) unfolding body_of_def api_env_ok_def by blast
  then obtain kvs where res: "res = JObj kvs" using assms(24) by (auto simp: result_ok_def)
  let ?r = "reported_row (ae_submit env) (ResultCompleted res) ?c"
  have cur: "findById (task_id ?c) wc = Some ?c" using c(4) row(3) by simp
  have fresh: "sb_eid (ae_submit env) \<notin> ev_id ` set (task_events wc)" using assms(17) same by simp
  obtain w' ev where h: "submitResult (ae_submit env) submit_ok ?c (ResultCompleted res) wc = (Inr (), w')"
    "findById (task_id ?c) w' = Some ?r" "ev_payload ev = payloadFields (dto_input (task_id ?c) (ResultCompleted res))"
    "eventType ev = (case ResultCompleted res of ResultCompleted _ \<Rightarrow> EvCompleted | ResultFailed _ \<Rightarrow> EvFailed)"
    "task_log (task_events w') (task_id ?c) = task_log (task_events wc) (task_id ?c) @ [ev]"
    "published w' = published wc @ [(''task:'' @ task_id ?c, ev)]"
    "jobs ''webhook'' w' = jobs ''webhook'' wc @
       (if truthy (webhookUrl ?c) then [stored_job (webhook_job (task_id ?c)) no_options] else [])"
    using submit_hit [OF c(3) cur row(2) fresh, of "ResultCompleted res"] by (elim exE conjE) (rule that)
  have s: "submitResult (ae_submit env) submit_ok ?c (ResultCompleted res) wc = (Inr (), w')"
    "findById i w' = Some ?r" "ev_payload ev = JObj [(''data'', res)]" "eventType ev = EvCompleted"
    "task_log (task_events w') i = task_log (task_events w) i @ [ev]" "published w' = published w @ [(''task:'' @ i, ev)]"
    "jobs ''webhook'' w' = jobs ''webhook'' w @ (if truthy (webhookUrl t) then [stored_job (webhook_job i) no_options] else [])"
    using h by (simp_all add: row(3,4) same)
  have "serve env rq wc =
      (\<lparr>rs_status = 204, rs_requestId = snd (requestId_use (ae_uuid env) (rq_requestId rq)), rs_body = No_Body\<rparr>, w')"
    using assms(22) s(1) assms(16,24) unfolding w1(2)
    by (intro callback_served [OF assms(13,20,21) _ row(1) assms(5,6,9,11,12,15) c(4) row(2,1) assms(23)]) simp_all
  then have w2: "rs_status rs = 204" "w2 = w'" using assms(25) by (auto simp: w1(1))
  have get: "serve env rq' w' =
      (\<lparr>rs_status = 200, rs_requestId = snd (requestId_use (ae_uuid env) (rq_requestId rq')),
        rs_body = Task_Body (filter (\<lambda>(k, _). k \<noteq> ''callbackToken'') (task_fields ?r))\<rparr>, w')"
    by (rule status_served [OF assms(13,26,27,28,9,10,12,15) s(2)])
  have fields: "map_of (filter (\<lambda>(k, _). k \<noteq> ''callbackToken'') (task_fields ?r)) ''status'' = Some (JStr ''COMPLETED'')"
    "map_of (filter (\<lambda>(k, _). k \<noteq> ''callbackToken'') (task_fields ?r)) ''result'' = Some res"
    "map_of (filter (\<lambda>(k, _). k \<noteq> ''callbackToken'') (task_fields ?r)) ''callbackToken'' = None"
    by (simp_all add: task_fields_def reported_row_def status_name_def json_opt_def)
  have hook: "\<exists>c. webhook_process Done net' rnd' i w' = (Inr (), Some c) \<and> call_url c = url
      \<and> call_body c = JObj [(''taskId'', JStr i), (''status'', JStr ''COMPLETED''), (''result'', res)]"
    if "webhookUrl t = Some url" "url \<noteq> []" for url
  proof -
    have "webhookUrl ?r = Some url" using that(1) row(4) by (simp add: reported_row_def)
    from webhook_process_row [OF s(2) this that(2)]
    show ?thesis
      using row(3,6)
      by (auto simp: webhook_call_def webhook_payload_def reported_row_def status_name_def res)
  qed
  show ?thesis
    using w2(1) get fields s(3-7) hook unfolding w2(2) by blast
qed

definition accepting :: "nat \<Rightarrow> exchange" where
  "accepting a = \<lparr>latency = 5, answered = Answer JNull\<rparr>"

lemma accepting_outcome: "outcome (post url (default_opts\<lparr>attempts := 3\<rparr>) accepting rnd) = Inr JNull"
  by (simp add: post_def post_loop.simps accepting_def with_timeout_def default_opts_def)

definition sample_result :: json where
  "sample_result = JObj [(''status'', JStr ''completed''), (''result'', JObj [])]"

lemma sample_result_body:
  "\<exists>j. body_of sample_api SubmitResultSchema sample_result = Inr j \<and> read_result j = ResultCompleted (JObj [])"
  by (simp add: body_of_def sample_api_def sample_schema_defs SubmitResultSchema_def sample_result_def read_result_def
      text_field_def field_of_def TaskErrorSchema_def)

theorem task_lifecycle_witness:
  "\<exists>w fs. serve sample_api (sample_request GET [''v1'', ''tasks'', ''t''] JNull) w =
      (\<lparr>rs_status = 200, rs_requestId = ''r'', rs_body = Task_Body fs\<rparr>, w)
    \<and> map_of fs ''status'' = Some (JStr ''COMPLETED'') \<and> map_of fs ''result'' = Some (JObj [])"
proof -
  let ?w = "sample_world [sample_row ''t'' PENDING]" and ?rq = "sample_request POST [''v1'', ''tasks'', ''t'', ''result''] sample_result"
    and ?rq' = "sample_request GET [''v1'', ''tasks'', ''t''] JNull"
  obtain w1 where c: "claim sample_dispatch ''t'' 300 ?w = (Inr (Some (claimed_row sample_dispatch 300 (sample_row ''t'' PENDING))), w1)"
    by (rule claim_hit [of ?w "''t''" "sample_row ''t'' PENDING" sample_dispatch 300]) simp_all
  have d: "dispatch_process sample_dispatch dispatch_ok accepting (\<lambda>_. 0) (\<lambda>x. x) ''t'' 300 ?w =
      (Inr (), Some (dispatch_call ''t'' (claimed_row sample_dispatch 300 (sample_row ''t'' PENDING))), w1)"
    by (simp add: dispatch_process_def c accepting_outcome Let_def)
  have u: "db_uuid ''t'' = ''t''" "js_trim ''tok'' = ''tok''" by code_simp+
  obtain j where j: "body_of sample_api SubmitResultSchema sample_result = Inr j" "read_result j = ResultCompleted (JObj [])"
    using sample_result_body by blast
  have key: "apiKey_canActivate (ae_key sample_api) (header_request ?rq' [''t'']) = Inr True"
    using api_key_guard_iff [of "Some ''key''"] by simp
  have auth: "rq_authorization ?rq = map_of (call_headers (dispatch_call ''t''
      (claimed_row sample_dispatch 300 (sample_row ''t'' PENDING)))) ''Authorization''"
    by (simp add: dispatch_call_def bearer_def claimed_row_def)
  obtain rs w2 where s: "serve sample_api ?rq w1 = (rs, w2)" by fastforce
  have "\<exists>fs. serve sample_api ?rq' w2 =
      (\<lparr>rs_status = 200, rs_requestId = snd (requestId_use (ae_uuid sample_api) (rq_requestId ?rq')), rs_body = Task_Body fs\<rparr>, w2)
    \<and> map_of fs ''status'' = Some (JStr ''COMPLETED'') \<and> map_of fs ''result'' = Some (JObj [])
    \<and> map_of fs ''callbackToken'' = None"
    by (rule task_lifecycle [of ?w "''t''" "sample_row ''t'' PENDING" "''tok''" sample_api accepting "\<lambda>_. 0" JNull
          sample_dispatch 300 "Inr ()" _ w1 ?rq j "JObj []" rs w2 ?rq', THEN conjunct2, THEN conjunct1,
          OF _ _ _ _ _ _ _ _ _ _ _ _ _ _ _ _ _ _ d _ _ auth _ j(2) s])
      (use j(1) key u in \<open>simp_all add: literal_compare_def accepting_outcome\<close>)
  then show ?thesis by (auto simp: requestId_use_def Let_def)
qed

end
