(* ===== verification/Spec2Isabelle.thy ===== *)
theory Spec2Isabelle
  imports Workers SseDelivery Routes RequestBody RedisService Middleware Infrastructure StreamChannels
    Bootstrap ApiDocs Lifecycle
begin

text \<open>
  A model of the async long-request proxy: an HTTP service (NestJS, PostgreSQL through Drizzle,
  Redis, BullMQ) that accepts a long-running task, hands it to an executor and delivers its outcome
  by status polling, server-sent events and webhooks. Paths below are relative to the repository.

  \<^bold>\<open>How the parts interact.\<close> The API process creates a task (\<open>TasksService.create\<close>): it occupies an
  idempotency slot in Redis, inserts a \<open>PENDING\<close> row, enqueues a dispatch job and commits the slot.
  The worker process claims the task (\<open>PENDING\<close> to \<open>PROCESSING\<close>, a conditional update) and posts it to
  the executor with bounded retries. The executor calls back with the task's bearer token; its result
  moves the row to \<open>COMPLETED\<close> or \<open>FAILED\<close>, appends an event to the task's log, publishes it on the
  task's channel and enqueues a webhook job. Clients cancel; a sweeper fails overdue tasks; retention
  deletes old terminal ones. An event stream replays the log and continues with the channel.

  \<^bold>\<open>Theories and sources.\<close>
  \<^item> \<open>Prelude\<close>: identifiers, times, JSON, exceptions (\<open>exn\<close>, with the two errors of
    \<^verbatim>\<open>libs/http-retry/errors.ts\<close>), the verdict of an external call, SQL's update, delete and lookup on
    a list of rows, the collections \<open>handler_defs\<close> and \<open>inv_intros\<close>.
  \<^item> \<open>TaskTable\<close>, \<open>EventLog\<close>: \<^verbatim>\<open>src/modules/tasks/schemas/tasks.sql.ts\<close>,
    \<^verbatim>\<open>src/modules/delivery/schemas/events.sql.ts\<close>, \<^verbatim>\<open>events.repository.ts\<close>, \<^verbatim>\<open>dto/events.types.ts\<close>: rows,
    constraints, indexes, sequence numbers. \<open>TasksRepository\<close>: \<^verbatim>\<open>tasks.repository.ts\<close>.
  \<^item> \<open>Idempotency\<close>: \<^verbatim>\<open>libs/idempotency/idempotency.service.ts\<close> with the Lua script, on Redis keys with
    expiry. \<open>JobQueue\<close>: \<^verbatim>\<open>libs/queue/bullmq.adapter.ts\<close>, \<^verbatim>\<open>queue.types.ts\<close>.
  \<^item> \<open>World\<close>: the shared stores as one record, \<open>Samples\<close>: rows and stores for the concrete instances.
  \<^item> \<open>HttpRetry\<close>: \<^verbatim>\<open>libs/http-retry/http-retry.service.ts\<close>. \<open>Auth\<close>:
    \<^verbatim>\<open>src/modules/executor/guards/callback-auth.guard.ts\<close> and \<^verbatim>\<open>src/common/guards/api-key.guard.ts\<close>.
  \<^item> \<open>TasksService\<close>: \<^verbatim>\<open>src/modules/tasks/tasks.service.ts\<close>, \<^verbatim>\<open>tasks.controller.ts\<close>. \<open>ExecutorService\<close>:
    \<^verbatim>\<open>src/modules/executor/executor.service.ts\<close>, \<^verbatim>\<open>executor.controller.ts\<close>.
  \<^item> \<open>DispatchProcessor\<close>, \<open>Notifiers\<close>: the workers \<^verbatim>\<open>dispatch.processor.ts\<close>, \<^verbatim>\<open>cancel.processor.ts\<close>,
    \<^verbatim>\<open>webhook.processor.ts\<close>. \<open>TimeoutSweeper\<close>, \<open>DataRetention\<close>:
    \<^verbatim>\<open>src/modules/maintenance/maintenance.repository.ts\<close> and its two workers.
  \<^item> \<open>Sse\<close>: one connection of \<^verbatim>\<open>src/modules/delivery/sse.service.ts\<close> as a state machine; \<open>SseDelivery\<close>:
    that machine fed by the event log and the channel.
  \<^item> \<open>System\<close>: every statement of the handlers and workers as a step of one transition system;
    \<open>Handlers\<close>: the handlers and workers themselves, as runs of these steps. \<open>Workers\<close>: the queues the
    workers listen on, their schedules, and the bodies of the jobs; \<open>JobAccounting\<close>: the jobs stored for a
    task, together with those its handlers still owe.
  \<^item> \<open>JsText\<close>: what the code takes from the language to read text (\<open>trim\<close>, \<open>split\<close>, \<open>parseInt\<close>, \<open>Number\<close>).
    \<open>Routes\<close>: the routes of \<^verbatim>\<open>tasks.controller.ts\<close> and \<^verbatim>\<open>src/modules/delivery/stream.controller.ts\<close> with
    their guard and pipe.
  \<^item> \<open>ExceptionFilter\<close>: \<^verbatim>\<open>src/common/exceptions/zod-exception.filter.ts\<close>. \<open>RequestBody\<close>:
    \<^verbatim>\<open>src/common/decorators/parse.decorators.ts\<close>. \<open>Middleware\<close>: \<^verbatim>\<open>libs/logger/logger.service.ts\<close> and
    \<^verbatim>\<open>src/common/middleware\<close>.
  \<^item> \<open>Connections\<close>: \<^verbatim>\<open>src/config\<close>, \<^verbatim>\<open>libs/redis/cluster-nodes.util.ts\<close>, the connections of
    \<^verbatim>\<open>libs/redis/redis.service.ts\<close> and \<^verbatim>\<open>libs/queue/bullmq.adapter.ts\<close>; \<open>RedisService\<close>: the commands of the
    Redis client. \<open>Infrastructure\<close>: \<^verbatim>\<open>libs/observability\<close> (health), \<^verbatim>\<open>src/database/drizzle/drizzle.service.ts\<close>.
  \<^item> \<open>Schemas\<close>: the body schemas of \<^verbatim>\<open>src/modules/tasks/dto/tasks.dto.ts\<close> and
    \<^verbatim>\<open>src/modules/executor/dto/executor.dto.ts\<close> as terms of Zod's combinators. \<open>StoredValues\<close>: what
    their limits mean for the rows and channels of \<open>System\<close>; \<open>EventFlow\<close>: the payloads of the events, and
    that only stored events are published.
  \<^item> \<open>AppModules\<close>: \<^verbatim>\<open>src/app.module.ts\<close>, \<^verbatim>\<open>src/worker.module.ts\<close> and the modules they import, with the
    decorators of the controllers. \<open>HttpApi\<close>: the HTTP server these decorators make (versions, route
    matching, guards, pipes, bodies, filter, middleware), from a request to a response.
  \<^item> \<open>HttpSteps\<close>: every request of \<open>HttpApi\<close> as steps of \<open>System\<close>; \<open>HttpGuarantees\<close>,
    \<open>StreamChannels\<close> and \<open>Lifecycle\<close>: what a client can rely on, the last one from the dispatch of a task to
    its result, and how often the program calls the others.
  \<^item> \<open>Bootstrap\<close>: \<^verbatim>\<open>src/main.ts\<close>, \<^verbatim>\<open>src/worker.ts\<close>, the variables of \<^verbatim>\<open>src/config/env.schema.ts\<close>, the
    connections opened at the start and closed at the end. \<open>ApiDocs\<close>:
    \<^verbatim>\<open>src/common/decorators/swagger.decorators.ts\<close> and the metadata of the parse decorators.
  \<^item> this theory: properties that span components.

  \<^bold>\<open>What the lemmas show.\<close> Every operation is proved on each branch and to preserve \<open>db_inv\<close> (unique
  identifiers and keys, the state check, logs numbered without gaps). Interfaces are locales, each
  interpreted on the model's operations: \<open>seq_log\<close> (numbering), \<open>status_cas\<close> (conditional update),
  \<open>slot_store\<close> (idempotency), \<open>queue_adapter\<close>, \<open>retry_client\<close>, \<open>byte_compare\<close> (twice),
  \<open>inductive_invariant\<close> (for the statements, the job types, the jobs owed and stored, the stored values, the flow of events) and its extension
  \<open>observed_system\<close>, and \<open>simulated_system\<close> (twice: the handlers over the statements, and the HTTP
  server over them). The retry loop and the event stream are
  proved equal to declarative accounts (\<open>post_spec\<close>, \<open>stream_spec\<close>). In \<open>System\<close>, \<open>sys_inv\<close> balances
  the terminal events of a task against its status and the inserts still in flight; it yields that a
  task has one ending, that terminal states are final and that only the diagram's arrows occur. \<open>Handlers\<close> shows that the whole
  handlers, run one after the other with others at work during dispatch calls, only reach what these
  statements reach, so the three facts hold of them; \<open>Workers\<close>, that each queue holds only jobs whose worker can read them, \<open>Lifecycle\<close>, that this is so of the handlers behind the server; \<open>JobAccounting\<close> that a task has at
  most one dispatch job and one job of the other two kinds (\<open>owed\<close>, a ghost of \<open>System\<close>, has an entry for each
  job a statement has earned and no handler has enqueued yet). \<open>StoredValues\<close> and
  \<open>EventFlow\<close> add invariants of the same statements (limits of the stored values, own channels; typed
  payloads, published events are stored ones), and \<open>HttpSteps\<close> shows that serving a request is again a
  run of them, so these invariants and the three facts hold behind the HTTP server, whatever is
  requested; \<open>StreamChannels\<close> concludes that what an event stream shows is true of the stores;
  \<open>Lifecycle\<close> follows one task through dispatch worker, callback, log, channel, status route and webhook. \<open>Schemas\<close> derives the limits from the schemas, \<open>Bootstrap\<close>
  the state in which a process starts from its variables, \<open>ApiDocs\<close> that the documented success
  answers are the ones given. The readers
  of text (cluster nodes, \<open>Last-Event-ID\<close>) have round trips, the exception filter its table of status
  and body, the cached schemas an equivalence with uncached ones.

  \<^bold>\<open>Conventions.\<close> A handler is a function from the stores to a result (\<open>Inl\<close> of the exception, \<open>Inr\<close>
  of the value) and the new stores. Each call to an external service has a verdict \<open>io\<close>: \<open>Done\<close>,
  \<open>Fail_Before\<close> (rejected without effect) or \<open>Fail_After\<close> (the effect took place, the caller sees a
  rejection). One SQL statement or transaction, one Redis command and one enqueue are atomic
  (\<open>retention_orphan\<close> shows what can come between the statements of a retention batch). Of the Redis channel
  the streams assume nothing but that it delivers what was published, except where \<open>connection_trace\<close>
  names more: every later event, once, in the order of the log.
  Parameters: clocks and generated identifiers (the \<open>_env\<close> records), the executor's and receivers'
  replies (\<open>net\<close>), \<open>Math.random\<close> (\<open>rnd\<close>), what other processes do during a call (\<open>meanwhile\<close>), locked
  rows (\<open>sw_locked\<close>), PostgreSQL's reading of a UUID (\<open>uuid_in\<close>), the calendar step of \<open>setDate\<close>
  (\<open>back\<close>), Zod (\<open>parse\<close>, \<open>strict\<close>, \<open>parse_fields\<close>; its documented results are the hypothesis
  \<open>zod_laws\<close>, which the evaluator \<open>zod_eval\<close> satisfies; the text of an issue stays open), Nest's UUID test (\<open>is_uuid\<close>), the pages of a Redis
  scan (\<open>scan\<close>), the health aggregate of Terminus (\<open>check\<close>), whether Express matches a literal path
  segment regardless of case (\<open>ae_same\<close>), the answers of the services at the start (\<open>start_env\<close>). Times are milliseconds, as \<open>int\<close>; bytes are \<open>8 word\<close>; strings are Latin-1 lists of
  characters; identifiers in rows are in canonical lower case, as the database returns them, and one written in a
  URL is read by the statements through \<open>db_uuid\<close> and by channels and jobs as it stands. Selections with
  a \<open>LIMIT\<close> and no order take the rows in table order.

  \<^bold>\<open>Termination.\<close> No function uses fuel. The retry loop decreases the attempts left; the sweeper the
  number of active rows (each batch that does not end the loop fails at least one); retention the
  number of rows (each batch that does not end the loop deletes at least one). The key scan of Redis
  has no bound of its own and is a partial function with the value \<open>None\<close> when it goes on for ever;
  it is proved to end exactly when the server ends the iteration.

  \<^bold>\<open>Not modelled.\<close> The content of the metrics endpoint (prom-client) and the writing of log lines (pino, whose thresholds
  are the hypothesis \<open>pino_thresholds\<close>);
  requests other than those of the controllers (\<^verbatim>\<open>HEAD\<close>, \<^verbatim>\<open>OPTIONS\<close>, the documentation page itself);
  the order in which Nest instantiates independent providers; the benchmarks (scripts that load a running
  server), tests and deployment files.
  BullMQ's delivery is present only as the list of accepted jobs and the schedules registered: that a
  job runs is a step some worker may take.
\<close>

section \<open>Properties across components\<close>

text \<open>
  C29: A result reported by the executor reaches the client's webhook: after the report has been
  accepted, the webhook job reads the task again and posts its identifier, its final status and
  exactly the reported result or error to the configured URL, and the job never fails.
\<close>

theorem result_reaches_webhook:
  assumes "db_inv w" and "findById (task_id t) w = Some cur" and "status cur = PROCESSING"
    and "webhookUrl cur = Some url" and "url \<noteq> []" and "result cur = None" and "error cur = None"
    and "dto \<noteq> ResultCompleted JNull"
  shows "webhook_process Done net rnd (task_id t) (snd (submitResult env submit_ok t dto w)) =
    (Inr (), Some \<lparr>call_url = url,
       call_body = JObj ([(''taskId'', JStr (task_id t)), (''status'', JStr (status_name (dto_status dto)))] @
         (case dto of ResultCompleted r \<Rightarrow> [(''result'', r)] | ResultFailed er \<Rightarrow> [(''error'', task_error_json er)])),
       call_headers = [],
       call_opts = default_opts\<lparr>attempts := 5, baseDelayMs := 1000, maxDelayMs := 60000\<rparr>\<rparr>)"
proof -
  obtain w1 where u: "updateStatus (sb_upd env) (task_id t) [PROCESSING] (dto_status dto)
       ((dto_patch dto)\<lparr>set_completedAt := Some (Some (sb_now env))\<rparr>) w =
       (Inr (Some (reported_row env dto cur)), w1)"
    and find: "findById (task_id t) w1 = Some (reported_row env dto cur)"
    by (rule report_hit [OF assms(1-3), where env = env and dto = dto]) simp
  let ?w' = "snd (submitResult env submit_ok t dto w)"
  have row: "findById (task_id t) ?w' = Some (reported_row env dto cur)"
    using find submit_tail_tasks [of env submit_ok t "dto_input (task_id t) dto" w1]
    by (simp add: submitResult_eq u findById_def)
  have id: "task_id cur = task_id t" using findById_valid [OF assms(1,2)] by simp
  have "webhook_call url (reported_row env dto cur) = \<lparr>call_url = url,
       call_body = JObj ([(''taskId'', JStr (task_id t)), (''status'', JStr (status_name (dto_status dto)))] @
         (case dto of ResultCompleted r \<Rightarrow> [(''result'', r)] | ResultFailed er \<Rightarrow> [(''error'', task_error_json er)])),
       call_headers = [],
       call_opts = default_opts\<lparr>attempts := 5, baseDelayMs := 1000, maxDelayMs := 60000\<rparr>\<rparr>"
    using assms(6-8) id
    by (cases dto) (auto simp: webhook_call_def webhook_payload_def reported_row_def split: json.split)
  moreover have "webhookUrl (reported_row env dto cur) = Some url"
    using assms(4) by (cases dto) (simp_all add: reported_row_def)
  ultimately show ?thesis using assms(5) row by (simp add: webhook_process_row)
qed

theorem result_reaches_webhook_witness:
  "\<exists>c. webhook_process Done rejecting (\<lambda>_. 0) ''t'' (snd (submitResult sample_submit submit_ok (sample_row ''t'' PROCESSING)
      (ResultCompleted (JObj [])) (sample_world [sample_row ''t'' PROCESSING]))) = (Inr (), Some c)
    \<and> call_body c = JObj [(''taskId'', JStr ''t''), (''status'', JStr ''COMPLETED''), (''result'', JObj [])]"
  using result_reaches_webhook [of "sample_world [sample_row ''t'' PROCESSING]" "sample_row ''t'' PROCESSING"
      "sample_row ''t'' PROCESSING" "''http://h''" "ResultCompleted (JObj [])" rejecting "\<lambda>_. 0" sample_submit]
  by (simp add: status_name_def)

text \<open>
  The executor that receives a dispatch can answer it: the bearer token in the dispatch call,
  sent back on the callback route of the same task, passes the callback guard from the moment the
  claim is stored, with the row just claimed.
\<close>

theorem dispatched_executor_is_admitted:
  assumes "db_inv w" and "findById i w = Some t" and "status t = PENDING"
    and "callbackToken t = Some tok" and "tok \<noteq> []" and "js_trim tok = tok"
    and "uuid_in i = Some i" and "i \<noteq> []"
  shows "callback_canActivate uuid_in Done
      \<lparr>hdr_xApiKey = None, hdr_authorization = map_of (call_headers (dispatch_call i t)) ''Authorization'',
       param_id = Some i\<rparr>
      (snd (claim env i tmo w)) = Inr (claimed_row env tmo t)"
proof -
  obtain w1 where c: "claim env i tmo w = (Inr (Some (claimed_row env tmo t)), w1)"
    "findById i w1 = Some (claimed_row env tmo t)"
    by (rule claim_hit [OF assms(1-3), of env tmo]) simp
  have row: "callbackToken (claimed_row env tmo t) = Some tok" "status (claimed_row env tmo t) = PROCESSING"
    using assms(4) by (simp_all add: claimed_row_def)
  let ?req = "\<lparr>hdr_xApiKey = None, hdr_authorization = map_of (call_headers (dispatch_call i t)) ''Authorization'',
       param_id = Some i\<rparr>"
  have "extractBearerToken ?req = Some tok"
    using assms(4-6) by (simp add: extractBearerToken_def dispatch_call_def bearer_def startsWith_def Let_def)
  then show ?thesis
    using assms(5,7,8) c row by (simp add: callback_canActivate_def validateToken_eq)
qed

theorem dispatched_executor_is_admitted_witness:
  "\<exists>t. callback_canActivate Some Done
      \<lparr>hdr_xApiKey = None, hdr_authorization = Some ''Bearer tok'', param_id = Some ''t''\<rparr>
      (snd (claim sample_dispatch ''t'' 300 (sample_world [sample_row ''t'' PENDING]))) = Inr t"
  using dispatched_executor_is_admitted [of "sample_world [sample_row ''t'' PENDING]" "''t''" "sample_row ''t'' PENDING"
      "''tok''" Some sample_dispatch 300]
  by (auto simp: js_trim_def js_space_def dispatch_call_def bearer_def)

text \<open>
  C37: A task that fails at dispatch leaves its watchers waiting. The row is \<open>FAILED\<close>, but no event is
  written and no webhook enqueued, so every event stream of the task, opened before or after, with
  any Last-Event-ID, shows no ending and is not closed by the server.
\<close>

theorem dispatch_failure_stream_stays_open:
  assumes "db_inv w" and "findById i w = Some t" and "status t = PENDING"
    and "\<not> ends (task_log (task_events w) i)"
    and "outcome (post (executorUrl t) (default_opts\<lparr>attempts := 3\<rparr>) net rnd) = Inl err"
    and "w' = snd (snd (dispatch_process env dispatch_ok net rnd (\<lambda>x. x) i tmo w))"
    and "connection_trace (task_events w') i snap p q pre post_inputs"
  shows "status_of i w' = Some FAILED \<and> jobs ''webhook'' w' = jobs ''webhook'' w
    \<and> Complete \<notin> set (sent (sse_session a pre (Inr (findEventsSince i a snap)) post_inputs))
    \<and> \<not> closed (sse_session a pre (Inr (findEventsSince i a snap)) post_inputs)"
proof -
  obtain w1 where c: "claim env i tmo w = (Inr (Some (claimed_row env tmo t)), w1)" "db_inv w1"
    "w1 = w\<lparr>tasks := tasks w1\<rparr>" "findById i w1 = Some (claimed_row env tmo t)"
    by (rule claim_hit [OF assms(1-3), of env tmo]) simp
  have st: "status (claimed_row env tmo t) = PROCESSING" by (simp add: claimed_row_def)
  obtain w2 where d: "dispatch_catch env dispatch_ok i err w1 = (Inr (), w2)" "w2 = w1\<lparr>tasks := tasks w2\<rparr>"
    "findById i w2 = Some (failed_row env err (claimed_row env tmo t))"
    by (rule dispatch_catch_hit [OF c(2) client.send_exn [OF assms(5)] c(4) st, of env]) simp
  have w': "w' = w2"
    using assms(5,6) by (simp add: dispatch_process_def c(1) d(1) Let_def)
  have same: "task_events w2 = task_events w" "bull w2 = bull w"
    by (subst d(2), subst c(3), simp)+
  let ?L = "task_log (task_events w') i"
  have "\<not> ends ?L" using assms(4) by (simp add: w' same)
  then have open_log: "\<not> ends (filter (\<lambda>e. a < seq e) (take q ?L @ drop (max p q) ?L))"
    by (auto simp: ends_def list_ex_iff dest!: in_set_takeD in_set_dropD)
  note tr = trace_visible [OF assms(7), of a]
  have "Complete \<notin> set (stream_spec es)" if "\<not> ends es" for es
    using that by (auto simp: stream_spec_def)
  then have "Complete \<notin> set (visible (sse_session a pre (Inr (findEventsSince i a snap)) post_inputs))"
    using tr open_log by simp
  then show ?thesis
    using tr open_log d(3) by (auto simp: w' same status_of_def failed_row_def visible_def live_def)
qed

theorem dispatch_failure_stream_stays_open_witness:
  "\<not> closed (sse_session 0 [] (Inr (findEventsSince ''t'' 0 [])) [Heartbeat])"
proof -
  let ?w = "sample_world [sample_row ''t'' PENDING]"
  let ?w' = "snd (snd (dispatch_process sample_dispatch dispatch_ok rejecting (\<lambda>_. 0) (\<lambda>x. x) ''t'' 300 ?w))"
  obtain w1 where cl: "claim sample_dispatch ''t'' 300 ?w = (Inr (Some (claimed_row sample_dispatch 300 (sample_row ''t'' PENDING))), w1)"
    "db_inv w1" "w1 = ?w\<lparr>tasks := tasks w1\<rparr>"
    "findById ''t'' w1 = Some (claimed_row sample_dispatch 300 (sample_row ''t'' PENDING))"
    by (rule claim_hit [of ?w "''t''" "sample_row ''t'' PENDING" sample_dispatch 300]) simp_all
  have exn: "http_exn ''http://e'' (NonRetryableError ''http://e'' 400)"
    "status (claimed_row sample_dispatch 300 (sample_row ''t'' PENDING)) = PROCESSING"
    by (simp_all add: http_exn_def claimed_row_def)
  obtain w2 where w2: "dispatch_catch sample_dispatch dispatch_ok ''t'' (NonRetryableError ''http://e'' 400) w1 = (Inr (), w2)"
    "w2 = w1\<lparr>tasks := tasks w2\<rparr>"
    by (rule dispatch_catch_hit [OF cl(2) exn(1) cl(4) exn(2), of sample_dispatch]) blast
  have "task_events w2 = []" by (subst w2(2), subst cl(3)) simp
  then have "task_events ?w' = []"
    by (simp add: dispatch_process_def cl(1) w2(1) rejecting_outcome Let_def)
  then have "connection_trace (task_events ?w') ''t'' [] 0 0 [] [Heartbeat]"
    by (simp add: connection_trace_def task_log_def quiet_def events_wf_def task_events_task_id_seq_unique_idx_def)
  from dispatch_failure_stream_stays_open [OF db_inv_sample_row(1) _ _ _ _ refl this,
      of "sample_row ''t'' PENDING" "NonRetryableError ''http://e'' 400" 0]
  show ?thesis by (simp add: rejecting_outcome task_log_def)
qed

end
